(* ===== verification/Prelude.thy ===== *)
theory Prelude
  imports Main "HOL-Library.Word" "HOL-Library.Sublist" "HOL-Library.AList"
    "HOL-Library.Char_ord" "HOL-Library.List_Lexorder"
begin

text \<open>
  What the components share: the theorem collections of the development, Go's run-time
  panics as values, Go's maps as association lists, and the list lemmas behind the ring
  buffer, the channels and the sorted key unions.
\<close>

section \<open>Theorem collections\<close>

named_theorems go_string_simps \<open>evaluation of the models of package strings\<close>
named_theorems chan_simps \<open>what the channel operations do to buffer, capacity and flag\<close>
named_theorems store_simps \<open>what the store's operations do to its fields\<close>
named_theorems tui_simps \<open>what one update of the terminal model does to its fields\<close>

section \<open>Run-time panics\<close>

text \<open>
  A Go panic ends the process. An operation that may panic returns \<open>go_panic + 'a\<close>.
\<close>

datatype go_panic =
    IndexOutOfRange
  | MakeLenOutOfRange
  | SendOnClosedChannel
  | CloseOfClosedChannel

text \<open>Sequencing of operations that may fail, on the left of the sum.\<close>

definition and_then :: "'e + 'a \<Rightarrow> ('a \<Rightarrow> 'e + 'b) \<Rightarrow> 'e + 'b" where
  "and_then r f = (case r of Inl e \<Rightarrow> Inl e | Inr x \<Rightarrow> f x)"

lemma and_then_simps [simp]:
  "and_then (Inl e) f = Inl e"
  "and_then (Inr x) f = f x"
  by (simp_all add: and_then_def)

lemma and_then_Inr_iff: "and_then r f = Inr y \<longleftrightarrow> (\<exists>x. r = Inr x \<and> f x = Inr y)"
  by (cases r) simp_all

definition is_ok :: "'e + 'a \<Rightarrow> bool" where
  "is_ok r \<longleftrightarrow> (case r of Inl _ \<Rightarrow> False | Inr _ \<Rightarrow> True)"

lemma is_ok_simps [simp]: "\<not> is_ok (Inl e)" "is_ok (Inr x)"
  by (simp_all add: is_ok_def)

lemma is_ok_iff: "is_ok r \<longleftrightarrow> (\<exists>x. r = Inr x)"
  by (cases r) simp_all

text \<open>A loop that applies a fallible step to each element in turn and stops at the first failure.\<close>

fun fold_ok :: "('s \<Rightarrow> 'a \<Rightarrow> 'e + 's) \<Rightarrow> 's \<Rightarrow> 'a list \<Rightarrow> 'e + 's" where
  "fold_ok f s [] = Inr s"
| "fold_ok f s (x # xs) = and_then (f s x) (\<lambda>s'. fold_ok f s' xs)"

lemma fold_ok_append: "fold_ok f s (xs @ ys) = and_then (fold_ok f s xs) (\<lambda>s'. fold_ok f s' ys)"
  by (induction xs arbitrary: s) (auto simp: and_then_def split: sum.splits)

section \<open>Maps\<close>

text \<open>
  A Go map is an association list with one entry per key: \<open>map_of m k\<close> is the lookup with
  its second result, \<open>AList.update k v m\<close> the assignment \<open>m[k] = v\<close>, \<open>length m\<close> is
  \<open>len(m)\<close>. Ranging over a Go map has no fixed order; the source sorts wherever the
  order can be seen.
\<close>

type_synonym ('k, 'v) go_map = "('k \<times> 'v) list"

abbreviation has_key :: "('k, 'v) go_map \<Rightarrow> 'k \<Rightarrow> bool" where
  "has_key m k \<equiv> map_of m k \<noteq> None"

abbreviation wf_map :: "('k, 'v) go_map \<Rightarrow> bool" where
  "wf_map m \<equiv> distinct (map fst m)"

lemma has_key_iff: "has_key m k \<longleftrightarrow> k \<in> fst ` set m"
  by (simp add: map_of_eq_None_iff)

lemma map_of_None_iff [simp]: "map_of m k = None \<longleftrightarrow> k \<notin> fst ` set m"
  by (simp add: map_of_eq_None_iff)

lemma map_of_notin [simp]: "k \<notin> fst ` set m \<Longrightarrow> map_of m k = None"
  by simp

lemma map_of_in_fst: "map_of m k = Some v \<Longrightarrow> k \<in> fst ` set m"
  by (metis map_of_None_iff option.distinct(1))

lemma map_of_update [simp]: "map_of (AList.update k v m) = (map_of m)(k \<mapsto> v)"
  by (rule update_conv')

lemma keys_update [simp]: "fst ` set (AList.update k v m) = insert k (fst ` set m)"
  by (simp add: dom_update)

lemma wf_map_update [simp]: "wf_map m \<Longrightarrow> wf_map (AList.update k v m)"
  by (rule distinct_update)

section \<open>The last elements of a list\<close>

definition lastn :: "nat \<Rightarrow> 'a list \<Rightarrow> 'a list" where
  "lastn n xs = drop (length xs - n) xs"

lemma length_lastn [simp]: "length (lastn n xs) = min n (length xs)"
  by (simp add: lastn_def)

lemma lastn_id [simp]: "length xs \<le> n \<Longrightarrow> lastn n xs = xs"
  by (simp add: lastn_def)

lemma lastn_Nil [simp]: "lastn n [] = []"
  by (simp add: lastn_def)

lemma lastn_snoc_full:
  "0 < n \<Longrightarrow> n \<le> length xs \<Longrightarrow> lastn n (xs @ [x]) = tl (lastn n xs) @ [x]"
  by (simp add: lastn_def Suc_diff_le drop_Suc tl_drop)

lemma lastn_lastn_append: "lastn n (lastn n xs @ ys) = lastn n (xs @ ys)"
proof (cases "length xs \<le> n")
  case True
  then show ?thesis by simp
next
  case False
  then have "length xs - n + (n + length ys - n) = length xs + length ys - n" by simp
  with False show ?thesis
    by (simp add: lastn_def drop_drop add.commute)
qed

lemma last_lastn: "0 < n \<Longrightarrow> xs \<noteq> [] \<Longrightarrow> last (lastn n xs) = last xs"
  by (simp add: lastn_def)

lemma lastn_suffix: "suffix (lastn n xs) xs"
  by (simp add: lastn_def suffix_drop)

section \<open>Searching from the front\<close>

text \<open>The loops that return the first index with a property.\<close>

fun find_index_from :: "('a \<Rightarrow> bool) \<Rightarrow> nat \<Rightarrow> 'a list \<Rightarrow> nat option" where
  "find_index_from P i [] = None"
| "find_index_from P i (x # xs) = (if P x then Some i else find_index_from P (Suc i) xs)"

lemma find_index_from_Some:
  "find_index_from P i xs = Some k \<Longrightarrow>
     i \<le> k \<and> k - i < length xs \<and> P (xs ! (k - i)) \<and> (\<forall>j < k - i. \<not> P (xs ! j))"
proof (induction xs arbitrary: i)
  case Nil
  then show ?case by simp
next
  case (Cons x xs)
  show ?case
  proof (cases "P x")
    case True
    with Cons.prems show ?thesis by simp
  next
    case False
    with Cons.prems have h: "find_index_from P (Suc i) xs = Some k" by simp
    note IH = Cons.IH [OF h]
    then have k: "k - i = Suc (k - Suc i)" by arith
    show ?thesis
      using IH False unfolding k by (auto simp: less_Suc_eq_0_disj)
  qed
qed

lemma find_index_from_None: "find_index_from P i xs = None \<longleftrightarrow> (\<forall>x \<in> set xs. \<not> P x)"
  by (induction xs arbitrary: i) auto

section \<open>Subsequences\<close>

lemma subseq_snoc: "subseq xs ys \<Longrightarrow> subseq xs (ys @ [y])"
  using list_emb_append_mono [of "(=)" xs ys "[]" "[y]"] by simp

lemma subseq_snoc_same: "subseq xs ys \<Longrightarrow> subseq (xs @ [y]) (ys @ [y])"
  by (simp add: subseq_append)

lemma subseq_take: "subseq (take n xs) xs"
  by (rule prefix_imp_subseq [OF take_is_prefix])

end
