(* ===== verification/Go_Strings.thy ===== *)
theory Go_Strings
  imports Prelude
begin

text \<open>
  What the source uses of Go's standard library on text. A Go string is a sequence of
  bytes, here a \<open>string\<close> (a list of 8-bit characters): \<open>length\<close> is \<open>len\<close>, and the
  order of \<open>List_Lexorder\<close> over \<open>Char_ord\<close> is Go's byte-wise order on strings.
  Literals beyond ASCII are written as their UTF-8 bytes. Decoding follows
  \<open>utf8.DecodeRuneInString\<close>, invalid bytes included (one replacement rune per byte).
\<close>

section \<open>Bytes and literals\<close>

definition byte :: "char \<Rightarrow> nat" where
  "byte c = of_char c"

definition nl :: string where
  "nl = [CHR 0x0A]"

definition dquote :: string where
  "dquote = [CHR 0x22]"

text \<open>The arrow, the em dash, the ellipsis, the warning sign and the box-drawing dash.\<close>

definition squote :: string where
  "squote = [CHR 0x27]"

definition arrow :: string where
  "arrow = [CHR 0xE2, CHR 0x86, CHR 0x92]"

definition emdash :: string where
  "emdash = [CHR 0xE2, CHR 0x80, CHR 0x94]"

definition ellipsis :: string where
  "ellipsis = [CHR 0xE2, CHR 0x80, CHR 0xA6]"

definition warn_sign :: string where
  "warn_sign = [CHR 0xE2, CHR 0x9A, CHR 0xA0]"

definition box_dash :: string where
  "box_dash = [CHR 0xE2, CHR 0x94, CHR 0x80]"

lemmas literal_defs = nl_def dquote_def arrow_def emdash_def ellipsis_def warn_sign_def
  box_dash_def

section \<open>UTF-8\<close>

text \<open>Value and width of the first rune; \<open>0xFFFD\<close> with width 1 for an invalid byte.\<close>

definition cont :: "nat \<Rightarrow> nat \<Rightarrow> char \<Rightarrow> bool" where
  "cont lo hi c \<longleftrightarrow> lo \<le> byte c \<and> byte c \<le> hi"

fun decode_rune :: "string \<Rightarrow> nat \<times> nat" where
  "decode_rune [] = (0xFFFD, 0)"
| "decode_rune (c # s) =
    (let b = byte c in
     if b < 0x80 then (b, 1)
     else if 0xC2 \<le> b \<and> b \<le> 0xDF then
       (case s of c1 # _ \<Rightarrow>
          if cont 0x80 0xBF c1 then ((b - 0xC0) * 64 + (byte c1 - 0x80), 2) else (0xFFFD, 1)
        | _ \<Rightarrow> (0xFFFD, 1))
     else if 0xE0 \<le> b \<and> b \<le> 0xEF then
       (case s of c1 # c2 # _ \<Rightarrow>
          if cont (if b = 0xE0 then 0xA0 else 0x80) (if b = 0xED then 0x9F else 0xBF) c1
             \<and> cont 0x80 0xBF c2
          then ((b - 0xE0) * 4096 + (byte c1 - 0x80) * 64 + (byte c2 - 0x80), 3)
          else (0xFFFD, 1)
        | _ \<Rightarrow> (0xFFFD, 1))
     else if 0xF0 \<le> b \<and> b \<le> 0xF4 then
       (case s of c1 # c2 # c3 # _ \<Rightarrow>
          if cont (if b = 0xF0 then 0x90 else 0x80) (if b = 0xF4 then 0x8F else 0xBF) c1
             \<and> cont 0x80 0xBF c2 \<and> cont 0x80 0xBF c3
          then ((b - 0xF0) * 262144 + (byte c1 - 0x80) * 4096 + (byte c2 - 0x80) * 64
                + (byte c3 - 0x80), 4)
          else (0xFFFD, 1)
        | _ \<Rightarrow> (0xFFFD, 1))
     else (0xFFFD, 1))"

lemma decode_rune_width: "s \<noteq> [] \<Longrightarrow> 0 < snd (decode_rune s) \<and> snd (decode_rune s) \<le> length s"
  by (cases s) (auto simp: Let_def split: list.splits)

text \<open>A string cut into its runes, each with the bytes it was read from.\<close>

function runes :: "string \<Rightarrow> (nat \<times> string) list" where
  "runes s = (if s = [] then []
     else (fst (decode_rune s), take (snd (decode_rune s)) s) # runes (drop (snd (decode_rune s)) s))"
  by pat_completeness auto
termination
  by (relation "measure length") (auto simp: decode_rune_width)

declare runes.simps [simp del]

lemma runes_Nil [simp]: "runes [] = []"
  by (subst runes.simps) simp

lemma runes_ascii: "byte c < 128 \<Longrightarrow> runes (c # s) = (byte c, [c]) # runes s"
  by (subst runes.simps) (simp add: Let_def)

lemma concat_runes [simp]: "concat (map snd (runes s)) = s"
proof (induction s rule: runes.induct)
  case (1 s)
  then show ?case by (subst runes.simps) auto
qed

definition rune_count :: "string \<Rightarrow> nat" where
  "rune_count s = length (runes s)"

lemma rune_count_Nil [simp]: "rune_count [] = 0"
  by (simp add: rune_count_def)

lemma rune_count_ascii: "byte c < 128 \<Longrightarrow> rune_count (c # s) = Suc (rune_count s)"
  by (simp add: rune_count_def runes_ascii)

definition utf8_encode :: "nat \<Rightarrow> string" where
  "utf8_encode r =
    (if r < 0x80 then [char_of r]
     else if r < 0x800 then [char_of (0xC0 + r div 64), char_of (0x80 + r mod 64)]
     else if (0xD800 \<le> r \<and> r < 0xE000) \<or> 0x10FFFF < r then [CHR 0xEF, CHR 0xBF, CHR 0xBD]
     else if r < 0x10000 then
       [char_of (0xE0 + r div 4096), char_of (0x80 + r div 64 mod 64), char_of (0x80 + r mod 64)]
     else [char_of (0xF0 + r div 262144), char_of (0x80 + r div 4096 mod 64),
           char_of (0x80 + r div 64 mod 64), char_of (0x80 + r mod 64)])"

section \<open>Package strings\<close>

text \<open>\<open>unicode.IsSpace\<close>.\<close>

definition is_space :: "nat \<Rightarrow> bool" where
  "is_space r \<longleftrightarrow> (9 \<le> r \<and> r \<le> 13) \<or> r = 0x20 \<or> r = 0x85 \<or> r = 0xA0 \<or> r = 0x1680
     \<or> (0x2000 \<le> r \<and> r \<le> 0x200A) \<or> r = 0x2028 \<or> r = 0x2029 \<or> r = 0x202F
     \<or> r = 0x205F \<or> r = 0x3000"

text \<open>Both ends of a list without the elements that satisfy \<open>P\<close>.\<close>

definition strip :: "('a \<Rightarrow> bool) \<Rightarrow> 'a list \<Rightarrow> 'a list" where
  "strip P xs = rev (dropWhile P (rev (dropWhile P xs)))"

lemma strip_hd: "strip P xs \<noteq> [] \<Longrightarrow> \<not> P (hd (strip P xs))"
proof -
  let ?ys = "dropWhile P xs"
  assume ne: "strip P xs \<noteq> []"
  have "prefix (strip P xs) ?ys"
    unfolding strip_def using suffix_dropWhile [of P "rev ?ys"] by (simp add: suffix_to_prefix)
  then obtain zs where zs: "?ys = strip P xs @ zs" by (rule prefixE)
  with ne have "?ys \<noteq> []" and "hd (strip P xs) = hd ?ys" by (auto simp del: dropWhile_eq_Nil_conv)
  then show "\<not> P (hd (strip P xs))" using hd_dropWhile [of P xs] by metis
qed

lemma strip_last: "strip P xs \<noteq> [] \<Longrightarrow> \<not> P (last (strip P xs))"
  unfolding strip_def by (metis Nil_is_rev_conv hd_dropWhile last_rev)

lemma strip_id: "xs = [] \<or> \<not> P (hd xs) \<and> \<not> P (last xs) \<Longrightarrow> strip P xs = xs"
proof (cases "xs = []")
  case True
  then show ?thesis by (simp add: strip_def)
next
  case False
  assume "xs = [] \<or> \<not> P (hd xs) \<and> \<not> P (last xs)"
  with False have "dropWhile P xs = xs" and "dropWhile P (rev xs) = rev xs"
    by (simp_all add: dropWhile_eq_self_iff hd_rev)
  then show ?thesis by (simp add: strip_def)
qed

lemma strip_idem [simp]: "strip P (strip P xs) = strip P xs"
  by (rule strip_id) (use strip_hd strip_last in blast)

definition trim_space :: "string \<Rightarrow> string" where
  "trim_space s = concat (map snd (strip (\<lambda>p. is_space (fst p)) (runes s)))"

text \<open>\<open>strings.TrimRight\<close> with a cut set of ASCII characters.\<close>

definition trim_right :: "string \<Rightarrow> string \<Rightarrow> string" where
  "trim_right cutset s = rev (dropWhile (\<lambda>c. c \<in> set cutset) (rev s))"

fun has_prefix :: "string \<Rightarrow> string \<Rightarrow> bool" where
  "has_prefix s [] = True"
| "has_prefix [] (d # p) = False"
| "has_prefix (c # s) (d # p) = (c = d \<and> has_prefix s p)"

fun contains :: "string \<Rightarrow> string \<Rightarrow> bool" where
  "contains [] sub = (sub = [])"
| "contains (c # s) sub = (has_prefix (c # s) sub \<or> contains s sub)"

fun join :: "string \<Rightarrow> string list \<Rightarrow> string" where
  "join sep [] = []"
| "join sep [s] = s"
| "join sep (s # t # ss) = s @ sep @ join sep (t # ss)"

text \<open>
  \<open>strings.ToLower\<close>. The mapping of runes beyond ASCII is Unicode's case table, the
  argument \<open>uni_lower\<close>; an invalid byte becomes the replacement rune.
\<close>

definition ascii_lower :: "nat \<Rightarrow> nat" where
  "ascii_lower r = (if 65 \<le> r \<and> r \<le> 90 then r + 32 else r)"

definition to_lower :: "(nat \<Rightarrow> nat) \<Rightarrow> string \<Rightarrow> string" where
  "to_lower uni_lower s =
     concat (map (\<lambda>p. utf8_encode (if fst p < 128 then ascii_lower (fst p) else uni_lower (fst p)))
       (runes s))"

lemma runes_ascii_list: "(\<And>c. c \<in> set s \<Longrightarrow> byte c < 128) \<Longrightarrow> runes s = map (\<lambda>c. (byte c, [c])) s"
  by (induction s) (simp_all add: runes_ascii)

lemma trim_space_plain:
  "(\<And>c. c \<in> set w \<Longrightarrow> byte c < 128 \<and> \<not> is_space (byte c)) \<Longrightarrow> trim_space w = w"
proof -
  assume w: "\<And>c. c \<in> set w \<Longrightarrow> byte c < 128 \<and> \<not> is_space (byte c)"
  then have "strip (\<lambda>p. is_space (fst p)) (map (\<lambda>c. (byte c, [c])) w) = map (\<lambda>c. (byte c, [c])) w"
    by (intro strip_id) (cases "w = []", auto simp: hd_map last_map)
  with w show ?thesis by (simp add: trim_space_def runes_ascii_list comp_def)
qed

text \<open>\<open>strings.Split\<close> at a single character.\<close>

fun split_on :: "char \<Rightarrow> string \<Rightarrow> string list" where
  "split_on sep [] = [[]]"
| "split_on sep (c # s) =
     (if c = sep then [] # split_on sep s
      else (case split_on sep s of [] \<Rightarrow> [[c]] | w # ws \<Rightarrow> (c # w) # ws))"

lemma split_on_nonempty [simp]: "split_on sep s \<noteq> []"
  by (induction s) (auto split: list.splits)

lemma split_on_plain: "sep \<notin> set s \<Longrightarrow> split_on sep s = [s]"
  by (induction s) auto

lemma split_on_append: "sep \<notin> set a \<Longrightarrow> split_on sep (a @ sep # b) = a # split_on sep b"
  by (induction a) auto

lemma split_on_join:
  "ws \<noteq> [] \<Longrightarrow> (\<And>w. w \<in> set ws \<Longrightarrow> sep \<notin> set w) \<Longrightarrow> split_on sep (join [sep] ws) = ws"
proof (induction ws)
  case (Cons w ws)
  then show ?case by (cases ws) (simp_all add: split_on_plain split_on_append)
qed simp

lemma has_prefix_iff: "has_prefix s p \<longleftrightarrow> prefix p s"
  by (induction s p rule: has_prefix.induct) auto

lemma contains_iff: "contains s sub \<longleftrightarrow> sublist sub s"
  by (induction s) (auto simp: has_prefix_iff sublist_Cons_right)

lemma trim_right_prefix: "prefix (trim_right cs s) s"
proof -
  have "suffix (dropWhile (\<lambda>c. c \<in> set cs) (rev s)) (rev s)" by (rule suffix_dropWhile)
  then show ?thesis by (simp add: trim_right_def suffix_to_prefix)
qed

lemma trim_right_last: "trim_right cs s \<noteq> [] \<Longrightarrow> last (trim_right cs s) \<notin> set cs"
  unfolding trim_right_def by (metis (no_types, lifting) Nil_is_rev_conv hd_dropWhile last_rev)

section \<open>Packages strconv and fmt\<close>

fun nat_str :: "nat \<Rightarrow> string" where
  "nat_str n = (if n < 10 then [char_of (48 + n)] else nat_str (n div 10) @ [char_of (48 + n mod 10)])"

declare nat_str.simps [simp del]

definition itoa :: "int \<Rightarrow> string" where
  "itoa i = (if i < 0 then ''-'' @ nat_str (nat (- i)) else nat_str (nat i))"

text \<open>The verbs \<open>%-Ns\<close> (padding counts runes) and \<open>%0Nd\<close> for a natural number.\<close>

definition pad_right :: "nat \<Rightarrow> string \<Rightarrow> string" where
  "pad_right w s = s @ replicate (w - rune_count s) (CHR '' '')"

definition zero_pad :: "nat \<Rightarrow> nat \<Rightarrow> string" where
  "zero_pad w n = replicate (w - length (nat_str n)) (CHR ''0'') @ nat_str n"

text \<open>
  \<open>strconv.Quote\<close>, the verb \<open>%q\<close>. Which runes beyond ASCII are printable is Unicode's
  table, the argument \<open>uni_print\<close>.
\<close>

definition hex_digit :: "nat \<Rightarrow> char" where
  "hex_digit d = (if d < 10 then char_of (48 + d) else char_of (87 + d))"

fun hex_pad :: "nat \<Rightarrow> nat \<Rightarrow> string" where
  "hex_pad 0 n = []"
| "hex_pad (Suc w) n = hex_pad w (n div 16) @ [hex_digit (n mod 16)]"

definition backslash :: string where
  "backslash = [CHR 0x5C]"

definition quote_rune :: "(nat \<Rightarrow> bool) \<Rightarrow> nat \<times> string \<Rightarrow> string" where
  "quote_rune uni_print p =
    (let r = fst p in
     if r = 0xFFFD \<and> length (snd p) = 1 then backslash @ ''x'' @ hex_pad 2 (byte (hd (snd p)))
     else if r = 0x22 \<or> r = 0x5C then backslash @ snd p
     else if (if r < 128 then 32 \<le> r \<and> r < 127 else uni_print r) then snd p
     else if r = 7 then backslash @ ''a''
     else if r = 8 then backslash @ ''b''
     else if r = 12 then backslash @ ''f''
     else if r = 10 then backslash @ ''n''
     else if r = 13 then backslash @ ''r''
     else if r = 9 then backslash @ ''t''
     else if r = 11 then backslash @ ''v''
     else if r < 32 \<or> r = 127 then backslash @ ''x'' @ hex_pad 2 r
     else if r < 0x10000 then backslash @ ''u'' @ hex_pad 4 r
     else backslash @ ''U'' @ hex_pad 8 r)"

definition quote :: "(nat \<Rightarrow> bool) \<Rightarrow> string \<Rightarrow> string" where
  "quote uni_print s = dquote @ concat (map (quote_rune uni_print) (runes s)) @ dquote"

lemma nat_str_nonempty [simp]: "nat_str n \<noteq> []"
  by (subst nat_str.simps) simp

section \<open>Lines\<close>

text \<open>The number of line ends of a text, and what cannot contain one.\<close>

definition line_count :: "string \<Rightarrow> nat" where
  "line_count s = count_list s (CHR 0x0A)"

lemma line_count_append [simp]: "line_count (s @ t) = line_count s + line_count t"
  by (simp add: line_count_def)

lemma line_count_Nil [simp]: "line_count [] = 0"
  by (simp add: line_count_def)

lemma line_count_Cons [simp]: "line_count (c # s) = (if c = CHR 0x0A then 1 else 0) + line_count s"
  by (simp add: line_count_def)

lemma line_count_concat: "line_count (concat ss) = sum_list (map line_count ss)"
  by (induction ss) simp_all

lemma line_count_0_iff: "line_count s = 0 \<longleftrightarrow> CHR 0x0A \<notin> set s"
  by (simp add: line_count_def count_list_0_iff)

lemma line_count_replicate [simp]: "c \<noteq> CHR 0x0A \<Longrightarrow> line_count (replicate n c) = 0"
  by (auto simp: line_count_0_iff)

lemma byte_char_of [simp]: "n < 256 \<Longrightarrow> byte (char_of n) = n"
  by (simp add: byte_def)

lemma no_newline: "(\<And>c. c \<in> set s \<Longrightarrow> 32 \<le> byte c) \<Longrightarrow> line_count s = 0"
  unfolding line_count_0_iff by (force simp: byte_def)

lemma nat_str_digits: "c \<in> set (nat_str n) \<Longrightarrow> 48 \<le> byte c \<and> byte c \<le> 57"
proof (induction n rule: nat_str.induct)
  case (1 n)
  then show ?case by (subst (asm) (2) nat_str.simps) (auto split: if_splits)
qed

text \<open>The number that a decimal text stands for.\<close>

definition digits_value :: "string \<Rightarrow> nat" where
  "digits_value s = foldl (\<lambda>n c. 10 * n + (byte c - 48)) 0 s"

definition atoi :: "string \<Rightarrow> int" where
  "atoi s = (if s \<noteq> [] \<and> hd s = CHR ''-'' then - int (digits_value (tl s)) else int (digits_value s))"

lemma digits_value_nat_str [simp]: "digits_value (nat_str n) = n"
  unfolding digits_value_def
proof (induction n rule: nat_str.induct)
  case (1 n)
  then show ?case by (subst nat_str.simps) auto
qed

lemma nat_str_hd: "hd (nat_str n) \<noteq> CHR ''-''"
proof
  assume "hd (nat_str n) = CHR ''-''"
  then have "CHR ''-'' \<in> set (nat_str n)" using hd_in_set [OF nat_str_nonempty, of n] by simp
  from nat_str_digits [OF this] show False by (simp add: byte_def)
qed

lemma atoi_itoa [simp]: "atoi (itoa i) = i"
  by (simp add: atoi_def itoa_def nat_str_hd)

lemma line_count_nat_str [simp]: "line_count (nat_str n) = 0"
  by (rule no_newline) (use nat_str_digits in fastforce)

lemma line_count_itoa [simp]: "line_count (itoa i) = 0"
  by (simp add: itoa_def)

lemma line_count_pad_right [simp]: "line_count (pad_right w s) = line_count s"
  by (simp add: pad_right_def)

lemma hex_pad_bytes: "c \<in> set (hex_pad w n) \<Longrightarrow> 48 \<le> byte c"
  by (induction w arbitrary: n) (auto simp: hex_digit_def)

lemma line_count_hex_pad [simp]: "line_count (hex_pad w n) = 0"
  by (rule no_newline) (use hex_pad_bytes in fastforce)

text \<open>A rune of more than one byte consists of bytes beyond ASCII.\<close>

lemma decode_rune_high:
  "snd (decode_rune (c # s)) = 1 \<or> (\<forall>x \<in> set (take (snd (decode_rune (c # s))) (c # s)). 128 \<le> byte x)"
proof (cases "byte c < 0xE0")
  case True
  then show ?thesis by (cases s) (simp_all add: Let_def cont_def)
next
  case lo: False
  show ?thesis
  proof (cases "byte c \<le> 0xEF")
    case True
    with lo show ?thesis
      by (cases s; cases "tl s") (simp_all add: Let_def cont_def)
  next
    case False
    with lo show ?thesis
      by (cases s; cases "tl s"; cases "tl (tl s)") (simp_all add: Let_def cont_def)
  qed
qed

lemma decode_rune_newline:
  assumes "CHR 0x0A \<in> set (take (snd (decode_rune s)) s)"
  shows "fst (decode_rune s) = 10"
proof (cases s)
  case (Cons c t)
  have "\<not> 128 \<le> byte (CHR 0x0A)" by (simp add: byte_def)
  with decode_rune_high [of c t] assms Cons have "snd (decode_rune (c # t)) = 1" by metis
  with assms Cons have "c = CHR 0x0A" by simp
  then show ?thesis by (simp add: Cons byte_def)
qed (use assms in simp)

lemma runes_newline: "(r, bs) \<in> set (runes s) \<Longrightarrow> CHR 0x0A \<in> set bs \<Longrightarrow> r = 10"
proof (induction s rule: runes.induct)
  case (1 s)
  show ?case
  proof (cases "s = []")
    case False
    from 1(2) consider "r = fst (decode_rune s)" "bs = take (snd (decode_rune s)) s"
      | "(r, bs) \<in> set (runes (drop (snd (decode_rune s)) s))"
      using False by (subst (asm) runes.simps) auto
    then show ?thesis using 1 False decode_rune_newline by cases auto
  qed (use 1 in simp)
qed

lemma line_count_quote [simp]: "line_count (quote uni_print s) = 0"
proof -
  have "line_count (quote_rune uni_print p) = 0" if "p \<in> set (runes s)" for p
  proof (cases "fst p = 10")
    case True
    then show ?thesis by (auto simp: quote_rune_def backslash_def)
  next
    case False
    with runes_newline [of "fst p" "snd p" s] that have "line_count (snd p) = 0"
      by (auto simp: line_count_0_iff)
    then show ?thesis by (simp add: quote_rune_def backslash_def Let_def)
  qed
  then show ?thesis
    by (simp add: quote_def dquote_def line_count_concat sum_list_eq_0_iff)
qed

section \<open>Time\<close>

text \<open>
  A \<open>time.Time\<close>: nanoseconds since the Unix epoch and the offset of its location from
  UTC in seconds. \<open>Format\<close> with the layout \<open>15:04:05.000\<close> truncates to milliseconds.
\<close>

record go_time =
  unix_ns :: int
  utc_off :: int

definition ns_per_s :: int where
  "ns_per_s = 1000000000"

definition fmt_clock :: "go_time \<Rightarrow> string" where
  "fmt_clock t =
    (let s = (unix_ns t div ns_per_s + utc_off t) mod 86400;
         ms = unix_ns t mod ns_per_s div 1000000
     in zero_pad 2 (nat (s div 3600)) @ '':'' @ zero_pad 2 (nat (s mod 3600 div 60)) @ '':''
        @ zero_pad 2 (nat (s mod 60)) @ ''.'' @ zero_pad 3 (nat ms))"

text \<open>
  The calendar date (year, month, day) of a day number, day 0 being the first of January 1970,
  in the proleptic Gregorian calendar; and the layouts \<open>20060102-150405\<close> and
  \<open>2006-01-02 15:04:05\<close>.
\<close>

definition civil :: "int \<Rightarrow> int \<times> int \<times> int" where
  "civil d =
    (let z = d + 719468; era = z div 146097; doe = z mod 146097;
         yoe = (doe - doe div 1460 + doe div 36524 - doe div 146096) div 365;
         doy = doe - (365 * yoe + yoe div 4 - yoe div 100);
         mp = (5 * doy + 2) div 153;
         day = doy - (153 * mp + 2) div 5 + 1;
         month = (if mp < 10 then mp + 3 else mp - 9)
     in (yoe + era * 400 + (if month \<le> 2 then 1 else 0), month, day))"

lemma civil_examples: "civil 0 = (1970, 1, 1)" "civil 19782 = (2024, 2, 29)" "civil 19783 = (2024, 3, 1)"
  "civil (- 719162) = (1, 1, 1)"
  by code_simp+

definition fmt_year :: "int \<Rightarrow> string" where
  "fmt_year y = (if y < 0 then ''-'' @ zero_pad 4 (nat (- y)) else zero_pad 4 (nat y))"

definition fmt_date :: "string \<Rightarrow> go_time \<Rightarrow> string" where
  "fmt_date sep t =
    (case civil ((unix_ns t div ns_per_s + utc_off t) div 86400) of
       (y, m, d) \<Rightarrow> fmt_year y @ sep @ zero_pad 2 (nat m) @ sep @ zero_pad 2 (nat d))"

definition fmt_hms :: "string \<Rightarrow> go_time \<Rightarrow> string" where
  "fmt_hms sep t =
    (let s = (unix_ns t div ns_per_s + utc_off t) mod 86400
     in zero_pad 2 (nat (s div 3600)) @ sep @ zero_pad 2 (nat (s mod 3600 div 60)) @ sep
        @ zero_pad 2 (nat (s mod 60)))"

definition fmt_stamp :: "go_time \<Rightarrow> string" where
  "fmt_stamp t = fmt_date [] t @ ''-'' @ fmt_hms [] t"

definition fmt_datetime :: "go_time \<Rightarrow> string" where
  "fmt_datetime t = fmt_date ''-'' t @ '' '' @ fmt_hms '':'' t"

text \<open>The zero \<open>time.Time\<close>: midnight of the first of January of the year 1, UTC.\<close>

definition zero_time :: go_time where
  "zero_time = \<lparr>unix_ns = - 62135596800 * ns_per_s, utc_off = 0\<rparr>"

end
