(* ===== verification/Event.thy ===== *)
theory Event
  imports Go_Strings
begin

text \<open>
  \<open>internal/store/event.go\<close>: the items of the feed. \<open>Kind\<close> is a string type in the code
  and any value can arrive over the daemon's socket, so it stays a string here; the four
  constants are definitions. Column values have the dynamic type \<open>any\<close>; the decoder stores
  nothing but \<open>nil\<close> and strings there.
\<close>

section \<open>Types and constants\<close>

datatype any_value = NilValue | StrValue string

type_synonym kind = string
type_synonym event_type = string

definition EventInsert :: event_type where "EventInsert = ''INSERT''"
definition EventUpdate :: event_type where "EventUpdate = ''UPDATE''"
definition EventDelete :: event_type where "EventDelete = ''DELETE''"

definition KindEvent :: kind where "KindEvent = ''event''"
definition KindMarker :: kind where "KindMarker = ''marker''"
definition KindLog :: kind where "KindLog = ''log''"
definition KindDDL :: kind where "KindDDL = ''ddl''"

lemmas event_type_defs = EventInsert_def EventUpdate_def EventDelete_def
lemmas kind_defs = KindEvent_def KindMarker_def KindLog_def KindDDL_def

definition MarkerColorDefault :: string where "MarkerColorDefault = ''default''"

definition AllowedMarkerColors :: "string list" where
  "AllowedMarkerColors = [MarkerColorDefault, ''yellow'', ''green'', ''red'', ''blue'', ''dim'']"

record column =
  col_name :: string
  col_type :: string
  col_is_key :: bool

text \<open>A \<open>map[string]any\<close> that may be nil: \<open>None\<close> is the nil map.\<close>

type_synonym row = "(string, any_value) go_map option"

definition row_get :: "row \<Rightarrow> string \<Rightarrow> any_value option" where
  "row_get r k = (case r of None \<Rightarrow> None | Some m \<Rightarrow> map_of m k)"

definition row_len :: "row \<Rightarrow> nat" where
  "row_len r = (case r of None \<Rightarrow> 0 | Some m \<Rightarrow> length m)"

text \<open>Indexing without the second result gives the zero value, nil, for a missing key.\<close>

definition row_index :: "row \<Rightarrow> string \<Rightarrow> any_value" where
  "row_index r k = (case row_get r k of None \<Rightarrow> NilValue | Some v \<Rightarrow> v)"

record event =
  ev_id :: "64 word"
  ev_time :: go_time
  ev_kind :: kind
  ev_lsn :: string
  ev_type :: event_type
  ev_schema :: string
  ev_table :: string
  ev_columns :: "column list"
  ev_new :: row
  ev_old :: row
  ev_txid :: "32 word"
  ev_label :: string
  ev_color :: string
  ev_message :: string
  ev_command_tag :: string
  ev_object_type :: string
  ev_object_identity :: string

definition zero_event :: event where
  "zero_event = \<lparr>ev_id = 0, ev_time = zero_time, ev_kind = [], ev_lsn = [], ev_type = [],
     ev_schema = [], ev_table = [], ev_columns = [], ev_new = None, ev_old = None, ev_txid = 0,
     ev_label = [], ev_color = [], ev_message = [], ev_command_tag = [], ev_object_type = [],
     ev_object_identity = []\<rparr>"

section \<open>Predicates and constructors\<close>

definition IsMarker :: "event \<Rightarrow> bool" where "IsMarker e \<longleftrightarrow> ev_kind e = KindMarker"
definition IsLog :: "event \<Rightarrow> bool" where "IsLog e \<longleftrightarrow> ev_kind e = KindLog"
definition IsDDL :: "event \<Rightarrow> bool" where "IsDDL e \<longleftrightarrow> ev_kind e = KindDDL"

definition IsDBEvent :: "event \<Rightarrow> bool" where
  "IsDBEvent e \<longleftrightarrow> ev_kind e = [] \<or> ev_kind e = KindEvent"

lemmas kind_preds = IsMarker_def IsLog_def IsDDL_def IsDBEvent_def

text \<open>\<open>time.Now()\<close> is the argument \<open>now\<close>.\<close>

definition NewMarker :: "go_time \<Rightarrow> string \<Rightarrow> string \<Rightarrow> event" where
  "NewMarker now label color =
    (let color = (if color = [] then MarkerColorDefault else color)
     in zero_event\<lparr>ev_time := now, ev_kind := KindMarker, ev_label := label, ev_color := color\<rparr>)"

definition NewLog :: "go_time \<Rightarrow> string \<Rightarrow> event" where
  "NewLog now message = zero_event\<lparr>ev_time := now, ev_kind := KindLog, ev_message := message\<rparr>"

definition NewDDL :: "go_time \<Rightarrow> string \<Rightarrow> string \<Rightarrow> string \<Rightarrow> event" where
  "NewDDL now commandTag objectType identity =
     zero_event\<lparr>ev_time := now, ev_kind := KindDDL, ev_command_tag := commandTag,
       ev_object_type := objectType, ev_object_identity := identity\<rparr>"

definition event_String :: "event \<Rightarrow> string" where
  "event_String e =
    (let ts = ''['' @ fmt_clock (ev_time e) @ ''] '' in
     if ev_kind e = KindMarker then ts @ ''MARKER '' @ ev_label e
     else if ev_kind e = KindLog then ts @ ''LOG '' @ ev_message e
     else if ev_kind e = KindDDL then ts @ ''DDL '' @ ev_command_tag e @ '' '' @ ev_object_identity e
     else ts @ ev_type e @ '' '' @ ev_schema e @ ''.'' @ ev_table e)"

section \<open>Lemmas\<close>

lemma zero_event_fields [simp]:
  "ev_id zero_event = 0" "ev_kind zero_event = []" "ev_table zero_event = []"
  "ev_lsn zero_event = []" "ev_new zero_event = None" "ev_old zero_event = None"
  "ev_label zero_event = []" "ev_columns zero_event = []" "ev_type zero_event = []"
  by (simp_all add: zero_event_def)

lemma constructor_kinds [simp]:
  "IsMarker (NewMarker now l c)" "IsLog (NewLog now m)" "IsDDL (NewDDL now t ty i)"
  by (simp_all add: kind_preds NewMarker_def NewLog_def NewDDL_def Let_def)

lemma NewMarker_fields [simp]:
  "ev_label (NewMarker now l c) = l"
  "ev_color (NewMarker now l c) = (if c = [] then MarkerColorDefault else c)"
  "ev_time (NewMarker now l c) = now"
  by (simp_all add: NewMarker_def Let_def)

lemma NewLog_fields [simp]: "ev_message (NewLog now m) = m" "ev_time (NewLog now m) = now"
  by (simp_all add: NewLog_def)

lemma not_db_event: "IsMarker e \<or> IsLog e \<or> IsDDL e \<Longrightarrow> \<not> IsDBEvent e"
  by (auto simp: kind_preds kind_defs)

lemma not_marker_db [simp]: "IsMarker e \<Longrightarrow> \<not> IsDBEvent e"
  by (simp add: not_db_event)

text \<open>The four kinds exclude each other: an item is classified at most once.\<close>

lemma kinds_disjoint:
  "\<not> (IsMarker e \<and> IsLog e)" "\<not> (IsMarker e \<and> IsDDL e)" "\<not> (IsLog e \<and> IsDDL e)"
  "\<not> (IsDBEvent e \<and> (IsMarker e \<or> IsLog e \<or> IsDDL e))"
  by (auto simp: kind_preds kind_defs)

end
