(* ===== verification/Schema_Cache.thy ===== *)
theory Schema_Cache
  imports Event
begin

text \<open>
  \<open>internal/listener/schema_cache.go\<close>: the column metadata of every relation announced on
  the replication stream, keyed by relation OID. The relation message is a struct of
  pglogrepl; only the fields the code reads are kept.
\<close>

section \<open>Data\<close>

record rel_column =
  rc_flags :: "8 word"
  rc_name :: string
  rc_type :: "32 word"

record relation_msg =
  rel_id :: "32 word"
  rel_namespace :: string
  rel_name :: string
  rel_columns :: "rel_column list"

record table_metadata =
  tm_schema :: string
  tm_table :: string
  tm_columns :: "column list"

type_synonym schema_cache = "(32 word, table_metadata) go_map"

definition oidToTypeName :: "(32 word, string) go_map" where
  "oidToTypeName =
    [(16, ''bool''), (20, ''int8''), (21, ''int2''), (23, ''int4''), (25, ''text''),
     (114, ''json''), (700, ''float4''), (701, ''float8''), (1043, ''varchar''),
     (1082, ''date''), (1114, ''timestamp''), (1184, ''timestamptz''), (1700, ''numeric''),
     (2950, ''uuid''), (3802, ''jsonb'')]"

section \<open>Operations\<close>

definition NewSchemaCache :: schema_cache where
  "NewSchemaCache = []"

definition column_of :: "rel_column \<Rightarrow> column" where
  "column_of rc =
    \<lparr>col_name = rc_name rc,
     col_type = (case map_of oidToTypeName (rc_type rc) of Some n \<Rightarrow> n | None \<Rightarrow> ''unknown''),
     col_is_key = (rc_flags rc = 1)\<rparr>"

definition metadata_of :: "relation_msg \<Rightarrow> table_metadata" where
  "metadata_of rel =
    \<lparr>tm_schema = rel_namespace rel, tm_table = rel_name rel,
     tm_columns = map column_of (rel_columns rel)\<rparr>"

definition cache_Update :: "schema_cache \<Rightarrow> relation_msg \<Rightarrow> schema_cache" where
  "cache_Update c rel = AList.update (rel_id rel) (metadata_of rel) c"

definition cache_Get :: "schema_cache \<Rightarrow> 32 word \<Rightarrow> table_metadata option" where
  "cache_Get c oid = map_of c oid"

section \<open>The interface the decoder uses\<close>

text \<open>
  A store of relation metadata: an update is visible under its own OID at once and leaves
  every other OID alone. It follows that a lookup returns the metadata of the last relation
  message for that OID.
\<close>

definition last_relation :: "relation_msg list \<Rightarrow> 32 word \<Rightarrow> relation_msg option" where
  "last_relation rels oid = find (\<lambda>r. rel_id r = oid) (rev rels)"

locale relation_cache =
  fixes empty :: 'c
    and update :: "'c \<Rightarrow> relation_msg \<Rightarrow> 'c"
    and get :: "'c \<Rightarrow> 32 word \<Rightarrow> table_metadata option"
  assumes get_empty: "get empty oid = None"
    and get_update_same: "get (update c rel) (rel_id rel) = Some (metadata_of rel)"
    and get_update_other: "oid \<noteq> rel_id rel \<Longrightarrow> get (update c rel) oid = get c oid"
begin

lemma get_update: "get (update c rel) oid =
    (if oid = rel_id rel then Some (metadata_of rel) else get c oid)"
  by (simp add: get_update_same get_update_other)

lemma get_replay: "get (foldl update empty rels) oid = map_option metadata_of (last_relation rels oid)"
  by (induction rels rule: rev_induct) (simp_all add: last_relation_def get_empty get_update)

end

interpretation schema_cache: relation_cache NewSchemaCache cache_Update cache_Get
  by unfold_locales (simp_all add: NewSchemaCache_def cache_Update_def cache_Get_def)

lemma cache_Update_wf: "wf_map c \<Longrightarrow> wf_map (cache_Update c rel)"
  by (simp add: cache_Update_def)

lemma length_metadata [simp]: "length (tm_columns (metadata_of rel)) = length (rel_columns rel)"
  by (simp add: metadata_of_def)

text \<open>
  After any sequence of relation messages, looking an OID up in the cache gives the
  schema, table and columns of the last message for that OID, with its column names in
  their order and the key flags as announced; an OID never announced is not found.
\<close>

theorem cache_holds_last_relation:
  "cache_Get (foldl cache_Update NewSchemaCache rels) oid =
     map_option metadata_of (last_relation rels oid)"
  by (rule schema_cache.get_replay)

end
