(* ===== verification/Decoder.thy ===== *)
theory Decoder
  imports Schema_Cache
begin

text \<open>
  \<open>internal/listener/decoder.go\<close>: from pgoutput messages to feed events. The message types
  are those of pglogrepl, with the fields the decoder reads. The process-wide counter of
  event IDs is an argument and a result; \<open>time.Now()\<close> is the argument \<open>now\<close>.
\<close>

section \<open>Messages\<close>

text \<open>The data-type byte of a tuple column: null, unchanged TOAST, text, or another one.\<close>

datatype tuple_kind = TupleNull | TupleToast | TupleText | TupleOther

record tuple_column =
  tc_kind :: tuple_kind
  tc_data :: string

type_synonym tuple_data = "tuple_column list option"

datatype message =
    InsertMessage "32 word" tuple_data
  | UpdateMessage "32 word" tuple_data tuple_data \<comment> \<open>relation, old tuple, new tuple\<close>
  | DeleteMessage "32 word" tuple_data
  | BeginMessage
  | CommitMessage
  | RelationMessage relation_msg
  | TypeMessage
  | OtherMessage

datatype decode_error =
    UnknownRelationInsert "32 word"
  | UnknownRelationUpdate "32 word"
  | UnknownRelationDelete "32 word"

section \<open>Decoding\<close>

definition cell_value :: "tuple_column \<Rightarrow> any_value option" where
  "cell_value c = (case tc_kind c of
      TupleNull \<Rightarrow> Some NilValue
    | TupleToast \<Rightarrow> Some (StrValue ''[unchanged]'')
    | TupleText \<Rightarrow> Some (StrValue (tc_data c))
    | TupleOther \<Rightarrow> None)"

text \<open>The loop over the tuple's columns, which stops where the metadata has no more columns.\<close>

fun decode_cells ::
  "tuple_column list \<Rightarrow> column list \<Rightarrow> (string, any_value) go_map \<Rightarrow> (string, any_value) go_map" where
  "decode_cells [] cols m = m"
| "decode_cells (c # cs) [] m = m"
| "decode_cells (c # cs) (k # ks) m =
    decode_cells cs ks
      (case cell_value c of None \<Rightarrow> m | Some v \<Rightarrow> AList.update (col_name k) v m)"

definition decodeTuple :: "tuple_data \<Rightarrow> column list \<Rightarrow> row" where
  "decodeTuple tuple cols = map_option (\<lambda>cells. decode_cells cells cols []) tuple"

definition newEvent ::
  "go_time \<Rightarrow> 64 word \<Rightarrow> event_type \<Rightarrow> table_metadata \<Rightarrow> row \<Rightarrow> row \<Rightarrow> event \<times> 64 word" where
  "newEvent now counter t meta newVals oldVals =
    (let i = counter + 1 in
     (zero_event\<lparr>ev_id := i, ev_time := now\<lparr>utc_off := 0\<rparr>, ev_type := t,
        ev_schema := tm_schema meta, ev_table := tm_table meta, ev_columns := tm_columns meta,
        ev_new := newVals, ev_old := oldVals\<rparr>, i))"

definition decodeInsert ::
  "go_time \<Rightarrow> 64 word \<Rightarrow> 32 word \<Rightarrow> tuple_data \<Rightarrow> schema_cache \<Rightarrow> (decode_error + event) \<times> 64 word" where
  "decodeInsert now counter rel tuple cache =
    (case cache_Get cache rel of
       None \<Rightarrow> (Inl (UnknownRelationInsert rel), counter)
     | Some meta \<Rightarrow>
         (let newVals = decodeTuple tuple (tm_columns meta);
              (e, counter') = newEvent now counter EventInsert meta newVals None
          in (Inr e, counter')))"

definition decodeUpdate ::
  "go_time \<Rightarrow> 64 word \<Rightarrow> 32 word \<Rightarrow> tuple_data \<Rightarrow> tuple_data \<Rightarrow> schema_cache \<Rightarrow>
     (decode_error + event) \<times> 64 word" where
  "decodeUpdate now counter rel oldTuple newTuple cache =
    (case cache_Get cache rel of
       None \<Rightarrow> (Inl (UnknownRelationUpdate rel), counter)
     | Some meta \<Rightarrow>
         (let newVals = decodeTuple newTuple (tm_columns meta);
              oldVals = (if oldTuple \<noteq> None then decodeTuple oldTuple (tm_columns meta) else None);
              (e, counter') = newEvent now counter EventUpdate meta newVals oldVals
          in (Inr e, counter')))"

definition decodeDelete ::
  "go_time \<Rightarrow> 64 word \<Rightarrow> 32 word \<Rightarrow> tuple_data \<Rightarrow> schema_cache \<Rightarrow> (decode_error + event) \<times> 64 word" where
  "decodeDelete now counter rel oldTuple cache =
    (case cache_Get cache rel of
       None \<Rightarrow> (Inl (UnknownRelationDelete rel), counter)
     | Some meta \<Rightarrow>
         (let oldVals = decodeTuple oldTuple (tm_columns meta);
              (e, counter') = newEvent now counter EventDelete meta None oldVals
          in (Inr e, counter')))"

text \<open>A nil event with a nil error, the result for other messages, is \<open>Inr None\<close>.\<close>

definition DecodeMessage ::
  "go_time \<Rightarrow> 64 word \<Rightarrow> message \<Rightarrow> schema_cache \<Rightarrow> (decode_error + event option) \<times> 64 word" where
  "DecodeMessage now counter msg cache =
    (case msg of
       InsertMessage rel tuple \<Rightarrow>
         apfst (map_sum id Some) (decodeInsert now counter rel tuple cache)
     | UpdateMessage rel old_t new_t \<Rightarrow>
         apfst (map_sum id Some) (decodeUpdate now counter rel old_t new_t cache)
     | DeleteMessage rel old_t \<Rightarrow>
         apfst (map_sum id Some) (decodeDelete now counter rel old_t cache)
     | _ \<Rightarrow> (Inr None, counter))"

section \<open>Tuples\<close>

text \<open>The tuple as a map from column names to cells, position by position.\<close>

definition cells_by_name :: "column list \<Rightarrow> tuple_column list \<Rightarrow> string \<rightharpoonup> tuple_column" where
  "cells_by_name cols cells = map_of (zip (map col_name cols) cells)"

lemma cells_by_name_Cons:
  "cells_by_name (k # ks) (c # cs) = (cells_by_name ks cs)(col_name k \<mapsto> c)"
  by (simp add: cells_by_name_def)

lemma cells_by_name_notin: "k \<notin> col_name ` set cols \<Longrightarrow> cells_by_name cols cells k = None"
  by (auto simp: cells_by_name_def dest: set_zip_leftD)

lemma decode_cells_lookup:
  "distinct (map col_name cols) \<Longrightarrow>
   map_of (decode_cells cells cols m) k =
     (case Option.bind (cells_by_name cols cells k) cell_value of None \<Rightarrow> map_of m k | Some v \<Rightarrow> Some v)"
proof (induction cells cols m rule: decode_cells.induct)
  case (3 c cs x xs m)
  show ?case
  proof (cases "k = col_name x")
    case True
    with "3.prems" have "cells_by_name xs cs k = None" by (simp add: cells_by_name_notin)
    with 3 True show ?thesis by (simp add: cells_by_name_Cons split: option.splits)
  next
    case False
    with 3 show ?thesis by (simp add: cells_by_name_Cons split: option.splits)
  qed
qed (simp_all add: cells_by_name_def)

lemma decode_cells_wf: "wf_map m \<Longrightarrow> wf_map (decode_cells cells cols m)"
  by (induction cells cols m rule: decode_cells.induct) (auto split: option.splits)

section \<open>Events\<close>

lemma newEvent_fields [simp]:
  "newEvent now n t meta nv ov = (e, n') \<Longrightarrow> n' = n + 1 \<and> ev_id e = n + 1 \<and> ev_type e = t
     \<and> ev_schema e = tm_schema meta \<and> ev_table e = tm_table meta \<and> ev_columns e = tm_columns meta
     \<and> ev_new e = nv \<and> ev_old e = ov \<and> ev_kind e = [] \<and> ev_lsn e = []"
  by (auto simp: newEvent_def Let_def)

text \<open>The relation, event type, new and old tuple of a message that changes data.\<close>

fun dml_parts :: "message \<Rightarrow> (32 word \<times> event_type \<times> tuple_data \<times> tuple_data) option" where
  "dml_parts (InsertMessage rel t) = Some (rel, EventInsert, t, None)"
| "dml_parts (UpdateMessage rel old_t new_t) = Some (rel, EventUpdate, new_t, old_t)"
| "dml_parts (DeleteMessage rel t) = Some (rel, EventDelete, None, t)"
| "dml_parts _ = None"

lemma decodeTuple_None [simp]: "decodeTuple None cols = None"
  by (simp add: decodeTuple_def)

lemma DecodeMessage_event:
  "DecodeMessage now n msg cache = (Inr (Some e), n') \<longleftrightarrow>
     (\<exists>rel t new_t old_t meta. dml_parts msg = Some (rel, t, new_t, old_t)
        \<and> cache_Get cache rel = Some meta
        \<and> newEvent now n t meta (decodeTuple new_t (tm_columns meta))
             (decodeTuple old_t (tm_columns meta)) = (e, n'))"
  by (cases msg) (auto simp: DecodeMessage_def decodeInsert_def decodeUpdate_def decodeDelete_def
      Let_def map_sum_def apfst_def map_prod_def split: option.splits prod.splits sum.splits)

lemma DecodeMessage_counter:
  "DecodeMessage now n msg cache = (r, n') \<Longrightarrow>
     n' = (case r of Inr (Some e) \<Rightarrow> n + 1 | _ \<Rightarrow> n)"
  by (cases msg) (auto simp: DecodeMessage_def decodeInsert_def decodeUpdate_def decodeDelete_def
      Let_def newEvent_def split: option.splits sum.splits)

lemma DecodeMessage_error:
  "DecodeMessage now n msg cache = (Inl err, n') \<Longrightarrow>
     \<exists>rel t new_t old_t. dml_parts msg = Some (rel, t, new_t, old_t) \<and> cache_Get cache rel = None"
  by (cases msg) (auto simp: DecodeMessage_def decodeInsert_def decodeUpdate_def decodeDelete_def
      Let_def newEvent_def split: option.splits)

section \<open>Properties\<close>

text \<open>
  Decoding a tuple against metadata with distinct column names gives each name the value
  of the cell in its position (null becomes nil, unchanged TOAST the text [unchanged], text
  itself, any other kind nothing). Cells beyond the metadata and names beyond the tuple are
  absent, and no name is invented.
\<close>

theorem decodeTuple_by_position:
  assumes "distinct (map col_name cols)"
  shows "row_get (decodeTuple (Some cells) cols) k = Option.bind (cells_by_name cols cells k) cell_value"
  using decode_cells_lookup [OF assms, of cells "[]" k]
  by (simp add: decodeTuple_def row_get_def split: option.splits)

theorem decodeTuple_by_position_witness:
  "row_get (decodeTuple (Some [\<lparr>tc_kind = TupleText, tc_data = ''7''\<rparr>, \<lparr>tc_kind = TupleNull, tc_data = []\<rparr>,
        \<lparr>tc_kind = TupleText, tc_data = ''x''\<rparr>])
      [\<lparr>col_name = ''id'', col_type = ''int4'', col_is_key = True\<rparr>,
       \<lparr>col_name = ''note'', col_type = ''text'', col_is_key = False\<rparr>]) ''note'' = Some NilValue"
  by (subst decodeTuple_by_position) (simp_all add: cells_by_name_def cell_value_def)

end
