(* ===== verification/Go_Chan.thy ===== *)
theory Go_Chan
  imports Prelude
begin

text \<open>
  Buffered Go channels: the waiting values, the capacity given to \<open>make\<close> and whether the
  channel was closed. The source sends only in a \<open>select\<close> with a \<open>default\<close> branch, so a
  send either enqueues or drops; a receive takes the oldest value, blocks on an empty open
  channel, and reports the end of an empty closed one.
\<close>

record 'a chan =
  buf :: "'a list"
  ccap :: nat
  closed :: bool

definition make_chan :: "nat \<Rightarrow> 'a chan" where
  "make_chan n = \<lparr>buf = [], ccap = n, closed = False\<rparr>"

text \<open>\<open>select { case ch <- x: default: }\<close>, with whether the value was sent.\<close>

definition try_send :: "'a \<Rightarrow> 'a chan \<Rightarrow> go_panic + (bool \<times> 'a chan)" where
  "try_send x c =
    (if closed c then Inl SendOnClosedChannel
     else if length (buf c) < ccap c then Inr (True, c\<lparr>buf := buf c @ [x]\<rparr>)
     else Inr (False, c))"

definition close_chan :: "'a chan \<Rightarrow> go_panic + 'a chan" where
  "close_chan c = (if closed c then Inl CloseOfClosedChannel else Inr (c\<lparr>closed := True\<rparr>))"

datatype 'a received = Got 'a | EndOfChan | WouldBlock

definition recv :: "'a chan \<Rightarrow> 'a received \<times> 'a chan" where
  "recv c = (case buf c of x # xs \<Rightarrow> (Got x, c\<lparr>buf := xs\<rparr>)
     | [] \<Rightarrow> (if closed c then EndOfChan else WouldBlock, c))"

definition chan_ok :: "'a chan \<Rightarrow> bool" where
  "chan_ok c \<longleftrightarrow> length (buf c) \<le> ccap c"

lemma make_chan_simps [chan_simps]:
  "buf (make_chan n) = []" "ccap (make_chan n) = n" "\<not> closed (make_chan n)"
  by (simp_all add: make_chan_def)

lemma try_send_open:
  "\<not> closed c \<Longrightarrow> \<exists>b c'. try_send x c = Inr (b, c') \<and> \<not> closed c' \<and> ccap c' = ccap c
     \<and> buf c' = buf c @ (if b then [x] else []) \<and> (b \<longleftrightarrow> length (buf c) < ccap c)"
  by (auto simp: try_send_def)

lemma try_send_chan_ok: "chan_ok c \<Longrightarrow> try_send x c = Inr (b, c') \<Longrightarrow> chan_ok c'"
  by (auto simp: try_send_def chan_ok_def split: if_splits)

lemma recv_chan_ok: "chan_ok c \<Longrightarrow> chan_ok (snd (recv c))"
  by (auto simp: recv_def chan_ok_def split: list.splits)

lemma make_chan_ok [simp]: "chan_ok (make_chan n)"
  by (simp add: chan_ok_def chan_simps)

text \<open>Any number of sends with no receive in between keeps the oldest values that fit.\<close>

fun send_all :: "'a list \<Rightarrow> 'a chan \<Rightarrow> go_panic + 'a chan" where
  "send_all [] c = Inr c"
| "send_all (x # xs) c = and_then (try_send x c) (\<lambda>p. send_all xs (snd p))"

lemma send_all_open:
  "\<not> closed c \<Longrightarrow> chan_ok c \<Longrightarrow>
     \<exists>c'. send_all xs c = Inr c' \<and> \<not> closed c' \<and> ccap c' = ccap c
        \<and> buf c' = buf c @ take (ccap c - length (buf c)) xs"
proof (induction xs arbitrary: c)
  case Nil
  then show ?case by simp
next
  case (Cons x xs)
  obtain b c1 where c1: "try_send x c = Inr (b, c1)" "\<not> closed c1" "ccap c1 = ccap c"
      "buf c1 = buf c @ (if b then [x] else [])" "b \<longleftrightarrow> length (buf c) < ccap c"
    using try_send_open [OF Cons.prems(1)] by blast
  have ok: "chan_ok c1" using Cons.prems(2) c1(1) by (rule try_send_chan_ok)
  obtain c2 where c2: "send_all xs c1 = Inr c2" "\<not> closed c2" "ccap c2 = ccap c1"
      "buf c2 = buf c1 @ take (ccap c1 - length (buf c1)) xs"
    using Cons.IH [OF c1(2) ok] by blast
  have "take (ccap c - length (buf c)) (x # xs)
      = (if b then [x] else []) @ take (ccap c1 - length (buf c1)) xs"
    using c1(3-5) by (cases b) (auto simp: take_Cons')
  with c1 c2 show ?case by simp
qed

end
