(* ===== verification/Listener.thy ===== *)
theory Listener
  imports Decoder Listener_Errors Go_Chan
begin

text \<open>
  \<open>internal/listener/listener.go\<close>: the logical-replication consumer. The wire parsers and
  byte codes of pglogrepl are the parameter record \<open>pglogrepl\<close>. One turn of \<open>readLoop\<close> is
  a function of the loop's state and of what the environment shows it in that turn: clock
  readings, the outcome of sends, the message received and what the forwarder has taken from
  the output channel since the last turn.
\<close>

section \<open>Environment\<close>

record pglogrepl =
  PrimaryKeepaliveMessageByteID :: char
  XLogDataByteID :: char
  ParsePrimaryKeepaliveMessage :: "string \<Rightarrow> string + bool" \<comment> \<open>whether a reply is requested\<close>
  ParseXLogData :: "string \<Rightarrow> string + (64 word \<times> string)" \<comment> \<open>WAL start, WAL data\<close>
  Parse :: "string \<Rightarrow> string + message"
  LSN_String :: "64 word \<Rightarrow> string"

datatype backend_message = CopyData string | ErrorResponse string | OtherBackend

datatype recv_result = Received backend_message | ReceiveTimeout | ReceiveFailed string

record turn =
  t_check :: int                  \<comment> \<open>the clock at the test of \<open>nextAck\<close>\<close>
  t_now1 :: int                   \<comment> \<open>the clock after the periodic status update\<close>
  t_now2 :: int                   \<comment> \<open>the clock after a later status update of the turn\<close>
  t_ack_err :: "string option"    \<comment> \<open>outcome of the periodic status update\<close>
  t_reply_err :: "string option"  \<comment> \<open>outcome of a later one\<close>
  t_recv :: recv_result
  t_ctx_done :: bool              \<comment> \<open>\<open>ctx.Err() != nil\<close>\<close>
  t_taken :: nat                  \<comment> \<open>items the forwarder took from the channel before the turn\<close>
  t_stamp :: go_time

section \<open>State\<close>

text \<open>
  The local variables of the loop, the cache and the counter it shares with the decoder,
  the output channel, and two logs of its effects: the positions sent to the server and the
  events put into the channel.
\<close>

record loop_state =
  clientXLogPos :: "64 word"
  nextAck :: int
  l_cache :: schema_cache
  l_counter :: "64 word"
  l_out :: "event chan"
  sent_acks :: "64 word list"
  published :: "event list"

datatype loop_error =
    SendStatusError string
  | ReceiveError string
  | KeepaliveError string
  | XLogError string
  | ServerError string

datatype turn_result =
    Continue loop_state
  | Return "loop_error option" loop_state
  | Panicked go_panic

definition ackInterval :: int where
  "ackInterval = 5 * ns_per_s"

section \<open>Operations\<close>

definition sendStandbyStatus :: "string option \<Rightarrow> loop_state \<Rightarrow> loop_error + loop_state" where
  "sendStandbyStatus err st =
    (case err of Some m \<Rightarrow> Inl (SendStatusError m)
     | None \<Rightarrow> Inr (st\<lparr>sent_acks := sent_acks st @ [clientXLogPos st]\<rparr>))"

definition advance :: "64 word \<Rightarrow> loop_state \<Rightarrow> loop_state" where
  "advance walStart st =
    (if walStart > clientXLogPos st then st\<lparr>clientXLogPos := walStart\<rparr> else st)"

text \<open>A parsed logical message: cache, decoder, output channel, position, in the code's order.\<close>

definition handle_logical ::
  "pglogrepl \<Rightarrow> go_time \<Rightarrow> 64 word \<Rightarrow> message \<Rightarrow> loop_state \<Rightarrow> go_panic + loop_state" where
  "handle_logical P stamp walStart msg st =
    (let cache = (case msg of RelationMessage rel \<Rightarrow> cache_Update (l_cache st) rel | _ \<Rightarrow> l_cache st);
         (r, n) = DecodeMessage stamp (l_counter st) msg cache;
         st = st\<lparr>l_cache := cache, l_counter := n\<rparr>
     in case r of
          Inl _ \<Rightarrow> Inr st
        | Inr None \<Rightarrow> Inr (advance walStart st)
        | Inr (Some e) \<Rightarrow>
            (let e = e\<lparr>ev_lsn := LSN_String P walStart\<rparr> in
             and_then (try_send e (l_out st)) (\<lambda>p.
               Inr (advance walStart
                 (st\<lparr>l_out := snd p,
                     published := (if fst p then published st @ [e] else published st)\<rparr>)))))"

definition handle_copy_data :: "pglogrepl \<Rightarrow> turn \<Rightarrow> string \<Rightarrow> loop_state \<Rightarrow> turn_result" where
  "handle_copy_data P t data st =
    (case data of
       [] \<Rightarrow> Panicked IndexOutOfRange
     | b # rest \<Rightarrow>
         if b = PrimaryKeepaliveMessageByteID P then
           (case ParsePrimaryKeepaliveMessage P rest of
              Inl m \<Rightarrow> Return (Some (KeepaliveError m)) st
            | Inr replyRequested \<Rightarrow>
                if replyRequested then
                  (case sendStandbyStatus (t_reply_err t) st of
                     Inl err \<Rightarrow> Return (Some err) st
                   | Inr st \<Rightarrow> Continue (st\<lparr>nextAck := t_now2 t + ackInterval\<rparr>))
                else Continue st)
         else if b \<noteq> XLogDataByteID P then Continue st
         else
           (case ParseXLogData P rest of
              Inl m \<Rightarrow> Return (Some (XLogError m)) st
            | Inr (walStart, walData) \<Rightarrow>
                (case Parse P walData of
                   Inl m \<Rightarrow> Continue st
                 | Inr msg \<Rightarrow>
                     (case handle_logical P (t_stamp t) walStart msg st of
                        Inl p \<Rightarrow> Panicked p
                      | Inr st \<Rightarrow> Continue st))))"

definition handle_recv :: "pglogrepl \<Rightarrow> turn \<Rightarrow> loop_state \<Rightarrow> turn_result" where
  "handle_recv P t st =
    (case t_recv t of
       ReceiveTimeout \<Rightarrow>
         (case sendStandbyStatus (t_reply_err t) st of
            Inl err \<Rightarrow> Return (Some err) st
          | Inr st \<Rightarrow> Continue (st\<lparr>nextAck := t_now2 t + ackInterval\<rparr>))
     | ReceiveFailed m \<Rightarrow> if t_ctx_done t then Return None st else Return (Some (ReceiveError m)) st
     | Received (CopyData data) \<Rightarrow> handle_copy_data P t data st
     | Received (ErrorResponse m) \<Rightarrow> Return (Some (ServerError (friendly_text m))) st
     | Received OtherBackend \<Rightarrow> Continue st)"

definition take_out :: "nat \<Rightarrow> loop_state \<Rightarrow> loop_state" where
  "take_out n st = st\<lparr>l_out := (l_out st)\<lparr>buf := drop n (buf (l_out st))\<rparr>\<rparr>"

definition loop_turn :: "pglogrepl \<Rightarrow> turn \<Rightarrow> loop_state \<Rightarrow> turn_result" where
  "loop_turn P t st0 =
    (let st = take_out (t_taken t) st0 in
     if t_check t > nextAck st then
       (case sendStandbyStatus (t_ack_err t) st of
          Inl err \<Rightarrow> Return (Some err) st
        | Inr st \<Rightarrow> handle_recv P t (st\<lparr>nextAck := t_now1 t + ackInterval\<rparr>))
     else handle_recv P t st)"

text \<open>The loop over the turns the environment offers; the end of the list is a loop still running.\<close>

fun readLoop_from :: "pglogrepl \<Rightarrow> turn list \<Rightarrow> loop_state \<Rightarrow> turn_result" where
  "readLoop_from P [] st = Continue st"
| "readLoop_from P (t # ts) st =
    (case loop_turn P t st of Continue st' \<Rightarrow> readLoop_from P ts st' | r \<Rightarrow> r)"

definition readLoop :: "pglogrepl \<Rightarrow> 64 word \<Rightarrow> int \<Rightarrow> 64 word \<Rightarrow> event chan \<Rightarrow> turn list \<Rightarrow> turn_result" where
  "readLoop P startLSN now counter out ts =
    readLoop_from P ts
      \<lparr>clientXLogPos = startLSN, nextAck = now + ackInterval, l_cache = NewSchemaCache,
       l_counter = counter, l_out = out, sent_acks = [], published = []\<rparr>"

section \<open>One turn\<close>

text \<open>
  What every step of the loop guarantees, as a relation between the state before and after:
  the position only grows, acknowledgements are appended at the positions passed, events are
  appended with fresh identifiers in order, and the channel stays open and within bounds.
\<close>

definition ids_from :: "64 word \<Rightarrow> nat \<Rightarrow> 64 word list" where
  "ids_from n k = map (\<lambda>i. n + of_nat (Suc i)) [0..<k]"

definition pos_rel :: "64 word set \<Rightarrow> loop_state \<Rightarrow> loop_state \<Rightarrow> bool" where
  "pos_rel W st st' \<longleftrightarrow> clientXLogPos st \<le> clientXLogPos st'
     \<and> clientXLogPos st' \<in> insert (clientXLogPos st) W"

definition ack_rel :: "64 word set \<Rightarrow> loop_state \<Rightarrow> loop_state \<Rightarrow> bool" where
  "ack_rel W st st' \<longleftrightarrow> (\<exists>acks. sent_acks st' = sent_acks st @ acks \<and> sorted acks
     \<and> (\<forall>a \<in> set acks. clientXLogPos st \<le> a \<and> a \<le> clientXLogPos st' \<and> a \<in> insert (clientXLogPos st) W))"

definition pub_rel :: "loop_state \<Rightarrow> loop_state \<Rightarrow> bool" where
  "pub_rel st st' \<longleftrightarrow> (\<exists>evs k. published st' = published st @ evs
     \<and> l_counter st' = l_counter st + of_nat k
     \<and> subseq (map ev_id evs) (ids_from (l_counter st) k))"

definition loop_rel :: "64 word set \<Rightarrow> loop_state \<Rightarrow> loop_state \<Rightarrow> bool" where
  "loop_rel W st st' \<longleftrightarrow> pos_rel W st st' \<and> ack_rel W st st' \<and> pub_rel st st'"

lemma ids_from_0 [simp]: "ids_from n 0 = []"
  by (simp add: ids_from_def)

lemma ids_from_1 [simp]: "ids_from n (Suc 0) = [n + 1]"
  by (simp add: ids_from_def)

lemma ids_from_add: "ids_from n (j + k) = ids_from n j @ ids_from (n + of_nat j) k"
proof -
  have "map (\<lambda>i. n + of_nat (Suc i)) [j..<j + k] = map (\<lambda>i. n + of_nat j + of_nat (Suc i)) [0..<k]"
    by (rule nth_equalityI) (simp_all add: algebra_simps)
  then show ?thesis by (simp add: ids_from_def upt_add_eq_append [of 0 j k])
qed

lemma pub_rel_refl: "published st' = published st \<Longrightarrow> l_counter st' = l_counter st \<Longrightarrow> pub_rel st st'"
  unfolding pub_rel_def by (intro exI [of _ "[]"] exI [of _ "0::nat"]) simp

lemma pub_rel_trans:
  assumes "pub_rel st st'" "pub_rel st' st''"
  shows "pub_rel st st''"
proof -
  obtain e1 k1 where e1: "published st' = published st @ e1" "l_counter st' = l_counter st + of_nat k1"
      "subseq (map ev_id e1) (ids_from (l_counter st) k1)"
    using assms(1) by (auto simp: pub_rel_def)
  obtain e2 k2 where e2: "published st'' = published st' @ e2" "l_counter st'' = l_counter st' + of_nat k2"
      "subseq (map ev_id e2) (ids_from (l_counter st') k2)"
    using assms(2) by (auto simp: pub_rel_def)
  have "subseq (map ev_id (e1 @ e2)) (ids_from (l_counter st) (k1 + k2))"
    using e1 e2(3) by (simp add: ids_from_add list_emb_append_mono)
  then show ?thesis
    unfolding pub_rel_def using e1 e2 by (intro exI [of _ "e1 @ e2"] exI [of _ "k1 + k2"]) simp
qed

lemma ack_rel_trans:
  assumes "ack_rel W st st'" "ack_rel W st' st''" "pos_rel W st st'" "pos_rel W st' st''"
  shows "ack_rel W st st''"
proof -
  obtain a1 where a1: "sent_acks st' = sent_acks st @ a1" "sorted a1"
      "\<forall>a \<in> set a1. clientXLogPos st \<le> a \<and> a \<le> clientXLogPos st' \<and> a \<in> insert (clientXLogPos st) W"
    using assms(1) unfolding ack_rel_def by blast
  obtain a2 where a2: "sent_acks st'' = sent_acks st' @ a2" "sorted a2"
      "\<forall>a \<in> set a2. clientXLogPos st' \<le> a \<and> a \<le> clientXLogPos st'' \<and> a \<in> insert (clientXLogPos st') W"
    using assms(2) unfolding ack_rel_def by blast
  have pos: "clientXLogPos st \<le> clientXLogPos st'" "clientXLogPos st' \<le> clientXLogPos st''"
      "clientXLogPos st' \<in> insert (clientXLogPos st) W"
    using assms(3,4) by (auto simp: pos_rel_def)
  have "sorted (a1 @ a2)" using a1 a2 by (force simp: sorted_append)
  moreover have "\<forall>a \<in> set (a1 @ a2). clientXLogPos st \<le> a \<and> a \<le> clientXLogPos st''
      \<and> a \<in> insert (clientXLogPos st) W"
    using a1(3) a2(3) pos by force
  ultimately show ?thesis
    unfolding ack_rel_def using a1(1) a2(1) by (intro exI [of _ "a1 @ a2"]) simp
qed

lemma ack_rel_refl: "sent_acks st' = sent_acks st \<Longrightarrow> ack_rel W st st'"
  by (simp add: ack_rel_def)

lemma pos_rel_trans: "pos_rel W st st' \<Longrightarrow> pos_rel W st' st'' \<Longrightarrow> pos_rel W st st''"
  by (auto simp: pos_rel_def)

lemma loop_rel_trans: "loop_rel W st st' \<Longrightarrow> loop_rel W st' st'' \<Longrightarrow> loop_rel W st st''"
  unfolding loop_rel_def by (blast intro: pos_rel_trans ack_rel_trans pub_rel_trans)

lemma loop_rel_quiet:
  "clientXLogPos st' = clientXLogPos st \<Longrightarrow> sent_acks st' = sent_acks st \<Longrightarrow>
   published st' = published st \<Longrightarrow> l_counter st' = l_counter st \<Longrightarrow> loop_rel W st st'"
  by (simp add: loop_rel_def pos_rel_def ack_rel_refl pub_rel_refl)

lemma loop_rel_send:
  "sendStandbyStatus err st = Inr st' \<Longrightarrow> loop_rel W st (st'\<lparr>nextAck := n\<rparr>)"
  by (auto simp: sendStandbyStatus_def loop_rel_def pos_rel_def ack_rel_def pub_rel_def
      intro!: exI [of _ "0::nat"] split: option.splits)

lemma advance_fields [simp]:
  "sent_acks (advance w st) = sent_acks st" "published (advance w st) = published st"
  "l_counter (advance w st) = l_counter st" "l_cache (advance w st) = l_cache st"
  "l_out (advance w st) = l_out st" "nextAck (advance w st) = nextAck st"
  by (simp_all add: advance_def)

lemma advance_pos: "clientXLogPos (advance w st) = max w (clientXLogPos st)"
  by (auto simp: advance_def max_def)

lemma try_send_result:
  "try_send e c = Inr (b, c') \<Longrightarrow> \<not> closed c \<and> \<not> closed c' \<and> ccap c' = ccap c
     \<and> buf c' = buf c @ (if b then [e] else []) \<and> (b \<longleftrightarrow> length (buf c) < ccap c)"
  by (auto simp: try_send_def split: if_splits)

lemma handle_logical_rel:
  assumes "handle_logical P stamp w msg st = Inr st'"
  shows "loop_rel {w} st st'"
proof -
  let ?c = "case msg of RelationMessage rel \<Rightarrow> cache_Update (l_cache st) rel | _ \<Rightarrow> l_cache st"
  obtain r n where d: "DecodeMessage stamp (l_counter st) msg ?c = (r, n)" by fastforce
  note cnt = DecodeMessage_counter [OF d]
  let ?st = "st\<lparr>l_cache := ?c, l_counter := n\<rparr>"
  show ?thesis
  proof (cases r)
    case (Inl err)
    with assms d cnt show ?thesis by (auto simp: handle_logical_def Let_def intro: loop_rel_quiet)
  next
    case (Inr o_e)
    show ?thesis
    proof (cases o_e)
      case None
      with assms d cnt Inr have "st' = advance w ?st" "n = l_counter st"
        by (auto simp: handle_logical_def Let_def)
      then show ?thesis
        by (auto simp: loop_rel_def pos_rel_def advance_pos max_def intro: ack_rel_refl pub_rel_refl)
    next
      case (Some e)
      let ?e = "e\<lparr>ev_lsn := LSN_String P w\<rparr>"
      from assms d Inr Some obtain b c where s: "try_send ?e (l_out st) = Inr (b, c)"
        and st': "st' = advance w (?st\<lparr>l_out := c, published := (if b then published st @ [?e] else published st)\<rparr>)"
        by (auto simp: handle_logical_def Let_def and_then_Inr_iff)
      have n: "n = l_counter st + 1" and i: "ev_id e = l_counter st + 1"
        using d cnt Inr Some newEvent_fields by (auto simp: DecodeMessage_event)
      have "pub_rel st st'"
        unfolding pub_rel_def
        by (intro exI [of _ "if b then [?e] else []"] exI [of _ "1::nat"]) (simp add: st' n i)
      moreover have "pos_rel {w} st st'" "ack_rel {w} st st'"
        by (auto simp: st' pos_rel_def advance_pos max_def intro: ack_rel_refl)
      ultimately show ?thesis by (simp add: loop_rel_def)
    qed
  qed
qed

section \<open>Runs\<close>

fun result_state :: "turn_result \<Rightarrow> loop_state option" where
  "result_state (Continue st) = Some st"
| "result_state (Return err st) = Some st"
| "result_state (Panicked p) = None"

text \<open>The WAL start of the message a turn receives, if it is a well-formed XLogData message.\<close>

definition wal_start_of :: "pglogrepl \<Rightarrow> turn \<Rightarrow> 64 word set" where
  "wal_start_of P t =
    (case t_recv t of
       Received (CopyData (b # rest)) \<Rightarrow>
         if b = PrimaryKeepaliveMessageByteID P \<or> b \<noteq> XLogDataByteID P then {}
         else (case ParseXLogData P rest of Inl _ \<Rightarrow> {} | Inr (w, _) \<Rightarrow> {w})
     | _ \<Rightarrow> {})"

lemma loop_rel_mono: "loop_rel W st st' \<Longrightarrow> W \<subseteq> W' \<Longrightarrow> loop_rel W' st st'"
  unfolding loop_rel_def pos_rel_def ack_rel_def by blast

lemma handle_copy_data_rel:
  assumes "t_recv t = Received (CopyData data)" "result_state (handle_copy_data P t data st) = Some st'"
  shows "loop_rel (wal_start_of P t) st st'"
proof (cases data)
  case Nil
  with assms(2) show ?thesis by (simp add: handle_copy_data_def)
next
  case (Cons b rest)
  show ?thesis
  proof (cases "b = PrimaryKeepaliveMessageByteID P \<or> b \<noteq> XLogDataByteID P")
    case True
    with assms Cons show ?thesis
      by (auto simp: handle_copy_data_def intro: loop_rel_quiet loop_rel_send split: sum.splits if_splits)
  next
    case False
    with assms Cons show ?thesis
      by (auto simp: handle_copy_data_def wal_start_of_def intro: loop_rel_quiet handle_logical_rel
          split: sum.splits)
  qed
qed

lemma handle_recv_rel:
  assumes "result_state (handle_recv P t st) = Some st'"
  shows "loop_rel (wal_start_of P t) st st'"
  using assms
  by (auto simp: handle_recv_def intro: loop_rel_quiet loop_rel_send handle_copy_data_rel
      split: recv_result.splits backend_message.splits sum.splits if_splits)

lemma take_out_rel: "loop_rel W st (take_out n st)"
  by (rule loop_rel_quiet) (simp_all add: take_out_def)

lemma loop_turn_rel:
  assumes "result_state (loop_turn P t st) = Some st'"
  shows "loop_rel (wal_start_of P t) st st'"
proof -
  let ?s = "take_out (t_taken t) st"
  have r0: "loop_rel (wal_start_of P t) st ?s" by (rule take_out_rel)
  show ?thesis
  proof (cases "t_check t > nextAck ?s")
    case False
    with assms have "result_state (handle_recv P t ?s) = Some st'"
      by (simp add: loop_turn_def Let_def)
    with r0 handle_recv_rel show ?thesis by (blast intro: loop_rel_trans)
  next
    case True
    show ?thesis
    proof (cases "sendStandbyStatus (t_ack_err t) ?s")
      case (Inl err)
      with assms True r0 show ?thesis by (simp add: loop_turn_def Let_def)
    next
      case (Inr s1)
      let ?s1 = "s1\<lparr>nextAck := t_now1 t + ackInterval\<rparr>"
      from assms True Inr have "result_state (handle_recv P t ?s1) = Some st'"
        by (simp add: loop_turn_def Let_def)
      with r0 loop_rel_send [OF Inr] handle_recv_rel show ?thesis by (blast intro: loop_rel_trans)
    qed
  qed
qed

lemma readLoop_from_rel:
  "result_state (readLoop_from P ts st) = Some st' \<Longrightarrow> loop_rel (\<Union>t \<in> set ts. wal_start_of P t) st st'"
proof (induction ts arbitrary: st)
  case Nil
  then show ?case by (simp add: loop_rel_quiet)
next
  case (Cons t ts)
  let ?W = "\<Union>t \<in> set (t # ts). wal_start_of P t"
  show ?case
  proof (cases "loop_turn P t st")
    case (Continue s1)
    have 1: "loop_rel ?W st s1"
      by (rule loop_rel_mono [OF loop_turn_rel]) (auto simp: Continue)
    have 2: "loop_rel ?W s1 st'"
      by (rule loop_rel_mono [OF Cons.IH]) (use Cons.prems Continue in auto)
    from 1 2 show ?thesis by (rule loop_rel_trans)
  next
    case (Return err s1)
    have "loop_rel ?W st s1"
      by (rule loop_rel_mono [OF loop_turn_rel]) (auto simp: Return)
    with Cons.prems Return show ?thesis by simp
  qed (use Cons.prems in simp)
qed

section \<open>Panics and malformed input\<close>

lemma handle_logical_open:
  "\<not> closed (l_out st) \<Longrightarrow> \<exists>st'. handle_logical P stamp w msg st = Inr st' \<and> \<not> closed (l_out st')"
proof -
  assume o: "\<not> closed (l_out st)"
  let ?c = "case msg of RelationMessage rel \<Rightarrow> cache_Update (l_cache st) rel | _ \<Rightarrow> l_cache st"
  obtain r n where d: "DecodeMessage stamp (l_counter st) msg ?c = (r, n)" by fastforce
  show ?thesis
  proof (cases r)
    case (Inl err)
    with d o show ?thesis by (simp add: handle_logical_def Let_def)
  next
    case (Inr o_e)
    obtain b c where "try_send (the o_e\<lparr>ev_lsn := LSN_String P w\<rparr>) (l_out st) = Inr (b, c)" "\<not> closed c"
      using try_send_open [OF o] by blast
    with d o Inr show ?thesis by (cases o_e) (auto simp: handle_logical_def Let_def)
  qed
qed

lemma sendStandbyStatus_out: "sendStandbyStatus err st = Inr st' \<Longrightarrow> l_out st' = l_out st"
  by (auto simp: sendStandbyStatus_def split: option.splits)

lemma handle_recv_open:
  assumes "\<not> closed (l_out st)" "t_recv t \<noteq> Received (CopyData [])"
  shows "case handle_recv P t st of Panicked _ \<Rightarrow> False | Continue s \<Rightarrow> \<not> closed (l_out s) | Return _ _ \<Rightarrow> True"
proof -
  have l: "\<And>w msg st'. handle_logical P (t_stamp t) w msg st = Inr st' \<Longrightarrow> \<not> closed (l_out st')"
    "\<And>w msg p. handle_logical P (t_stamp t) w msg st \<noteq> Inl p"
    using handle_logical_open [OF assms(1)] by (metis sum.inject(2), metis sum.distinct(1))
  show ?thesis
    using assms l
    by (auto simp: handle_recv_def handle_copy_data_def
        split: recv_result.splits backend_message.splits sum.splits if_splits list.splits
        dest!: sendStandbyStatus_out)
qed

lemma loop_turn_open:
  assumes "\<not> closed (l_out st)" "t_recv t \<noteq> Received (CopyData [])"
  shows "case loop_turn P t st of Panicked _ \<Rightarrow> False | Continue s \<Rightarrow> \<not> closed (l_out s) | Return _ _ \<Rightarrow> True"
proof -
  let ?s = "take_out (t_taken t) st"
  have o: "\<not> closed (l_out ?s)" using assms(1) by (simp add: take_out_def)
  show ?thesis
  proof (cases "t_check t > nextAck ?s")
    case False
    with handle_recv_open [OF o assms(2), of P] show ?thesis by (simp add: loop_turn_def Let_def)
  next
    case True
    show ?thesis
    proof (cases "sendStandbyStatus (t_ack_err t) ?s")
      case (Inl err)
      with True show ?thesis by (simp add: loop_turn_def Let_def)
    next
      case (Inr s1)
      have "\<not> closed (l_out (s1\<lparr>nextAck := t_now1 t + ackInterval\<rparr>))"
        using o sendStandbyStatus_out [OF Inr] by simp
      from handle_recv_open [OF this assms(2), of P] True Inr show ?thesis
        by (simp add: loop_turn_def Let_def)
    qed
  qed
qed

lemma readLoop_from_no_panic:
  "\<not> closed (l_out st) \<Longrightarrow> \<forall>t \<in> set ts. t_recv t \<noteq> Received (CopyData []) \<Longrightarrow>
     result_state (readLoop_from P ts st) \<noteq> None"
proof (induction ts arbitrary: st)
  case Nil
  then show ?case by simp
next
  case (Cons t ts)
  with loop_turn_open [OF Cons.prems(1), of t P] show ?case
    by (cases "loop_turn P t st") auto
qed

section \<open>The stream as a specification\<close>

text \<open>
  What a stream of logical messages means, without cache, counter, channel or positions: a
  change of data is shown under the names of the last relation message for its relation
  before it, and a change of a relation not announced yet is not shown.
\<close>

type_synonym change = "event_type \<times> string \<times> string \<times> row \<times> row"

definition change_of :: "event \<Rightarrow> change" where
  "change_of e = (ev_type e, ev_schema e, ev_table e, ev_new e, ev_old e)"

fun announced :: "message \<Rightarrow> relation_msg list" where
  "announced (RelationMessage rel) = [rel]"
| "announced _ = []"

definition meaning :: "relation_msg list \<Rightarrow> message \<Rightarrow> change list" where
  "meaning seen msg =
    (case dml_parts msg of
       None \<Rightarrow> []
     | Some (rel, t, new_t, old_t) \<Rightarrow>
         (case last_relation seen rel of
            None \<Rightarrow> []
          | Some r \<Rightarrow> [(t, rel_namespace r, rel_name r,
              decodeTuple new_t (map column_of (rel_columns r)),
              decodeTuple old_t (map column_of (rel_columns r)))]))"

fun stream_meaning :: "relation_msg list \<Rightarrow> message list \<Rightarrow> change list" where
  "stream_meaning seen [] = []"
| "stream_meaning seen (m # ms) =
     meaning (seen @ announced m) m @ stream_meaning (seen @ announced m) ms"

definition delivers :: "pglogrepl \<Rightarrow> turn \<Rightarrow> message \<Rightarrow> bool" where
  "delivers P t msg \<longleftrightarrow> t_ack_err t = None \<and> (\<exists>rest w data.
     t_recv t = Received (CopyData (XLogDataByteID P # rest))
     \<and> ParseXLogData P rest = Inr (w, data) \<and> Parse P data = Inr msg)"

lemma cache_after: "(case msg of RelationMessage rel \<Rightarrow> cache_Update c rel | _ \<Rightarrow> c)
    = foldl cache_Update c (announced msg)"
  by (cases msg) simp_all

lemma meaning_length: "length (meaning seen msg) \<le> 1"
  by (simp add: meaning_def split: option.split)

lemma meaning_None: "dml_parts msg = None \<Longrightarrow> meaning seen msg = []"
  by (simp add: meaning_def)

lemma handle_logical_meaning:
  assumes c: "l_cache st = foldl cache_Update NewSchemaCache seen"
    and o: "\<not> closed (l_out st)" and room: "length (buf (l_out st)) < ccap (l_out st)"
  shows "\<exists>st' evs. handle_logical P stamp w msg st = Inr st'
    \<and> l_cache st' = foldl cache_Update NewSchemaCache (seen @ announced msg)
    \<and> \<not> closed (l_out st') \<and> ccap (l_out st') = ccap (l_out st)
    \<and> buf (l_out st') = buf (l_out st) @ evs \<and> published st' = published st @ evs
    \<and> map change_of evs = meaning (seen @ announced msg) msg"
proof -
  let ?seen = "seen @ announced msg"
  let ?c = "foldl cache_Update NewSchemaCache ?seen"
  have ce: "(case msg of RelationMessage rel \<Rightarrow> cache_Update (l_cache st) rel | _ \<Rightarrow> l_cache st) = ?c"
    by (simp add: cache_after c)
  obtain r n where d: "DecodeMessage stamp (l_counter st) msg ?c = (r, n)" by fastforce
  note look = schema_cache.get_replay [of ?seen]
  show ?thesis
  proof (cases r)
    case (Inl err)
    with d have "meaning ?seen msg = []"
      using DecodeMessage_error [of stamp _ msg ?c] look by (fastforce simp: meaning_def)
    with d ce Inl o room show ?thesis by (simp add: handle_logical_def)
  next
    case (Inr o_e)
    show ?thesis
    proof (cases o_e)
      case None
      with d Inr have "dml_parts msg = None"
        by (cases msg) (auto simp: DecodeMessage_def decodeInsert_def decodeUpdate_def decodeDelete_def
            Let_def newEvent_def split: option.splits)
      with d ce Inr None o room meaning_None show ?thesis by (simp add: handle_logical_def)
    next
      case (Some e)
      from d Inr Some obtain rel t new_t old_t meta where m: "dml_parts msg = Some (rel, t, new_t, old_t)"
          "cache_Get ?c rel = Some meta"
          "newEvent stamp (l_counter st) t meta (decodeTuple new_t (tm_columns meta))
             (decodeTuple old_t (tm_columns meta)) = (e, n)"
        by (auto simp: DecodeMessage_event)
      obtain rr where rr: "last_relation ?seen rel = Some rr" "meta = metadata_of rr"
        using m(2) look by auto
      have mean: "meaning ?seen msg = [change_of (e\<lparr>ev_lsn := LSN_String P w\<rparr>)]"
        using m(1) rr newEvent_fields [OF m(3)] by (simp add: meaning_def change_of_def metadata_of_def)
      have s: "try_send (e\<lparr>ev_lsn := LSN_String P w\<rparr>) (l_out st)
          = Inr (True, (l_out st)\<lparr>buf := buf (l_out st) @ [e\<lparr>ev_lsn := LSN_String P w\<rparr>]\<rparr>)"
        using o room by (simp add: try_send_def)
      from d ce Inr Some s mean o room show ?thesis
        by (simp add: handle_logical_def Let_def Suc_leI)
    qed
  qed
qed

lemma sendStandbyStatus_None: "sendStandbyStatus None st = Inr (st\<lparr>sent_acks := sent_acks st @ [clientXLogPos st]\<rparr>)"
  by (simp add: sendStandbyStatus_def)

lemma loop_turn_meaning:
  assumes del: "delivers P t msg" and ids: "XLogDataByteID P \<noteq> PrimaryKeepaliveMessageByteID P"
    and c: "l_cache st = foldl cache_Update NewSchemaCache seen" and o: "\<not> closed (l_out st)"
    and room: "length (buf (l_out st)) - t_taken t < ccap (l_out st)"
  shows "\<exists>st' evs. loop_turn P t st = Continue st'
    \<and> l_cache st' = foldl cache_Update NewSchemaCache (seen @ announced msg)
    \<and> \<not> closed (l_out st') \<and> ccap (l_out st') = ccap (l_out st)
    \<and> buf (l_out st') = drop (t_taken t) (buf (l_out st)) @ evs \<and> length evs \<le> 1
    \<and> published st' = published st @ evs \<and> map change_of evs = meaning (seen @ announced msg) msg"
proof -
  obtain rest w data where d: "t_ack_err t = None" "t_recv t = Received (CopyData (XLogDataByteID P # rest))"
      "ParseXLogData P rest = Inr (w, data)" "Parse P data = Inr msg"
    using del by (auto simp: delivers_def)
  define s1 where "s1 = (let s = take_out (t_taken t) st in
     if t_check t > nextAck s then (s\<lparr>sent_acks := sent_acks s @ [clientXLogPos s], nextAck := t_now1 t + ackInterval\<rparr>) else s)"
  have s1: "l_cache s1 = l_cache st" "published s1 = published st" "buf (l_out s1) = drop (t_taken t) (buf (l_out st))"
      "ccap (l_out s1) = ccap (l_out st)" "closed (l_out s1) = closed (l_out st)"
    by (auto simp: s1_def take_out_def Let_def)
  have "loop_turn P t st = handle_recv P t s1"
    using d(1) by (simp add: loop_turn_def s1_def Let_def sendStandbyStatus_None)
  moreover obtain st' evs where "handle_logical P (t_stamp t) w msg s1 = Inr st'"
      "l_cache st' = foldl cache_Update NewSchemaCache (seen @ announced msg)"
      "\<not> closed (l_out st')" "ccap (l_out st') = ccap (l_out s1)"
      "buf (l_out st') = buf (l_out s1) @ evs" "published st' = published s1 @ evs"
      and evs: "map change_of evs = meaning (seen @ announced msg) msg"
    using handle_logical_meaning [of s1 seen P "t_stamp t" w msg] s1 c o room by auto
  moreover have "length evs \<le> 1" using meaning_length evs by (metis length_map)
  ultimately show ?thesis
    using d ids s1 evs by (simp add: handle_recv_def handle_copy_data_def)
qed

lemma readLoop_from_meaning:
  assumes "list_all2 (delivers P) ts msgs" "XLogDataByteID P \<noteq> PrimaryKeepaliveMessageByteID P"
    and "l_cache st = foldl cache_Update NewSchemaCache seen" "\<not> closed (l_out st)"
    and "length (buf (l_out st)) \<le> ccap (l_out st)" "0 < ccap (l_out st)"
    and "\<forall>t \<in> set ts. ccap (l_out st) \<le> t_taken t"
  shows "\<exists>st'. readLoop_from P ts st = Continue st'
    \<and> map change_of (published st') = map change_of (published st) @ stream_meaning seen msgs"
  using assms
proof (induction ts msgs arbitrary: st seen rule: list_all2_induct)
  case Nil
  then show ?case by simp
next
  case (Cons t ts m ms)
  have room: "length (buf (l_out st)) - t_taken t < ccap (l_out st)" "drop (t_taken t) (buf (l_out st)) = []"
    using Cons.prems by auto
  obtain s1 evs where s1: "loop_turn P t st = Continue s1"
      "l_cache s1 = foldl cache_Update NewSchemaCache (seen @ announced m)"
      "\<not> closed (l_out s1)" "length (buf (l_out s1)) \<le> 1" "ccap (l_out s1) = ccap (l_out st)"
      "map change_of (published s1) = map change_of (published st) @ meaning (seen @ announced m) m"
    using loop_turn_meaning [OF Cons.hyps(1) Cons.prems(1-3) room(1)] room(2) by auto
  obtain s2 where "readLoop_from P ts s1 = Continue s2"
      "map change_of (published s2) = map change_of (published s1) @ stream_meaning (seen @ announced m) ms"
    using Cons.IH [of s1 "seen @ announced m"] s1 Cons.prems by auto
  with s1 show ?case by simp
qed

text \<open>What a turn without receives does to the channel, whatever it meets.\<close>

definition appends :: "loop_state \<Rightarrow> loop_state \<Rightarrow> bool" where
  "appends st st' \<longleftrightarrow> (\<exists>evs. published st' = published st @ evs \<and> buf (l_out st') = buf (l_out st) @ evs)
     \<and> ccap (l_out st') = ccap (l_out st) \<and> closed (l_out st') = closed (l_out st)"

lemma appends_quiet: "published st' = published st \<Longrightarrow> l_out st' = l_out st \<Longrightarrow> appends st st'"
  by (simp add: appends_def)

lemma appends_from: "published st = published s \<Longrightarrow> l_out st = l_out s \<Longrightarrow> appends s st' \<Longrightarrow> appends st st'"
  by (simp add: appends_def)

lemma send_quiet: "sendStandbyStatus err st = Inr st' \<Longrightarrow> published st' = published st \<and> l_out st' = l_out st"
  by (auto simp: sendStandbyStatus_def split: option.splits)

lemma handle_logical_appends: "handle_logical P stamp w msg st = Inr st' \<Longrightarrow> appends st st'"
  by (auto simp: handle_logical_def Let_def and_then_Inr_iff appends_def
      split: prod.splits sum.splits option.splits dest!: try_send_result)

lemma handle_recv_appends: "result_state (handle_recv P t st) = Some st' \<Longrightarrow> appends st st'"
  by (auto simp: handle_recv_def handle_copy_data_def intro: appends_quiet handle_logical_appends
      split: recv_result.splits backend_message.splits sum.splits if_splits list.splits dest!: send_quiet)

lemma send_recv_appends:
  "sendStandbyStatus err st = Inr s \<Longrightarrow> result_state (handle_recv P t (s\<lparr>nextAck := n\<rparr>)) = Some st' \<Longrightarrow> appends st st'"
  using send_quiet [of err st s] handle_recv_appends [of P t "s\<lparr>nextAck := n\<rparr>" st']
  by (auto intro: appends_from [of st "s\<lparr>nextAck := n\<rparr>"])

lemma loop_turn_appends:
  assumes "result_state (loop_turn P t st) = Some st'" and "t_taken t = 0"
  shows "appends st st'"
proof -
  have s: "take_out 0 st = st" by (simp add: take_out_def)
  show ?thesis
  proof (cases "t_check t > nextAck st")
    case True
    then show ?thesis
      using assms s by (auto simp: loop_turn_def Let_def intro: appends_quiet send_recv_appends split: sum.splits)
  qed (use assms s in \<open>simp add: loop_turn_def handle_recv_appends\<close>)
qed

section \<open>Properties\<close>

text \<open>
  C1. The loop implements the meaning of the stream. If the output channel has a positive
  capacity, the library's two message bytes differ, every turn delivers one well-formed
  logical message, and the forwarder takes in every turn at least as many events as the channel
  holds (otherwise the loop drops what does not fit), the loop is still
  running at the end and the events it has put into the channel are, in order, the changes
  the messages mean: each under the names of the latest relation message for its relation,
  with the decoded new and old rows.
\<close>

theorem readLoop_refines_stream:
  assumes "list_all2 (delivers P) ts msgs" and "XLogDataByteID P \<noteq> PrimaryKeepaliveMessageByteID P"
    and "0 < cap" and "\<forall>t \<in> set ts. cap \<le> t_taken t"
  shows "\<exists>st. readLoop P startLSN now counter (make_chan cap) ts = Continue st
    \<and> map change_of (published st) = stream_meaning [] msgs"
  unfolding readLoop_def
  using readLoop_from_meaning [OF assms(1,2), of "\<lparr>clientXLogPos = startLSN,
      nextAck = now + ackInterval, l_cache = NewSchemaCache, l_counter = counter,
      l_out = make_chan cap, sent_acks = [], published = []\<rparr>" "[]"] assms(3,4)
  by (simp add: chan_simps)

definition demo_wire :: pglogrepl where
  "demo_wire = \<lparr>PrimaryKeepaliveMessageByteID = CHR ''k'', XLogDataByteID = CHR ''w'',
     ParsePrimaryKeepaliveMessage = (\<lambda>s. if s = [] then Inl ''short'' else Inr (s = ''1'')),
     ParseXLogData = (\<lambda>s. if s = [] then Inl ''short'' else Inr (of_nat (length s), s)),
     Parse = (\<lambda>s. if s = ''R'' then Inr (RelationMessage \<lparr>rel_id = 5, rel_namespace = ''public'',
         rel_name = ''orders'', rel_columns = [\<lparr>rc_flags = 1, rc_name = ''id'', rc_type = 23\<rparr>]\<rparr>)
       else if s = ''I'' then Inr (InsertMessage 5 (Some [\<lparr>tc_kind = TupleText, tc_data = ''42''\<rparr>]))
       else Inl ''bad message''),
     LSN_String = (\<lambda>_. ''0/1'')\<rparr>"

definition demo_turn :: "recv_result \<Rightarrow> turn" where
  "demo_turn r = \<lparr>t_check = 0, t_now1 = 0, t_now2 = 0, t_ack_err = None, t_reply_err = None,
     t_recv = r, t_ctx_done = False, t_taken = 1, t_stamp = zero_time\<rparr>"

theorem readLoop_refines_stream_witness:
  "\<exists>st. readLoop demo_wire 0 0 0 (make_chan 1)
       [demo_turn (Received (CopyData ''wR'')), demo_turn (Received (CopyData ''wI''))] = Continue st
     \<and> map change_of (published st)
        = [(''INSERT'', ''public'', ''orders'', Some [(''id'', StrValue ''42'')], None)]"
proof -
  let ?R = "RelationMessage \<lparr>rel_id = 5, rel_namespace = ''public'', rel_name = ''orders'',
      rel_columns = [\<lparr>rc_flags = 1, rc_name = ''id'', rc_type = 23\<rparr>]\<rparr>"
  let ?I = "InsertMessage 5 (Some [\<lparr>tc_kind = TupleText, tc_data = ''42''\<rparr>])"
  let ?ts = "[demo_turn (Received (CopyData ''wR'')), demo_turn (Received (CopyData ''wI''))]"
  have del: "list_all2 (delivers demo_wire) ?ts [?R, ?I]"
    by (simp add: delivers_def demo_turn_def demo_wire_def)
  have ids: "XLogDataByteID demo_wire \<noteq> PrimaryKeepaliveMessageByteID demo_wire"
    by (simp add: demo_wire_def)
  have taken: "\<forall>t \<in> set ?ts. 1 \<le> t_taken t" by (simp add: demo_turn_def)
  have "stream_meaning [] [?R, ?I]
      = [(''INSERT'', ''public'', ''orders'', Some [(''id'', StrValue ''42'')], None)]"
    by (simp add: meaning_def last_relation_def decodeTuple_def cell_value_def column_of_def
        EventInsert_def)
  with readLoop_refines_stream [OF del ids _ taken, of 0 0 0] show ?thesis
    by (simp only: zero_less_one simp_thms)
qed

text \<open>
  C32. Acknowledgements are safe: whatever the environment does, the positions sent to the
  server never decrease, never pass the loop's position, and each is the start position or
  the WAL start of a message received in some turn.
\<close>

theorem readLoop_acks_safe:
  assumes "result_state (readLoop P startLSN now counter out ts) = Some st"
  shows "sorted (sent_acks st)
    \<and> (\<forall>a \<in> set (sent_acks st). startLSN \<le> a \<and> a \<le> clientXLogPos st
         \<and> (a = startLSN \<or> (\<exists>t \<in> set ts. a \<in> wal_start_of P t)))"
  using readLoop_from_rel [OF assms [unfolded readLoop_def]]
  by (auto simp: loop_rel_def ack_rel_def)

theorem readLoop_acks_safe_witness:
  "\<exists>st. readLoop demo_wire 1 0 0 (make_chan 1)
      [demo_turn (Received (CopyData ''wxyz'')), demo_turn (Received (CopyData ''wR''))
        , demo_turn ReceiveTimeout] = Continue st \<and> sent_acks st = [1] \<and> sorted (sent_acks st)"
proof -
  let ?r = "readLoop demo_wire 1 0 0 (make_chan 1)
      [demo_turn (Received (CopyData ''wxyz'')), demo_turn (Received (CopyData ''wR''))
        , demo_turn ReceiveTimeout]"
  have "case ?r of Continue st \<Rightarrow> sent_acks st = [1] | _ \<Rightarrow> False" by code_simp
  then obtain st where st: "?r = Continue st" "sent_acks st = [1]"
    by (cases ?r) simp_all
  then have "result_state ?r = Some st" by simp
  from readLoop_acks_safe [OF this] st show ?thesis by blast
qed

text \<open>
  C33. Identifiers: the events put into the channel carry, in order, distinct positions of
  the sequence that continues the process-wide counter, and the counter ends at the number
  of events decoded; an event dropped because the channel was full is never sent later.
\<close>

theorem readLoop_ids:
  assumes "result_state (readLoop P startLSN now counter out ts) = Some st"
  shows "\<exists>k. l_counter st = counter + of_nat k
    \<and> subseq (map ev_id (published st)) (ids_from counter k)"
  using readLoop_from_rel [OF assms [unfolded readLoop_def]]
  by (auto simp: loop_rel_def pub_rel_def)

theorem readLoop_ids_witness:
  "\<exists>st k. readLoop demo_wire 0 0 7 (make_chan 1)
      [demo_turn (Received (CopyData ''wR'')), demo_turn (Received (CopyData ''wI''))] = Continue st
     \<and> map ev_id (published st) = [8] \<and> subseq (map ev_id (published st)) (ids_from 7 k)"
proof -
  let ?r = "readLoop demo_wire 0 0 7 (make_chan 1)
      [demo_turn (Received (CopyData ''wR'')), demo_turn (Received (CopyData ''wI''))]"
  have "case ?r of Continue st \<Rightarrow> map ev_id (published st) = [8] | _ \<Rightarrow> False" by code_simp
  then obtain st where st: "?r = Continue st" "map ev_id (published st) = [8]"
    by (cases ?r) simp_all
  then have "result_state ?r = Some st" by simp
  from readLoop_ids [OF this] obtain k where "subseq (map ev_id (published st)) (ids_from 7 k)"
    by blast
  with st show ?thesis by (intro exI [of _ st] exI [of _ k]) simp
qed

text \<open>
  C38. Robustness: with an open output channel the loop panics only on an empty CopyData
  message (its first byte is read without a length check); any other input leaves a loop
  that runs or has returned.
\<close>

theorem readLoop_no_panic:
  assumes "\<not> closed out" and "\<forall>t \<in> set ts. t_recv t \<noteq> Received (CopyData [])"
  shows "result_state (readLoop P startLSN now counter out ts) \<noteq> None"
  unfolding readLoop_def by (rule readLoop_from_no_panic) (use assms in simp_all)

theorem readLoop_no_panic_witness:
  "result_state (readLoop demo_wire 0 0 0 (make_chan 1)
      [demo_turn (Received (CopyData ''w?'')), demo_turn (Received OtherBackend)]) \<noteq> None
   \<and> readLoop demo_wire 0 0 0 (make_chan 1) [demo_turn (Received (CopyData []))] = Panicked IndexOutOfRange"
proof -
  let ?ts = "[demo_turn (Received (CopyData ''w?'')), demo_turn (Received OtherBackend)]"
  have o: "\<not> closed (make_chan 1 :: event chan)" by (simp add: chan_simps)
  have t: "\<forall>t \<in> set ?ts. t_recv t \<noteq> Received (CopyData [])" by (simp add: demo_turn_def)
  have "case readLoop demo_wire 0 0 0 (make_chan 1) [demo_turn (Received (CopyData []))] of
      Panicked p \<Rightarrow> p = IndexOutOfRange | _ \<Rightarrow> False" by code_simp
  then have "readLoop demo_wire 0 0 0 (make_chan 1) [demo_turn (Received (CopyData []))]
      = Panicked IndexOutOfRange"
    by (auto split: turn_result.splits)
  with readLoop_no_panic [OF o t] show ?thesis by blast
qed

end
