(* ===== verification/Snapshot_Types.thy ===== *)
theory Snapshot_Types
  imports Go_Strings
begin

text \<open>
  \<open>internal/snapshot/types.go\<close>: the structure and the statistics of a database at one
  point in time. Maps keyed by the qualified table name or by the column name are
  association lists; 64-bit counts are integers, since they come from \<open>COUNT\<close> and are
  only compared and subtracted.
\<close>

record column_schema =
  cs_name :: string
  cs_data_type :: string
  cs_nullable :: bool
  cs_default :: string
  cs_position :: int

record table_schema =
  ts_schema :: string
  ts_name :: string
  ts_columns :: "column_schema list"
  ts_indexes :: "string list"

record schema_state =
  ss_tables :: "(string, table_schema) go_map"

record column_stats =
  st_non_null :: int
  st_null :: int
  st_distinct :: int
  st_min :: string
  st_max :: string

record table_statistics =
  tst_table :: string
  tst_row_count :: int
  tst_columns :: "(string, column_stats) go_map"
  tst_skipped :: bool
  tst_skipped_reason :: string

record snapshot =
  snap_id :: string
  snap_label :: string
  snap_captured_at :: go_time
  snap_schema :: schema_state
  snap_statistics :: "(string, table_statistics) go_map"

definition qualifiedName :: "string \<Rightarrow> string \<Rightarrow> string" where
  "qualifiedName schema table = schema @ ''.'' @ table"

definition wf_snapshot :: "snapshot \<Rightarrow> bool" where
  "wf_snapshot s \<longleftrightarrow> wf_map (ss_tables (snap_schema s)) \<and> wf_map (snap_statistics s)"

end
