(* ===== verification/Comparator.thy ===== *)
theory Comparator
  imports Snapshot_Types
begin

text \<open>
  \<open>internal/snapshot/comparator.go\<close>: the difference between two snapshots. The loops over
  \<open>sortedKeys\<close> are \<open>concat\<close> and \<open>filter\<close> over the sorted list of keys, the appends of the
  source in its order.
\<close>

section \<open>Report types\<close>

datatype change_kind = ChangeAdded | ChangeRemoved | ChangeModified

record schema_change =
  sc_kind :: change_kind
  sc_table :: string
  sc_column :: string
  sc_detail :: string
  sc_breaking :: bool

record column_data_change =
  cc_column :: string
  cc_null_from :: int
  cc_null_to :: int
  cc_non_null_from :: int
  cc_non_null_to :: int
  cc_distinct_from :: int
  cc_distinct_to :: int
  cc_notable :: bool

record data_change =
  dc_table :: string
  dc_rows_from :: int
  dc_rows_to :: int
  dc_columns :: "column_data_change list"
  dc_note :: string

record compare_report =
  FromLabel :: string
  ToLabel :: string
  SchemaChanges :: "schema_change list"
  DataChanges :: "data_change list"

definition BreakingCount :: "compare_report \<Rightarrow> nat" where
  "BreakingCount r = length [c \<leftarrow> SchemaChanges r. sc_breaking c]"

definition NotableDataCount :: "compare_report \<Rightarrow> nat" where
  "NotableDataCount r = sum_list (map (\<lambda>dc. length [cc \<leftarrow> dc_columns dc. cc_notable cc]) (DataChanges r))"

section \<open>Helpers\<close>

definition indexColumns :: "column_schema list \<Rightarrow> (string, column_schema) go_map" where
  "indexColumns cols = foldl (\<lambda>m c. AList.update (cs_name c) c m) [] cols"

definition describeNullable :: "bool \<Rightarrow> string" where
  "describeNullable nullable = (if nullable then '', nullable'' else '', NOT NULL'')"

definition emptyAsNone :: "string \<Rightarrow> string" where
  "emptyAsNone s = (if s = [] then ''none'' else s)"

text \<open>The keys of both maps, each once, sorted byte-wise.\<close>

definition sortedKeys :: "(string, 'v) go_map \<Rightarrow> (string, 'v) go_map \<Rightarrow> string list" where
  "sortedKeys a b = sort (remdups (map fst a @ map fst b))"

section \<open>Schema\<close>

definition diffColumn :: "string \<Rightarrow> column_schema \<Rightarrow> column_schema \<Rightarrow> schema_change option" where
  "diffColumn table a b =
    (if cs_data_type a \<noteq> cs_data_type b then
       Some \<lparr>sc_kind = ChangeModified, sc_table = table, sc_column = cs_name b,
         sc_detail = ''type changed: '' @ cs_data_type a @ '' '' @ arrow @ '' '' @ cs_data_type b,
         sc_breaking = True\<rparr>
     else if cs_nullable a \<and> \<not> cs_nullable b then
       Some \<lparr>sc_kind = ChangeModified, sc_table = table, sc_column = cs_name b,
         sc_detail = ''NULL '' @ arrow @ '' NOT NULL'', sc_breaking = True\<rparr>
     else if \<not> cs_nullable a \<and> cs_nullable b then
       Some \<lparr>sc_kind = ChangeModified, sc_table = table, sc_column = cs_name b,
         sc_detail = ''NOT NULL '' @ arrow @ '' NULL'', sc_breaking = False\<rparr>
     else if cs_default a \<noteq> cs_default b then
       Some \<lparr>sc_kind = ChangeModified, sc_table = table, sc_column = cs_name b,
         sc_detail = ''default changed: '' @ emptyAsNone (cs_default a) @ '' '' @ arrow @ '' ''
           @ emptyAsNone (cs_default b),
         sc_breaking = False\<rparr>
     else None)"

definition column_change ::
  "string \<Rightarrow> (string, column_schema) go_map \<Rightarrow> (string, column_schema) go_map \<Rightarrow> string \<Rightarrow>
     schema_change list" where
  "column_change table colsA colsB name =
    (case (map_of colsA name, map_of colsB name) of
       (None, Some cb) \<Rightarrow>
         [\<lparr>sc_kind = ChangeAdded, sc_table = table, sc_column = name,
           sc_detail = ''column added ('' @ cs_data_type cb @ describeNullable (cs_nullable cb) @ '')'',
           sc_breaking = False\<rparr>]
     | (Some ca, None) \<Rightarrow>
         [\<lparr>sc_kind = ChangeRemoved, sc_table = table, sc_column = name,
           sc_detail = ''column removed'', sc_breaking = True\<rparr>]
     | (Some ca, Some cb) \<Rightarrow>
         (case diffColumn table ca cb of None \<Rightarrow> [] | Some c \<Rightarrow> [c])
     | (None, None) \<Rightarrow> [])"

definition compareColumns :: "string \<Rightarrow> table_schema \<Rightarrow> table_schema \<Rightarrow> schema_change list" where
  "compareColumns table a b =
    (let colsA = indexColumns (ts_columns a); colsB = indexColumns (ts_columns b)
     in concat (map (column_change table colsA colsB) (sortedKeys colsA colsB)))"

definition table_change :: "schema_state \<Rightarrow> schema_state \<Rightarrow> string \<Rightarrow> schema_change list" where
  "table_change a b name =
    (case (map_of (ss_tables a) name, map_of (ss_tables b) name) of
       (None, Some tb) \<Rightarrow>
         [\<lparr>sc_kind = ChangeAdded, sc_table = name, sc_column = [],
           sc_detail = ''table added'', sc_breaking = False\<rparr>]
     | (Some ta, None) \<Rightarrow>
         [\<lparr>sc_kind = ChangeRemoved, sc_table = name, sc_column = [],
           sc_detail = ''table removed'', sc_breaking = True\<rparr>]
     | (Some ta, Some tb) \<Rightarrow> compareColumns name ta tb
     | (None, None) \<Rightarrow> [])"

definition compareSchema :: "schema_state \<Rightarrow> schema_state \<Rightarrow> schema_change list" where
  "compareSchema a b = concat (map (table_change a b) (sortedKeys (ss_tables a) (ss_tables b)))"

section \<open>Statistics\<close>

definition column_stats_change :: "string \<Rightarrow> column_stats \<Rightarrow> column_stats \<Rightarrow> column_data_change" where
  "column_stats_change col ca cb =
    \<lparr>cc_column = col, cc_null_from = st_null ca, cc_null_to = st_null cb,
     cc_non_null_from = st_non_null ca, cc_non_null_to = st_non_null cb,
     cc_distinct_from = st_distinct ca, cc_distinct_to = st_distinct cb,
     cc_notable = (st_null ca > 0 \<and> st_null cb < st_null ca)\<rparr>"

definition column_stats_entry ::
  "table_statistics \<Rightarrow> table_statistics \<Rightarrow> string \<Rightarrow> column_data_change list" where
  "column_stats_entry a b col =
    (case (map_of (tst_columns a) col, map_of (tst_columns b) col) of
       (Some ca, Some cb) \<Rightarrow> if ca = cb then [] else [column_stats_change col ca cb]
     | _ \<Rightarrow> [])"

definition compareColumnStats :: "table_statistics \<Rightarrow> table_statistics \<Rightarrow> column_data_change list" where
  "compareColumnStats a b =
    concat (map (column_stats_entry a b) (sortedKeys (tst_columns a) (tst_columns b)))"

definition table_stats_change ::
  "(string, table_statistics) go_map \<Rightarrow> (string, table_statistics) go_map \<Rightarrow> string \<Rightarrow> data_change list" where
  "table_stats_change a b name =
    (case (map_of a name, map_of b name) of
       (None, Some sb) \<Rightarrow>
         [\<lparr>dc_table = name, dc_rows_from = 0, dc_rows_to = tst_row_count sb, dc_columns = [],
           dc_note = ''new table''\<rparr>]
     | (Some sa, None) \<Rightarrow>
         [\<lparr>dc_table = name, dc_rows_from = tst_row_count sa, dc_rows_to = 0, dc_columns = [],
           dc_note = ''table removed, comparison skipped''\<rparr>]
     | (Some sa, Some sb) \<Rightarrow>
         [\<lparr>dc_table = name, dc_rows_from = tst_row_count sa, dc_rows_to = tst_row_count sb,
           dc_columns = (if tst_skipped sa \<or> tst_skipped sb then [] else compareColumnStats sa sb),
           dc_note = (if tst_skipped sa \<or> tst_skipped sb
                      then ''statistics skipped for a large table'' else [])\<rparr>]
     | (None, None) \<Rightarrow> [])"

definition compareStatistics :: "snapshot \<Rightarrow> snapshot \<Rightarrow> data_change list" where
  "compareStatistics a b =
    concat (map (table_stats_change (snap_statistics a) (snap_statistics b))
      (sortedKeys (snap_statistics a) (snap_statistics b)))"

definition Compare :: "snapshot \<Rightarrow> snapshot \<Rightarrow> compare_report" where
  "Compare a b =
    \<lparr>FromLabel = snap_label a, ToLabel = snap_label b,
     SchemaChanges = compareSchema (snap_schema a) (snap_schema b),
     DataChanges = compareStatistics a b\<rparr>"

section \<open>Keys\<close>

lemma set_sortedKeys [simp]: "set (sortedKeys a b) = fst ` set a \<union> fst ` set b"
  by (simp add: sortedKeys_def)

lemma distinct_sortedKeys [simp]: "distinct (sortedKeys a b)"
  by (simp add: sortedKeys_def)

lemma sorted_sortedKeys [simp]: "sorted (sortedKeys a b)"
  by (simp add: sortedKeys_def)

lemma sortedKeys_commute: "sortedKeys a b = sortedKeys b a"
  by (rule sorted_distinct_set_unique) (auto simp: sortedKeys_def)

lemma map_of_indexColumns:
  "map_of (indexColumns cols) n = find (\<lambda>c. cs_name c = n) (rev cols)"
  by (induction cols rule: rev_induct) (auto simp: indexColumns_def)

lemma indexColumns_name: "map_of (indexColumns cols) n = Some c \<Longrightarrow> cs_name c = n \<and> c \<in> set cols"
  by (auto simp: map_of_indexColumns find_Some_iff) (metis nth_mem set_rev length_rev)

section \<open>Membership\<close>

text \<open>A change is reported exactly when some key of either map yields it.\<close>

lemma table_change_outside:
  "n \<notin> fst ` set (ss_tables a) \<union> fst ` set (ss_tables b) \<Longrightarrow> table_change a b n = []"
  by (simp add: table_change_def)

lemma column_change_outside:
  "n \<notin> fst ` set A \<union> fst ` set B \<Longrightarrow> column_change t A B n = []"
  by (simp add: column_change_def)

lemma table_stats_change_outside:
  "n \<notin> fst ` set A \<union> fst ` set B \<Longrightarrow> table_stats_change A B n = []"
  by (simp add: table_stats_change_def)

lemma in_compareSchema:
  "c \<in> set (compareSchema a b) \<longleftrightarrow> (\<exists>name. c \<in> set (table_change a b name))"
  unfolding compareSchema_def using table_change_outside [of _ a b] by fastforce

lemma in_compareColumns:
  "c \<in> set (compareColumns t a b) \<longleftrightarrow>
     (\<exists>name. c \<in> set (column_change t (indexColumns (ts_columns a)) (indexColumns (ts_columns b)) name))"
  unfolding compareColumns_def Let_def
  using column_change_outside [of _ "indexColumns (ts_columns a)" "indexColumns (ts_columns b)" t]
  by fastforce

lemma diffColumn_table: "diffColumn t a b = Some c \<Longrightarrow> sc_table c = t \<and> sc_column c = cs_name b
    \<and> sc_kind c = ChangeModified"
  by (auto simp: diffColumn_def split: if_splits)

lemma column_change_fields:
  "c \<in> set (column_change t (indexColumns ca) (indexColumns cb) n) \<Longrightarrow> sc_table c = t \<and> sc_column c = n"
  by (auto simp: column_change_def split: option.splits
      dest!: sym [of "Some _"] diffColumn_table indexColumns_name)

lemma table_change_table: "c \<in> set (table_change a b n) \<Longrightarrow> sc_table c = n"
  by (auto simp: table_change_def in_compareColumns split: option.splits dest: column_change_fields)

section \<open>Order\<close>

definition before :: "schema_change \<Rightarrow> schema_change \<Rightarrow> bool" where
  "before c d \<longleftrightarrow> sc_table c < sc_table d \<or> (sc_table c = sc_table d \<and> sc_column c < sc_column d)"

lemma sorted_wrt_concat_map:
  assumes "sorted_wrt (<) ks" and "\<And>k. k \<in> set ks \<Longrightarrow> sorted_wrt R (f k)"
    and "\<And>j k c d. j < k \<Longrightarrow> c \<in> set (f j) \<Longrightarrow> d \<in> set (f k) \<Longrightarrow> R c d"
  shows "sorted_wrt R (concat (map f ks))"
  using assms by (induction ks) (auto simp: sorted_wrt_append)

lemma strict_sortedKeys: "sorted_wrt (<) (sortedKeys a b)"
  by (simp add: strict_sorted_iff)

lemma column_change_short: "sorted_wrt R (column_change t A B n)"
  by (simp add: column_change_def split: option.splits)

lemma compareColumns_sorted: "sorted_wrt before (compareColumns t a b)"
  unfolding compareColumns_def Let_def
  by (rule sorted_wrt_concat_map [OF strict_sortedKeys column_change_short])
     (auto simp: before_def dest!: column_change_fields)

lemma table_change_sorted: "sorted_wrt before (table_change a b n)"
  by (simp add: table_change_def compareColumns_sorted split: option.splits)

lemma compareSchema_sorted: "sorted_wrt before (compareSchema a b)"
  unfolding compareSchema_def
  by (rule sorted_wrt_concat_map [OF strict_sortedKeys table_change_sorted])
     (auto simp: before_def dest!: table_change_table)

section \<open>What counts as unchanged and as breaking\<close>

text \<open>The columns of a table as the comparison sees them, by name (the last one wins).\<close>

definition column_at :: "table_schema \<Rightarrow> string \<Rightarrow> column_schema option" where
  "column_at t n = find (\<lambda>c. cs_name c = n) (rev (ts_columns t))"

definition table_at :: "snapshot \<Rightarrow> string \<Rightarrow> table_schema option" where
  "table_at s n = map_of (ss_tables (snap_schema s)) n"

definition same_column :: "column_schema \<Rightarrow> column_schema \<Rightarrow> bool" where
  "same_column a b \<longleftrightarrow> cs_data_type a = cs_data_type b \<and> cs_nullable a = cs_nullable b
     \<and> cs_default a = cs_default b"

definition same_table :: "table_schema \<Rightarrow> table_schema \<Rightarrow> bool" where
  "same_table a b \<longleftrightarrow> (\<forall>n. rel_option same_column (column_at a n) (column_at b n))"

definition same_schema :: "snapshot \<Rightarrow> snapshot \<Rightarrow> bool" where
  "same_schema a b \<longleftrightarrow> (\<forall>n. rel_option same_table (table_at a n) (table_at b n))"

definition breaks_column :: "column_schema \<Rightarrow> column_schema option \<Rightarrow> bool" where
  "breaks_column a b' = (case b' of None \<Rightarrow> True
     | Some b \<Rightarrow> cs_data_type a \<noteq> cs_data_type b \<or> (cs_nullable a \<and> \<not> cs_nullable b))"

definition breaks_table :: "table_schema \<Rightarrow> table_schema option \<Rightarrow> bool" where
  "breaks_table a b' = (case b' of None \<Rightarrow> True
     | Some b \<Rightarrow> (\<exists>n c. column_at a n = Some c \<and> breaks_column c (column_at b n)))"

lemma diffColumn_None: "diffColumn t a b = None \<longleftrightarrow> same_column a b"
  by (auto simp: diffColumn_def same_column_def)

lemma diffColumn_breaking:
  "(\<exists>c. diffColumn t a b = Some c \<and> sc_breaking c) \<longleftrightarrow> breaks_column a (Some b)"
  by (auto simp: diffColumn_def breaks_column_def)

lemma column_change_Nil:
  "column_change t (indexColumns (ts_columns a)) (indexColumns (ts_columns b)) n = [] \<longleftrightarrow>
     rel_option same_column (column_at a n) (column_at b n)"
proof (cases "column_at a n"; cases "column_at b n")
  fix ca cb
  assume "column_at a n = Some ca" "column_at b n = Some cb"
  with diffColumn_None [of t ca cb] show ?thesis
    by (cases "diffColumn t ca cb") (simp_all add: column_change_def map_of_indexColumns column_at_def)
qed (simp_all add: column_change_def map_of_indexColumns column_at_def)

lemma column_change_breaking:
  "(\<exists>c \<in> set (column_change t (indexColumns (ts_columns a)) (indexColumns (ts_columns b)) n). sc_breaking c)
     \<longleftrightarrow> (\<exists>c. column_at a n = Some c \<and> breaks_column c (column_at b n))"
proof (cases "column_at a n")
  case None
  then show ?thesis
    by (auto simp: column_change_def map_of_indexColumns column_at_def split: option.splits)
next
  case (Some ca)
  show ?thesis
  proof (cases "column_at b n")
    case None
    with Some show ?thesis
      by (simp add: column_change_def map_of_indexColumns column_at_def breaks_column_def)
  next
    case (Some cb)
    with \<open>column_at a n = Some ca\<close> diffColumn_breaking [of t ca cb] show ?thesis
      by (auto simp: column_change_def map_of_indexColumns column_at_def split: option.splits)
  qed
qed

lemma compareColumns_Nil: "compareColumns t a b = [] \<longleftrightarrow> same_table a b"
proof -
  have "compareColumns t a b = [] \<longleftrightarrow> (\<forall>c. c \<notin> set (compareColumns t a b))" by (metis list.set_intros(1) neq_Nil_conv empty_iff list.set(1))
  also have "\<dots> \<longleftrightarrow> (\<forall>n. column_change t (indexColumns (ts_columns a)) (indexColumns (ts_columns b)) n = [])"
    by (metis in_compareColumns list.set_intros(1) neq_Nil_conv empty_iff list.set(1))
  finally show ?thesis by (simp add: column_change_Nil same_table_def)
qed

lemma compareColumns_breaking:
  "(\<exists>c \<in> set (compareColumns t a b). sc_breaking c) \<longleftrightarrow> breaks_table a (Some b)"
  unfolding breaks_table_def option.case using column_change_breaking [of t a b]
  by (metis in_compareColumns)

lemma table_change_Nil:
  "table_change (snap_schema a) (snap_schema b) n = [] \<longleftrightarrow> rel_option same_table (table_at a n) (table_at b n)"
  by (auto simp: table_change_def table_at_def compareColumns_Nil split: option.splits)

lemma table_change_breaking:
  "(\<exists>c \<in> set (table_change (snap_schema a) (snap_schema b) n). sc_breaking c) \<longleftrightarrow>
     (\<exists>t. table_at a n = Some t \<and> breaks_table t (table_at b n))"
proof (cases "table_at a n")
  case None
  then show ?thesis by (auto simp: table_change_def table_at_def split: option.splits)
next
  case (Some ta)
  show ?thesis
  proof (cases "table_at b n")
    case None
    with Some show ?thesis by (simp add: table_change_def table_at_def breaks_table_def)
  next
    case (Some tb)
    with \<open>table_at a n = Some ta\<close> show ?thesis
      by (simp add: table_change_def table_at_def compareColumns_breaking)
  qed
qed

lemma compareSchema_Nil: "compareSchema (snap_schema a) (snap_schema b) = [] \<longleftrightarrow> same_schema a b"
proof -
  have "compareSchema (snap_schema a) (snap_schema b) = []
      \<longleftrightarrow> (\<forall>n. table_change (snap_schema a) (snap_schema b) n = [])"
    by (metis in_compareSchema list.set_intros(1) neq_Nil_conv empty_iff list.set(1))
  then show ?thesis by (simp add: table_change_Nil same_schema_def)
qed

section \<open>Statistics\<close>

lemma table_stats_change_single:
  "n \<in> fst ` set A \<union> fst ` set B \<Longrightarrow> \<exists>d. table_stats_change A B n = [d] \<and> dc_table d = n"
  by (auto simp: table_stats_change_def dest: weak_map_of_SomeI split: option.splits)

lemma compareStatistics_tables:
  "map dc_table (compareStatistics a b) = sortedKeys (snap_statistics a) (snap_statistics b)"
proof -
  let ?A = "snap_statistics a" and ?B = "snap_statistics b"
  have "map dc_table (concat (map (table_stats_change ?A ?B) ks)) = ks"
    if "set ks \<subseteq> fst ` set ?A \<union> fst ` set ?B" for ks
    using that
  proof (induction ks)
    case (Cons k ks)
    then show ?case using table_stats_change_single [of k ?A ?B] by auto
  qed simp
  from this [of "sortedKeys ?A ?B"] show ?thesis by (simp add: compareStatistics_def)
qed

definition stats_at :: "snapshot \<Rightarrow> string \<Rightarrow> table_statistics option" where
  "stats_at s n = map_of (snap_statistics s) n"

text \<open>NULLs of a column that both snapshots measured have become fewer.\<close>

definition nulls_dropped :: "snapshot \<Rightarrow> snapshot \<Rightarrow> string \<Rightarrow> string \<Rightarrow> bool" where
  "nulls_dropped a b t col \<longleftrightarrow> (\<exists>sa sb ca cb. stats_at a t = Some sa \<and> stats_at b t = Some sb
     \<and> \<not> tst_skipped sa \<and> \<not> tst_skipped sb
     \<and> map_of (tst_columns sa) col = Some ca \<and> map_of (tst_columns sb) col = Some cb
     \<and> st_null cb < st_null ca \<and> 0 < st_null ca)"

lemma column_stats_entry_iff:
  "cc \<in> set (column_stats_entry a b col) \<longleftrightarrow> (\<exists>ca cb. map_of (tst_columns a) col = Some ca
     \<and> map_of (tst_columns b) col = Some cb \<and> ca \<noteq> cb \<and> cc = column_stats_change col ca cb)"
  by (cases "map_of (tst_columns a) col"; cases "map_of (tst_columns b) col")
     (auto simp: column_stats_entry_def)

lemma in_compareColumnStats:
  "cc \<in> set (compareColumnStats a b) \<longleftrightarrow> (\<exists>col ca cb. map_of (tst_columns a) col = Some ca
     \<and> map_of (tst_columns b) col = Some cb \<and> ca \<noteq> cb \<and> cc = column_stats_change col ca cb)"
proof -
  have "cc \<in> set (column_stats_entry a b col) \<Longrightarrow> col \<in> set (sortedKeys (tst_columns a) (tst_columns b))" for col
    by (auto simp: column_stats_entry_iff dest: map_of_in_fst)
  then have "cc \<in> set (compareColumnStats a b) \<longleftrightarrow> (\<exists>col. cc \<in> set (column_stats_entry a b col))"
    unfolding compareColumnStats_def by auto
  then show ?thesis by (simp only: column_stats_entry_iff)
qed

lemma in_compareStatistics:
  "d \<in> set (compareStatistics a b) \<longleftrightarrow>
     (\<exists>n. d \<in> set (table_stats_change (snap_statistics a) (snap_statistics b) n))"
  unfolding compareStatistics_def
  using table_stats_change_outside [of _ "snap_statistics a" "snap_statistics b"] by fastforce

lemma table_stats_change_columns:
  assumes "d \<in> set (table_stats_change (snap_statistics a) (snap_statistics b) n)" and "cc \<in> set (dc_columns d)"
  shows "\<exists>sa sb. stats_at a n = Some sa \<and> stats_at b n = Some sb \<and> \<not> tst_skipped sa \<and> \<not> tst_skipped sb
    \<and> dc_table d = n \<and> cc \<in> set (compareColumnStats sa sb)"
  using assms
  by (cases "stats_at a n"; cases "stats_at b n")
     (auto simp: table_stats_change_def stats_at_def split: if_splits)

lemma notable_iff:
  "(\<exists>d \<in> set (compareStatistics a b). \<exists>cc \<in> set (dc_columns d). cc_notable cc \<and> dc_table d = t \<and> cc_column cc = col)
     \<longleftrightarrow> nulls_dropped a b t col"
proof
  assume "\<exists>d \<in> set (compareStatistics a b). \<exists>cc \<in> set (dc_columns d). cc_notable cc \<and> dc_table d = t \<and> cc_column cc = col"
  then obtain d cc where "d \<in> set (compareStatistics a b)" "cc \<in> set (dc_columns d)"
      "cc_notable cc" "dc_table d = t" "cc_column cc = col"
    by auto
  then obtain sa sb where s: "stats_at a t = Some sa" "stats_at b t = Some sb"
      "\<not> tst_skipped sa" "\<not> tst_skipped sb" "cc \<in> set (compareColumnStats sa sb)"
    by (metis in_compareStatistics table_stats_change_columns)
  then obtain ca cb where "map_of (tst_columns sa) col = Some ca" "map_of (tst_columns sb) col = Some cb"
      "cc = column_stats_change col ca cb"
    using \<open>cc_column cc = col\<close> by (auto simp: in_compareColumnStats column_stats_change_def)
  then show "nulls_dropped a b t col"
    using s \<open>cc_notable cc\<close> by (auto simp: nulls_dropped_def column_stats_change_def)
next
  assume "nulls_dropped a b t col"
  then obtain sa sb ca cb where h: "stats_at a t = Some sa" "stats_at b t = Some sb"
      "\<not> tst_skipped sa" "\<not> tst_skipped sb" "map_of (tst_columns sa) col = Some ca"
      "map_of (tst_columns sb) col = Some cb" "st_null cb < st_null ca" "0 < st_null ca"
    by (auto simp: nulls_dropped_def)
  let ?cc = "column_stats_change col ca cb"
  have "?cc \<in> set (compareColumnStats sa sb)" using h by (auto simp: in_compareColumnStats)
  moreover have "cc_notable ?cc" "cc_column ?cc = col" using h by (simp_all add: column_stats_change_def)
  moreover obtain d where "d \<in> set (compareStatistics a b)" "dc_table d = t"
      "dc_columns d = compareColumnStats sa sb"
  proof
    let ?d = "\<lparr>dc_table = t, dc_rows_from = tst_row_count sa, dc_rows_to = tst_row_count sb,
      dc_columns = compareColumnStats sa sb, dc_note = []\<rparr>"
    have "?d \<in> set (table_stats_change (snap_statistics a) (snap_statistics b) t)"
      using h by (simp add: table_stats_change_def stats_at_def)
    then show "?d \<in> set (compareStatistics a b)" by (auto simp: in_compareStatistics)
  qed simp_all
  ultimately show "\<exists>d \<in> set (compareStatistics a b). \<exists>cc \<in> set (dc_columns d).
      cc_notable cc \<and> dc_table d = t \<and> cc_column cc = col" by metis
qed

lemma NotableDataCount_pos:
  "0 < NotableDataCount r \<longleftrightarrow> (\<exists>d \<in> set (DataChanges r). \<exists>cc \<in> set (dc_columns d). cc_notable cc)"
  by (auto simp: NotableDataCount_def sum_list_eq_0_iff filter_empty_conv neq0_conv [symmetric]
      simp del: neq0_conv)

section \<open>The other direction\<close>

fun opposite :: "change_kind \<Rightarrow> change_kind" where
  "opposite ChangeAdded = ChangeRemoved"
| "opposite ChangeRemoved = ChangeAdded"
| "opposite ChangeModified = ChangeModified"

definition locus :: "schema_change \<Rightarrow> string \<times> string \<times> change_kind" where
  "locus c = (sc_table c, sc_column c, sc_kind c)"

definition mirrored :: "schema_change \<Rightarrow> string \<times> string \<times> change_kind" where
  "mirrored c = (sc_table c, sc_column c, opposite (sc_kind c))"

lemma same_column_sym: "same_column a b \<longleftrightarrow> same_column b a"
  by (auto simp: same_column_def)

lemma diffColumn_mirror:
  "cs_name a = cs_name b \<Longrightarrow>
     map_option locus (diffColumn t b a) = map_option mirrored (diffColumn t a b)"
  by (simp add: diffColumn_def locus_def mirrored_def)

lemma column_change_mirror:
  "map locus (column_change t (indexColumns cb) (indexColumns ca) n) =
     map mirrored (column_change t (indexColumns ca) (indexColumns cb) n)"
proof (cases "map_of (indexColumns ca) n"; cases "map_of (indexColumns cb) n")
  fix x y
  assume h: "map_of (indexColumns ca) n = Some x" "map_of (indexColumns cb) n = Some y"
  then have "cs_name x = cs_name y" by (auto dest!: indexColumns_name)
  from diffColumn_mirror [OF this, of t] h show ?thesis
    by (cases "diffColumn t x y"; cases "diffColumn t y x") (simp_all add: column_change_def)
qed (simp_all add: column_change_def locus_def mirrored_def)

lemma compareColumns_mirror: "map locus (compareColumns t b a) = map mirrored (compareColumns t a b)"
  by (simp add: compareColumns_def Let_def map_concat comp_def column_change_mirror
      sortedKeys_commute [of "indexColumns (ts_columns b)"])

lemma table_change_mirror: "map locus (table_change b a n) = map mirrored (table_change a b n)"
  by (cases "map_of (ss_tables a) n"; cases "map_of (ss_tables b) n")
     (simp_all add: table_change_def compareColumns_mirror, simp_all add: locus_def mirrored_def)

section \<open>Properties\<close>

text \<open>
  C36. The schema section of a report is empty exactly when both snapshots have the same
  tables and, in every table, the same column names with the same type, nullability and
  default: the comparison misses no such difference and invents none. (Index lists and
  column positions are captured but are not part of the comparison.)
\<close>

theorem schema_changes_empty_iff: "SchemaChanges (Compare a b) = [] \<longleftrightarrow> same_schema a b"
  by (simp add: Compare_def compareSchema_Nil)

text \<open>
  C19. The report counts a breaking change exactly when some table of the baseline has been
  removed, or one of its columns has been removed, has changed type, or was nullable and no
  longer is. Additions, relaxed nullability and changed defaults never count.
\<close>

theorem breaking_iff:
  "0 < BreakingCount (Compare a b) \<longleftrightarrow>
     (\<exists>n t. table_at a n = Some t \<and> breaks_table t (table_at b n))"
proof -
  have "0 < BreakingCount (Compare a b) \<longleftrightarrow>
      (\<exists>c \<in> set (compareSchema (snap_schema a) (snap_schema b)). sc_breaking c)"
    by (auto simp: BreakingCount_def Compare_def filter_empty_conv)
  also have "\<dots> \<longleftrightarrow> (\<exists>n. \<exists>c \<in> set (table_change (snap_schema a) (snap_schema b) n). sc_breaking c)"
    by (meson in_compareSchema)
  finally show ?thesis by (simp only: table_change_breaking)
qed

text \<open>
  The schema changes come out strictly ordered by table and, within a table, by column:
  the report does not depend on Go's map iteration order and names no table or column twice.
\<close>

theorem schema_changes_ordered: "sorted_wrt before (SchemaChanges (Compare a b))"
  by (simp add: Compare_def compareSchema_sorted)

text \<open>
  The data section has exactly one entry per table that either snapshot measured, in
  byte order, whether or not the table changed; and it counts a notable change exactly when
  a column measured on both sides, in a table skipped on neither, has lost NULLs.
\<close>

theorem data_changes_cover:
  "map dc_table (DataChanges (Compare a b)) = sortedKeys (snap_statistics a) (snap_statistics b)
   \<and> (0 < NotableDataCount (Compare a b) \<longleftrightarrow> (\<exists>t col. nulls_dropped a b t col))"
  using notable_iff [of a b]
  by (simp add: NotableDataCount_pos Compare_def compareStatistics_tables) blast

text \<open>
  Comparing in the other direction yields the same tables and columns in the same order,
  with additions and removals swapped and modifications kept.
\<close>

theorem compare_mirror:
  "map locus (SchemaChanges (Compare b a)) = map mirrored (SchemaChanges (Compare a b))"
  by (simp add: Compare_def compareSchema_def map_concat comp_def table_change_mirror
      sortedKeys_commute [of "ss_tables (snap_schema b)"])

end
