(* ===== verification/Report.thy ===== *)
theory Report
  imports Comparator
begin

text \<open>
  \<open>internal/snapshot/report.go\<close>: the three renderings of a comparison. Each
  \<open>fmt.Fprintf\<close> of the source is one string of the model, each loop a \<open>concat\<close>.
  \<open>json.MarshalIndent\<close> on the report is the argument \<open>marshal\<close>, and which runes beyond
  ASCII the verb \<open>%q\<close> prints as they are is the argument \<open>uni_print\<close>.
\<close>

section \<open>Text\<close>

definition kind_text :: "change_kind \<Rightarrow> string" where
  "kind_text k = (case k of ChangeAdded \<Rightarrow> ''added'' | ChangeRemoved \<Rightarrow> ''removed''
     | ChangeModified \<Rightarrow> ''modified'')"

definition change_target :: "schema_change \<Rightarrow> string" where
  "change_target c = (if sc_column c \<noteq> [] then sc_table c @ ''.'' @ sc_column c else sc_table c)"

definition text_schema_line :: "schema_change \<Rightarrow> string" where
  "text_schema_line c =
    (if sc_breaking c then warn_sign @ '' '' else ''  '') @ pad_right 7 (kind_text (sc_kind c)) @ '' ''
     @ pad_right 28 (change_target c) @ '' '' @ sc_detail c @ nl"

definition text_column_lines :: "column_data_change \<Rightarrow> string" where
  "text_column_lines cc =
    ''    '' @ cc_column cc @ '' non-null:  '' @ itoa (cc_non_null_from cc) @ '' '' @ arrow @ '' ''
      @ itoa (cc_non_null_to cc) @ (if cc_notable cc then ''  '' @ warn_sign else []) @ nl
     @ (if cc_null_from cc \<noteq> cc_null_to cc
        then ''    '' @ cc_column cc @ '' null:      '' @ itoa (cc_null_from cc) @ '' '' @ arrow @ '' ''
          @ itoa (cc_null_to cc) @ nl
        else [])"

definition text_data_lines :: "data_change \<Rightarrow> string" where
  "text_data_lines dc =
    ''  '' @ dc_table dc @ '':'' @ nl
     @ ''    rows:           '' @ itoa (dc_rows_from dc) @ '' '' @ arrow @ '' '' @ itoa (dc_rows_to dc) @ nl
     @ (if dc_note dc \<noteq> [] then ''    ('' @ dc_note dc @ '')'' @ nl else [])
     @ concat (map text_column_lines (dc_columns dc))"

definition text_header :: "(nat \<Rightarrow> bool) \<Rightarrow> compare_report \<Rightarrow> string" where
  "text_header uni_print r =
    ''=== Snapshot '' @ quote uni_print (FromLabel r) @ '' vs '' @ quote uni_print (ToLabel r)
      @ '' ==='' @ nl @ nl"

definition text_summary :: "compare_report \<Rightarrow> string" where
  "text_summary r =
    nl @ ''SUMMARY'' @ nl
     @ ''  '' @ nat_str (length (SchemaChanges r)) @ '' schema change(s), ''
       @ nat_str (BreakingCount r) @ '' breaking'' @ nl
     @ ''  '' @ nat_str (length (DataChanges r)) @ '' table(s) with data drift, ''
       @ nat_str (NotableDataCount r) @ '' notable'' @ nl"

definition renderText :: "(nat \<Rightarrow> bool) \<Rightarrow> compare_report \<Rightarrow> string" where
  "renderText uni_print r =
    text_header uni_print r
     @ ''SCHEMA CHANGES'' @ nl
     @ (if SchemaChanges r = [] then ''  (none)'' @ nl else [])
     @ concat (map text_schema_line (SchemaChanges r))
     @ nl @ ''DATA CHANGES'' @ nl
     @ (if DataChanges r = [] then ''  (none)'' @ nl else [])
     @ concat (map text_data_lines (DataChanges r))
     @ text_summary r"

section \<open>Markdown\<close>

definition md_code :: "string \<Rightarrow> string" where
  "md_code s = ''`'' @ s @ ''`''"

definition md_schema_row :: "schema_change \<Rightarrow> string" where
  "md_schema_row c =
    ''| '' @ kind_text (sc_kind c) @ '' | '' @ md_code (change_target c) @ '' | '' @ sc_detail c @ '' | ''
      @ (if sc_breaking c then warn_sign @ '' yes'' else []) @ '' |'' @ nl"

definition md_column_line :: "column_data_change \<Rightarrow> string" where
  "md_column_line cc =
    ''  - '' @ md_code (cc_column cc) @ '': non-null '' @ itoa (cc_non_null_from cc) @ '' '' @ arrow @ '' ''
      @ itoa (cc_non_null_to cc) @ '', null '' @ itoa (cc_null_from cc) @ '' '' @ arrow @ '' ''
      @ itoa (cc_null_to cc) @ (if cc_notable cc then '' '' @ warn_sign else []) @ nl"

definition md_data_item :: "data_change \<Rightarrow> string" where
  "md_data_item dc =
    ''- **'' @ md_code (dc_table dc) @ ''** '' @ emdash @ '' rows '' @ itoa (dc_rows_from dc) @ '' '' @ arrow
      @ '' '' @ itoa (dc_rows_to dc)
      @ (if dc_note dc \<noteq> [] then '' _('' @ dc_note dc @ '')_'' else []) @ nl
      @ concat (map md_column_line (dc_columns dc))"

definition md_summary :: "compare_report \<Rightarrow> string" where
  "md_summary r =
    ''### Summary'' @ nl @ nl
     @ ''- '' @ nat_str (length (SchemaChanges r)) @ '' schema change(s), **''
       @ nat_str (BreakingCount r) @ '' breaking**'' @ nl
     @ ''- '' @ nat_str (length (DataChanges r)) @ '' table(s) with data drift, **''
       @ nat_str (NotableDataCount r) @ '' notable**'' @ nl"

definition renderMarkdown :: "compare_report \<Rightarrow> string" where
  "renderMarkdown r =
    ''## Snapshot compare: '' @ md_code (FromLabel r) @ '' '' @ arrow @ '' '' @ md_code (ToLabel r) @ nl @ nl
     @ ''### Schema changes'' @ nl @ nl
     @ (if SchemaChanges r = [] then ''_No schema changes._'' @ nl @ nl
        else ''| Change | Target | Detail | Breaking |'' @ nl
          @ ''| --- | --- | --- | --- |'' @ nl
          @ concat (map md_schema_row (SchemaChanges r)) @ nl)
     @ ''### Data changes'' @ nl @ nl
     @ (if DataChanges r = [] then ''_No data drift._'' @ nl @ nl
        else concat (map md_data_item (DataChanges r)) @ nl)
     @ md_summary r"

section \<open>Choice of the format\<close>

datatype report_error = MarshalReport string

definition FormatReport ::
  "(compare_report \<Rightarrow> string + string) \<Rightarrow> (nat \<Rightarrow> bool) \<Rightarrow> compare_report \<Rightarrow> string \<Rightarrow> report_error + string"
  where
  "FormatReport marshal uni_print r format =
    (if format = ''json'' then
       (case marshal r of Inl e \<Rightarrow> Inl (MarshalReport (''marshal report: '' @ e)) | Inr b \<Rightarrow> Inr b)
     else if format = ''markdown'' then Inr (renderMarkdown r)
     else Inr (renderText uni_print r))"

section \<open>Lines of the text report\<close>

definition plain_change :: "schema_change \<Rightarrow> bool" where
  "plain_change c \<longleftrightarrow> line_count (sc_table c) = 0 \<and> line_count (sc_column c) = 0
     \<and> line_count (sc_detail c) = 0"

definition plain_data :: "data_change \<Rightarrow> bool" where
  "plain_data d \<longleftrightarrow> line_count (dc_table d) = 0 \<and> line_count (dc_note d) = 0
     \<and> list_all (\<lambda>cc. line_count (cc_column cc) = 0) (dc_columns d)"

text \<open>A table takes a line for its name, one for its rows, one for its note and one or two per column.\<close>

definition data_lines :: "data_change \<Rightarrow> nat" where
  "data_lines d = 2 + (if dc_note d = [] then 0 else 1) + length (dc_columns d)
     + length [cc \<leftarrow> dc_columns d. cc_null_from cc \<noteq> cc_null_to cc]"

lemma literal_lines [simp]:
  "line_count nl = 1" "line_count arrow = 0" "line_count emdash = 0" "line_count warn_sign = 0"
  "line_count dquote = 0"
  by (simp_all add: literal_defs)

lemma text_schema_line_lines: "plain_change c \<Longrightarrow> line_count (text_schema_line c) = 1"
  by (simp add: plain_change_def text_schema_line_def change_target_def kind_text_def
      split: change_kind.split)

lemma text_column_lines_lines:
  "line_count (cc_column cc) = 0 \<Longrightarrow>
     line_count (text_column_lines cc) = (if cc_null_from cc \<noteq> cc_null_to cc then 2 else 1)"
  by (simp add: text_column_lines_def)

lemma text_columns_lines:
  "list_all (\<lambda>cc. line_count (cc_column cc) = 0) ccs \<Longrightarrow>
     line_count (concat (map text_column_lines ccs))
       = length ccs + length [cc \<leftarrow> ccs. cc_null_from cc \<noteq> cc_null_to cc]"
  by (induction ccs) (simp_all add: text_column_lines_lines)

lemma text_data_lines_lines: "plain_data d \<Longrightarrow> line_count (text_data_lines d) = data_lines d"
  by (simp add: plain_data_def text_data_lines_def data_lines_def text_columns_lines)

lemma text_header_lines: "line_count (text_header uni_print r) = 2"
  by (simp add: text_header_def)

lemma text_summary_lines: "line_count (text_summary r) = 4"
  by (simp add: text_summary_def)

text \<open>
  In the text report every schema change takes exactly one line, every table a line for
  its name, one for its row counts, one for a note, and per column one line, two when its
  NULL count moved; an empty section takes one. The labels may be any text, line ends
  included: they are quoted. Only table names, column names, types and defaults that contain
  a line end themselves would break the layout.
\<close>

theorem renderText_layout:
  assumes "list_all plain_change (SchemaChanges r)" and "list_all plain_data (DataChanges r)"
  shows "line_count (renderText uni_print r) =
    9 + (if SchemaChanges r = [] then 1 else length (SchemaChanges r))
      + (if DataChanges r = [] then 1 else sum_list (map data_lines (DataChanges r)))"
proof -
  have "line_count (concat (map text_schema_line cs)) = length cs" if "list_all plain_change cs" for cs
    using that by (induction cs) (simp_all add: text_schema_line_lines)
  moreover have "line_count (concat (map text_data_lines ds)) = sum_list (map data_lines ds)"
    if "list_all plain_data ds" for ds
    using that by (induction ds) (simp_all add: text_data_lines_lines)
  ultimately show ?thesis
    using assms by (simp add: renderText_def text_header_lines text_summary_lines)
qed

definition demo_report :: compare_report where
  "demo_report =
    \<lparr>FromLabel = ''before'' @ nl, ToLabel = ''now'',
     SchemaChanges = [\<lparr>sc_kind = ChangeRemoved, sc_table = ''public.users'', sc_column = ''email'',
       sc_detail = ''column removed'', sc_breaking = True\<rparr>],
     DataChanges = [\<lparr>dc_table = ''public.users'', dc_rows_from = 3, dc_rows_to = 4,
       dc_columns = [\<lparr>cc_column = ''name'', cc_null_from = 2, cc_null_to = 0, cc_non_null_from = 1,
         cc_non_null_to = 4, cc_distinct_from = 1, cc_distinct_to = 4, cc_notable = True\<rparr>],
       dc_note = []\<rparr>]\<rparr>"

theorem renderText_layout_witness:
  "line_count (renderText (\<lambda>_. True) demo_report) = 14"
  using renderText_layout [of demo_report "\<lambda>_. True"]
  by (simp add: demo_report_def plain_change_def plain_data_def data_lines_def)

end
