(* ===== verification/Capturer.thy ===== *)
theory Capturer
  imports Snapshot_Types
begin

text \<open>
  \<open>internal/snapshot/capturer.go\<close>: a snapshot of a database, taken over one connection. The
  connection and the server behind it are an argument: the record \<open>db_api\<close> of the five
  queries the source sends, each of which takes the state of the connection and returns the
  state it leaves. \<open>db_clock\<close> is the time in nanoseconds at which a context with a timeout
  is created. \<open>pgx.Identifier.Sanitize\<close> is the argument \<open>sanitize\<close>, the random UUID the
  argument \<open>uuid\<close>. Log lines are not modelled.
\<close>

section \<open>Options\<close>

record options =
  PerTableTimeout :: int
  LargeTableThreshold :: int
  IncludeTables :: "string list"
  ExcludeTables :: "string list"

definition defaultPerTableTimeout :: int where
  "defaultPerTableTimeout = 30 * ns_per_s"

definition defaultLargeTableThreshold :: int where
  "defaultLargeTableThreshold = 10000000"

definition perTableTimeout :: "options \<Rightarrow> int" where
  "perTableTimeout opt = (if PerTableTimeout opt > 0 then PerTableTimeout opt else defaultPerTableTimeout)"

definition largeTableThreshold :: "options \<Rightarrow> int" where
  "largeTableThreshold opt =
    (if LargeTableThreshold opt > 0 then LargeTableThreshold opt else defaultLargeTableThreshold)"

fun contains_name :: "string list \<Rightarrow> string \<Rightarrow> bool" where
  "contains_name [] want = False"
| "contains_name (v # vs) want = (v = want \<or> contains_name vs want)"

definition included :: "options \<Rightarrow> string \<Rightarrow> bool" where
  "included opt table =
    (if length (IncludeTables opt) > 0 then contains_name (IncludeTables opt) table
     else if length (ExcludeTables opt) > 0 then \<not> contains_name (ExcludeTables opt) table
     else True)"

section \<open>Queries\<close>

text \<open>
  The outcome of a query with rows: it failed, or its rows, each scanned or failing to scan,
  and the error the iteration ends with.
\<close>

datatype 'r rows = QueryError string | Rows "(string + 'r) list" "string option"

record column_row =
  cr_name :: string
  cr_data_type :: string
  cr_nullable :: string
  cr_default :: string
  cr_position :: int

record stats_row =
  sr_non_null :: int
  sr_distinct :: int
  sr_min :: "string option"
  sr_max :: "string option"

record 'c db_api =
  db_clock :: "'c \<Rightarrow> int"
  q_tables :: "'c \<Rightarrow> (string \<times> string) rows \<times> 'c"
  q_columns :: "'c \<Rightarrow> string \<Rightarrow> string \<Rightarrow> column_row rows \<times> 'c"
  q_indexes :: "'c \<Rightarrow> string \<Rightarrow> string \<Rightarrow> string rows \<times> 'c"
  q_count :: "'c \<Rightarrow> int \<Rightarrow> string \<Rightarrow> (string + int) \<times> 'c"
  q_stats :: "'c \<Rightarrow> int \<Rightarrow> string \<Rightarrow> string \<Rightarrow> (string + stats_row) \<times> 'c"

fun scan_all :: "string \<Rightarrow> (string + 'r) list \<Rightarrow> string option \<Rightarrow> string + 'r list" where
  "scan_all on_scan [] end_err = (case end_err of None \<Rightarrow> Inr [] | Some e \<Rightarrow> Inl e)"
| "scan_all on_scan (Inl e # rs) end_err = Inl (on_scan @ e)"
| "scan_all on_scan (Inr r # rs) end_err =
     (case scan_all on_scan rs end_err of Inl e \<Rightarrow> Inl e | Inr out \<Rightarrow> Inr (r # out))"

fun read_rows :: "string \<Rightarrow> string \<Rightarrow> 'r rows \<Rightarrow> string + 'r list" where
  "read_rows on_query on_scan (QueryError e) = Inl (on_query @ e)"
| "read_rows on_query on_scan (Rows rs end_err) = scan_all on_scan rs end_err"

definition listTables :: "'c db_api \<Rightarrow> 'c \<Rightarrow> (string + (string \<times> string) list) \<times> 'c" where
  "listTables api c =
    (case q_tables api c of (r, c') \<Rightarrow> (read_rows ''list tables: '' ''scan table row: '' r, c'))"

definition column_of_row :: "column_row \<Rightarrow> column_schema" where
  "column_of_row r =
    \<lparr>cs_name = cr_name r, cs_data_type = cr_data_type r, cs_nullable = (cr_nullable r = ''YES''),
     cs_default = cr_default r, cs_position = cr_position r\<rparr>"

definition captureSchema :: "'c db_api \<Rightarrow> 'c \<Rightarrow> string \<Rightarrow> string \<Rightarrow> (string + table_schema) \<times> 'c" where
  "captureSchema api c schema table =
    (case q_columns api c schema table of (r, c1) \<Rightarrow>
       (case read_rows ''query columns: '' ''scan column: '' r of
          Inl e \<Rightarrow> (Inl e, c1)
        | Inr cols \<Rightarrow>
            (case q_indexes api c1 schema table of (ri, c2) \<Rightarrow>
               (case read_rows ''query indexes: '' ''scan index: '' ri of
                  Inl e \<Rightarrow> (Inl e, c2)
                | Inr idx \<Rightarrow>
                    (Inr \<lparr>ts_schema = schema, ts_name = table, ts_columns = map column_of_row cols,
                       ts_indexes = idx\<rparr>, c2)))))"

section \<open>Statistics of one table\<close>

definition queryRowCount :: "'c db_api \<Rightarrow> 'c \<Rightarrow> int \<Rightarrow> string \<Rightarrow> (string + int) \<times> 'c" where
  "queryRowCount api c deadline ident = q_count api c deadline ident"

definition queryColumnStats ::
  "'c db_api \<Rightarrow> (string list \<Rightarrow> string) \<Rightarrow> 'c \<Rightarrow> int \<Rightarrow> string \<Rightarrow> string \<Rightarrow> (string + column_stats) \<times> 'c" where
  "queryColumnStats api sanitize c deadline ident column =
    (case q_stats api c deadline ident (sanitize [column]) of (r, c') \<Rightarrow>
       (case r of
          Inl e \<Rightarrow> (Inl e, c')
        | Inr row \<Rightarrow>
            (Inr \<lparr>st_non_null = sr_non_null row, st_null = 0, st_distinct = sr_distinct row,
               st_min = (case sr_min row of None \<Rightarrow> [] | Some m \<Rightarrow> m),
               st_max = (case sr_max row of None \<Rightarrow> [] | Some m \<Rightarrow> m)\<rparr>, c')))"

text \<open>The loop over the columns, which ends at the first column whose query fails.\<close>

fun column_stats_loop ::
  "'c db_api \<Rightarrow> (string list \<Rightarrow> string) \<Rightarrow> int \<Rightarrow> string \<Rightarrow> int \<Rightarrow> 'c \<Rightarrow> column_schema list \<Rightarrow>
     table_statistics \<Rightarrow> table_statistics \<times> 'c" where
  "column_stats_loop api sanitize deadline ident row_count c [] st = (st, c)"
| "column_stats_loop api sanitize deadline ident row_count c (col # cols) st =
    (case queryColumnStats api sanitize c deadline ident (cs_name col) of
       (Inl e, c') \<Rightarrow>
         (st\<lparr>tst_skipped := True,
            tst_skipped_reason := ''column stats failed for '' @ cs_name col @ '': '' @ e\<rparr>, c')
     | (Inr cs, c') \<Rightarrow>
         column_stats_loop api sanitize deadline ident row_count c' cols
           (st\<lparr>tst_columns := AList.update (cs_name col) (cs\<lparr>st_null := row_count - st_non_null cs\<rparr>)
              (tst_columns st)\<rparr>))"

definition captureStatistics ::
  "'c db_api \<Rightarrow> (string list \<Rightarrow> string) \<Rightarrow> options \<Rightarrow> 'c \<Rightarrow> string \<Rightarrow> string \<Rightarrow> table_schema \<Rightarrow>
     table_statistics \<times> 'c" where
  "captureStatistics api sanitize opt c schema table ts =
    (let key = qualifiedName schema table;
         st = \<lparr>tst_table = key, tst_row_count = 0, tst_columns = [], tst_skipped = False,
               tst_skipped_reason = []\<rparr>;
         deadline = db_clock api c + perTableTimeout opt;
         ident = sanitize [schema, table]
     in case queryRowCount api c deadline ident of
          (Inl e, c') \<Rightarrow>
            (st\<lparr>tst_skipped := True, tst_skipped_reason := ''row count failed: '' @ e\<rparr>, c')
        | (Inr n, c') \<Rightarrow>
            (let st1 = st\<lparr>tst_row_count := n\<rparr>
             in if n > largeTableThreshold opt then
                  (st1\<lparr>tst_skipped := True,
                     tst_skipped_reason := ''large table ('' @ itoa n @ '' rows) '' @ emdash
                       @ '' per-column stats skipped''\<rparr>, c')
                else column_stats_loop api sanitize deadline ident n c' (ts_columns ts) st1))"

section \<open>The whole snapshot\<close>

fun capture_loop ::
  "'c db_api \<Rightarrow> (string list \<Rightarrow> string) \<Rightarrow> options \<Rightarrow> 'c \<Rightarrow> (string \<times> string) list \<Rightarrow> snapshot \<Rightarrow>
     (string + snapshot) \<times> 'c" where
  "capture_loop api sanitize opt c [] snap = (Inr snap, c)"
| "capture_loop api sanitize opt c ((schema, name) # tbls) snap =
    (if \<not> included opt name then capture_loop api sanitize opt c tbls snap
     else
       (let key = qualifiedName schema name
        in case captureSchema api c schema name of
             (Inl e, c1) \<Rightarrow> (Inl (''capture schema for '' @ key @ '': '' @ e), c1)
           | (Inr ts, c1) \<Rightarrow>
               (case captureStatistics api sanitize opt c1 schema name ts of (st, c2) \<Rightarrow>
                  capture_loop api sanitize opt c2 tbls
                    (snap\<lparr>snap_schema := \<lparr>ss_tables = AList.update key ts (ss_tables (snap_schema snap))\<rparr>,
                       snap_statistics := AList.update key st (snap_statistics snap)\<rparr>))))"

definition Capture ::
  "'c db_api \<Rightarrow> (string list \<Rightarrow> string) \<Rightarrow> options \<Rightarrow> string \<Rightarrow> go_time \<Rightarrow> go_time \<Rightarrow> 'c \<Rightarrow> string \<Rightarrow>
     (string + snapshot) \<times> 'c" where
  "Capture api sanitize opt uuid now_label now c label =
    (let label' = (if label = [] then ''snapshot-'' @ fmt_stamp now_label else label);
         snap = \<lparr>snap_id = ''snap_'' @ take 8 uuid, snap_label = label', snap_captured_at = now,
                 snap_schema = \<lparr>ss_tables = []\<rparr>, snap_statistics = []\<rparr>
     in case listTables api c of
          (Inl e, c') \<Rightarrow> (Inl e, c')
        | (Inr tbls, c') \<Rightarrow> capture_loop api sanitize opt c' tbls snap)"

section \<open>What a captured table satisfies\<close>

text \<open>
  The statistics of a table agree with themselves and with its schema: every recorded column
  accounts for all rows, a table that is not skipped has all its columns and is not above the
  threshold, and a skipped one says why.
\<close>

definition consistent_stats :: "options \<Rightarrow> string \<Rightarrow> table_schema \<Rightarrow> table_statistics \<Rightarrow> bool" where
  "consistent_stats opt key ts st \<longleftrightarrow> tst_table st = key
     \<and> (\<forall>col cs. map_of (tst_columns st) col = Some cs \<longrightarrow>
          col \<in> cs_name ` set (ts_columns ts) \<and> st_null cs + st_non_null cs = tst_row_count st)
     \<and> (if tst_skipped st then tst_skipped_reason st \<noteq> []
        else fst ` set (tst_columns st) = cs_name ` set (ts_columns ts)
          \<and> tst_row_count st \<le> largeTableThreshold opt)"

lemma contains_name_iff [simp]: "contains_name vs x \<longleftrightarrow> x \<in> set vs"
  by (induction vs) auto

lemma column_stats_loop_inv:
  assumes "tst_row_count st = n" and "\<not> tst_skipped st" and "fst ` set (tst_columns st) = A"
    and "\<And>col cs. map_of (tst_columns st) col = Some cs \<Longrightarrow> st_null cs + st_non_null cs = n"
    and "column_stats_loop api sanitize deadline ident n c cols st = (st', c')"
  shows "tst_table st' = tst_table st \<and> tst_row_count st' = n
    \<and> fst ` set (tst_columns st') \<subseteq> A \<union> cs_name ` set cols
    \<and> (\<forall>col cs. map_of (tst_columns st') col = Some cs \<longrightarrow> st_null cs + st_non_null cs = n)
    \<and> (if tst_skipped st' then tst_skipped_reason st' \<noteq> []
       else fst ` set (tst_columns st') = A \<union> cs_name ` set cols)"
  using assms
proof (induction cols arbitrary: st c A)
  case (Cons col cols)
  obtain r d where q: "queryColumnStats api sanitize c deadline ident (cs_name col) = (r, d)"
    by (cases "queryColumnStats api sanitize c deadline ident (cs_name col)")
  show ?case
  proof (cases r)
    case (Inl e)
    with q Cons.prems(5) have "st' = st\<lparr>tst_skipped := True,
        tst_skipped_reason := ''column stats failed for '' @ cs_name col @ '': '' @ e\<rparr>" by simp
    with Cons.prems(1-4) show ?thesis by auto
  next
    case (Inr cs)
    let ?cs = "cs\<lparr>st_null := n - st_non_null cs\<rparr>"
    let ?st = "st\<lparr>tst_columns := AList.update (cs_name col) ?cs (tst_columns st)\<rparr>"
    have run: "column_stats_loop api sanitize deadline ident n d cols ?st = (st', c')"
      using Cons.prems(5) q Inr by simp
    have sum: "st_null cs' + st_non_null cs' = n"
      if "map_of (tst_columns ?st) col' = Some cs'" for col' cs'
      using that Cons.prems(4) [of col' cs'] by (simp add: map_of_update split: if_splits) auto
    have keys: "fst ` set (tst_columns ?st) = insert (cs_name col) A"
      using Cons.prems(3) by (simp add: keys_update)
    from Cons.IH [of ?st "insert (cs_name col) A" d, OF _ _ keys sum run] Cons.prems(1,2) show ?thesis
      by simp
  qed
qed auto

lemma captureStatistics_consistent:
  assumes "captureStatistics api sanitize opt c schema name ts = (st, c')"
  shows "consistent_stats opt (qualifiedName schema name) ts st"
proof -
  let ?n = "q_count api c (db_clock api c + perTableTimeout opt) (sanitize [schema, name])"
  let ?st = "\<lambda>n. \<lparr>tst_table = qualifiedName schema name, tst_row_count = n, tst_columns = [],
    tst_skipped = False, tst_skipped_reason = []\<rparr>"
  obtain r d where q: "?n = (r, d)" by (cases ?n)
  show ?thesis
  proof (cases r)
    case (Inl e)
    with q assms show ?thesis
      by (auto simp: captureStatistics_def queryRowCount_def consistent_stats_def)
  next
    case (Inr n)
    show ?thesis
    proof (cases "largeTableThreshold opt < n")
      case True
      with Inr q assms show ?thesis
        by (auto simp: captureStatistics_def queryRowCount_def consistent_stats_def)
    next
      case False
      with Inr q assms have "column_stats_loop api sanitize (db_clock api c + perTableTimeout opt)
          (sanitize [schema, name]) n d (ts_columns ts) (?st n) = (st, c')"
        by (simp add: captureStatistics_def queryRowCount_def Let_def)
      from column_stats_loop_inv [OF _ _ refl _ this] False show ?thesis
        by (auto simp: consistent_stats_def map_of_in_fst split: if_splits dest: map_of_in_fst)
    qed
  qed
qed

text \<open>The tables a capture is asked for, by key.\<close>

definition wanted :: "options \<Rightarrow> (string \<times> string) list \<Rightarrow> string set" where
  "wanted opt tbls = {qualifiedName s t |s t. (s, t) \<in> set tbls \<and> included opt t}"

lemma wanted_simps [simp]:
  "wanted opt [] = {}"
  "wanted opt ((s, t) # tbls) = (if included opt t then insert (qualifiedName s t) (wanted opt tbls)
     else wanted opt tbls)"
  by (auto simp: wanted_def)

definition capture_inv :: "options \<Rightarrow> snapshot \<Rightarrow> bool" where
  "capture_inv opt snap \<longleftrightarrow>
     map fst (ss_tables (snap_schema snap)) = map fst (snap_statistics snap)
     \<and> distinct (map fst (snap_statistics snap))
     \<and> (\<forall>key ts st. map_of (ss_tables (snap_schema snap)) key = Some ts
          \<longrightarrow> map_of (snap_statistics snap) key = Some st \<longrightarrow> consistent_stats opt key ts st)"

lemma capture_loop_inv:
  assumes "capture_inv opt snap" and "capture_loop api sanitize opt c tbls snap = (Inr snap', c')"
  shows "capture_inv opt snap'
    \<and> fst ` set (snap_statistics snap') = fst ` set (snap_statistics snap) \<union> wanted opt tbls
    \<and> snap_label snap' = snap_label snap \<and> snap_id snap' = snap_id snap
    \<and> snap_captured_at snap' = snap_captured_at snap"
  using assms
proof (induction tbls arbitrary: c snap)
  case (Cons tbl tbls)
  obtain s t where tbl: "tbl = (s, t)" by (cases tbl)
  show ?case
  proof (cases "included opt t")
    case True
    let ?key = "qualifiedName s t"
    from Cons.prems(2) tbl True obtain ts c1 where schema: "captureSchema api c s t = (Inr ts, c1)"
      by (auto simp: Let_def split: prod.splits sum.splits)
    obtain st c2 where stats: "captureStatistics api sanitize opt c1 s t ts = (st, c2)"
      by (cases "captureStatistics api sanitize opt c1 s t ts")
    let ?snap = "snap\<lparr>snap_schema := \<lparr>ss_tables = AList.update ?key ts (ss_tables (snap_schema snap))\<rparr>,
      snap_statistics := AList.update ?key st (snap_statistics snap)\<rparr>"
    have "capture_inv opt ?snap"
      using Cons.prems(1) captureStatistics_consistent [OF stats]
      by (auto simp: capture_inv_def update_keys map_of_update distinct_update)
    moreover have "capture_loop api sanitize opt c2 tbls ?snap = (Inr snap', c')"
      using Cons.prems(2) tbl True schema stats by (simp add: Let_def)
    ultimately show ?thesis
      using Cons.IH tbl True by (simp add: keys_update)
  next
    case False
    with Cons tbl show ?thesis by simp
  qed
qed simp

section \<open>Properties\<close>

text \<open>
  C34. A capture that succeeds describes exactly the tables that the include and exclude lists
  let through, with a schema and statistics for each under the same key and none twice. The
  statistics agree with themselves: in every recorded column NULL and non-NULL values add up
  to the row count; a table that is not skipped has an entry for each of its columns and does
  not exceed the row threshold; a skipped one carries its reason.
\<close>

theorem capture_complete:
  assumes "Capture api sanitize opt uuid now_label now c label = (Inr snap, c')"
  shows "\<exists>tbls. fst (listTables api c) = Inr tbls
    \<and> map fst (ss_tables (snap_schema snap)) = map fst (snap_statistics snap)
    \<and> distinct (map fst (snap_statistics snap))
    \<and> fst ` set (snap_statistics snap) = wanted opt tbls
    \<and> (\<forall>key ts st. map_of (ss_tables (snap_schema snap)) key = Some ts
        \<longrightarrow> map_of (snap_statistics snap) key = Some st \<longrightarrow> consistent_stats opt key ts st)"
proof -
  from assms obtain tbls c1 snap0 where list: "listTables api c = (Inr tbls, c1)"
      and loop: "capture_loop api sanitize opt c1 tbls snap0 = (Inr snap, c')"
      and empty: "ss_tables (snap_schema snap0) = []" "snap_statistics snap0 = []"
    by (auto simp: Capture_def Let_def split: prod.splits sum.splits)
  have "capture_inv opt snap0" by (simp add: capture_inv_def empty)
  from capture_loop_inv [OF this loop] list empty show ?thesis by (auto simp: capture_inv_def)
qed

text \<open>A server with two tables, the second of which cannot be counted.\<close>

definition demo_api :: "unit db_api" where
  "demo_api =
    \<lparr>db_clock = (\<lambda>c. 0),
     q_tables = (\<lambda>c. (Rows [Inr (''public'', ''a''), Inr (''public'', ''b'')] None, c)),
     q_columns = (\<lambda>c s t. (Rows [Inr \<lparr>cr_name = ''id'', cr_data_type = ''integer'', cr_nullable = ''NO'',
       cr_default = [], cr_position = 1\<rparr>] None, c)),
     q_indexes = (\<lambda>c s t. (Rows [] None, c)),
     q_count = (\<lambda>c deadline ident. (if ident = ''b'' then Inl ''permission denied'' else Inr 3, c)),
     q_stats = (\<lambda>c deadline ident col. (Inr \<lparr>sr_non_null = 2, sr_distinct = 2, sr_min = None,
       sr_max = None\<rparr>, c))\<rparr>"

definition demo_options :: options where
  "demo_options = \<lparr>PerTableTimeout = 0, LargeTableThreshold = 0, IncludeTables = [], ExcludeTables = []\<rparr>"

definition demo_capture :: "(string + snapshot) \<times> unit" where
  "demo_capture = Capture demo_api last demo_options ''0123456789'' zero_time zero_time () ''base''"

lemma demo_capture_ok:
  "demo_capture = (Inr \<lparr>snap_id = ''snap_01234567'', snap_label = ''base'', snap_captured_at = zero_time,
     snap_schema = \<lparr>ss_tables =
       [(''public.a'', \<lparr>ts_schema = ''public'', ts_name = ''a'', ts_columns = [\<lparr>cs_name = ''id'',
          cs_data_type = ''integer'', cs_nullable = False, cs_default = [], cs_position = 1\<rparr>], ts_indexes = []\<rparr>),
        (''public.b'', \<lparr>ts_schema = ''public'', ts_name = ''b'', ts_columns = [\<lparr>cs_name = ''id'',
          cs_data_type = ''integer'', cs_nullable = False, cs_default = [], cs_position = 1\<rparr>], ts_indexes = []\<rparr>)]\<rparr>,
     snap_statistics =
       [(''public.a'', \<lparr>tst_table = ''public.a'', tst_row_count = 3,
          tst_columns = [(''id'', \<lparr>st_non_null = 2, st_null = 1, st_distinct = 2, st_min = [], st_max = []\<rparr>)],
          tst_skipped = False, tst_skipped_reason = []\<rparr>),
        (''public.b'', \<lparr>tst_table = ''public.b'', tst_row_count = 0, tst_columns = [], tst_skipped = True,
          tst_skipped_reason = ''row count failed: permission denied''\<rparr>)]\<rparr>, ())"
  by (simp add: demo_capture_def demo_api_def demo_options_def Capture_def listTables_def included_def
      captureSchema_def column_of_row_def captureStatistics_def queryRowCount_def queryColumnStats_def
      qualifiedName_def largeTableThreshold_def defaultLargeTableThreshold_def Let_def)

lemma demo_tables: "listTables demo_api () = (Inr [(''public'', ''a''), (''public'', ''b'')], ())"
  by (simp add: listTables_def demo_api_def)

theorem capture_complete_witness:
  "\<exists>snap. demo_capture = (Inr snap, ())
    \<and> fst ` set (snap_statistics snap) = wanted demo_options [(''public'', ''a''), (''public'', ''b'')]"
proof -
  obtain snap where run: "demo_capture = (Inr snap, ())" using demo_capture_ok by blast
  from capture_complete [OF run [unfolded demo_capture_def]]
  have "fst ` set (snap_statistics snap) = wanted demo_options [(''public'', ''a''), (''public'', ''b'')]"
    by (simp only: demo_tables fst_conv sum.inject) blast
  with run show ?thesis by blast
qed

lemma capture_loop_total:
  assumes "\<And>c s t. is_ok (fst (captureSchema api c s t))"
  shows "is_ok (fst (capture_loop api sanitize opt c tbls snap))"
proof (induction tbls arbitrary: c snap)
  case (Cons tbl tbls)
  obtain s t where tbl: "tbl = (s, t)" by (cases tbl)
  obtain ts c1 where "captureSchema api c s t = (Inr ts, c1)"
    using assms [of c s t] by (cases "captureSchema api c s t") (auto simp: is_ok_iff)
  then show ?case
    using Cons.IH by (simp add: tbl Let_def split: prod.split)
qed simp

text \<open>
  Statistics never fail a snapshot by themselves: while the catalogue queries (tables,
  columns, indexes) succeed in every state of the connection, a capture succeeds, whatever
  the counting queries return.
\<close>

theorem statistics_never_abort:
  assumes "is_ok (fst (listTables api c))" and "\<And>c s t. is_ok (fst (captureSchema api c s t))"
  shows "is_ok (fst (Capture api sanitize opt uuid now_label now c label))"
proof -
  obtain tbls c1 where "listTables api c = (Inr tbls, c1)"
    using assms(1) by (cases "listTables api c") (auto simp: is_ok_iff)
  then show ?thesis by (simp add: Capture_def Let_def capture_loop_total assms(2))
qed

theorem statistics_never_abort_witness: "is_ok (fst demo_capture)"
  unfolding demo_capture_def
  by (rule statistics_never_abort)
     (simp_all add: demo_api_def listTables_def captureSchema_def)

text \<open>
  The isolation stops at the connection: when counting the first table fails in a way
  that leaves the connection unusable, as a deadline does with a driver that closes the
  connection of an interrupted query, the next included table aborts the whole snapshot. The
  per-table timeout therefore does not confine a slow table to a skipped entry.
\<close>

theorem broken_connection_aborts:
  assumes "q_tables api c = (Rows (Inr (s1, t1) # Inr (s2, t2) # rest) None, c0)"
    and "is_ok (fst (listTables api c))"
    and "included opt t1" and "included opt t2"
    and "captureSchema api c0 s1 t1 = (Inr ts, c1)"
    and "q_count api c1 (db_clock api c1 + perTableTimeout opt) (sanitize [s1, t1]) = (Inl e, broken)"
    and "q_columns api broken s2 t2 = (QueryError closed_err, d)"
  shows "Capture api sanitize opt uuid now_label now c label =
    (Inl (''capture schema for '' @ qualifiedName s2 t2 @ '': '' @ ''query columns: '' @ closed_err), d)"
proof -
  obtain tbls where tbls: "listTables api c = (Inr ((s1, t1) # (s2, t2) # tbls), c0)"
    using assms(1,2) by (auto simp: listTables_def is_ok_iff split: sum.splits)
  have "captureSchema api broken s2 t2 = (Inl (''query columns: '' @ closed_err), d)"
    by (simp add: captureSchema_def assms(7))
  moreover obtain st where "captureStatistics api sanitize opt c1 s1 t1 ts = (st, broken)"
    by (simp add: captureStatistics_def queryRowCount_def assms(6) Let_def)
  ultimately show ?thesis using assms(3,4,5) tbls by (simp add: Capture_def Let_def)
qed

text \<open>A connection that a failed count closes: its state is whether it is still open.\<close>

definition closing_api :: "bool db_api" where
  "closing_api =
    \<lparr>db_clock = (\<lambda>c. 0),
     q_tables = (\<lambda>c. (Rows [Inr (''public'', ''a''), Inr (''public'', ''b'')] None, c)),
     q_columns = (\<lambda>c s t. (if c then Rows [] None else QueryError ''conn closed'', c)),
     q_indexes = (\<lambda>c s t. (Rows [] None, c)),
     q_count = (\<lambda>c deadline ident. (Inl ''timeout: context deadline exceeded'', False)),
     q_stats = (\<lambda>c deadline ident col. (Inl ''conn closed'', c))\<rparr>"

theorem broken_connection_aborts_witness:
  "Capture closing_api last demo_options ''0123456789'' zero_time zero_time True ''base'' =
    (Inl ''capture schema for public.b: query columns: conn closed'', False)"
  using broken_connection_aborts [of closing_api True "''public''" "''a''" "''public''" "''b''" "[]" True
      demo_options "\<lparr>ts_schema = ''public'', ts_name = ''a'', ts_columns = [], ts_indexes = []\<rparr>" True last
      "''timeout: context deadline exceeded''" False "''conn closed''" False]
  by (simp add: closing_api_def demo_options_def listTables_def included_def captureSchema_def
      qualifiedName_def)

end
