(* ===== verification/Storage.thy ===== *)
theory Storage
  imports Capturer "HOL-Library.Multiset"
begin

text \<open>
  \<open>internal/storage/db.go\<close>: the snapshot table of the SQLite file. The state is the list of
  rows of \<open>snapshots\<close>; a statement of the source is the function its SQL text denotes on
  that list, with the two uniqueness constraints of the schema. What SQLite and its driver do
  beyond that is the argument record \<open>sql_env\<close>: the JSON codec, the text of a timestamp, and
  the order in which rows with equal sort keys come out. A failure of the engine is the
  argument \<open>fault\<close>; a statement that fails changes nothing.
\<close>

section \<open>Rows, errors, environment\<close>

record snap_row =
  row_id :: string
  row_label :: string
  row_created :: string
  row_data :: string

type_synonym snap_db = "snap_row list"

record snapshot_meta =
  meta_id :: string
  meta_label :: string
  meta_created :: go_time

datatype storage_error = ErrNotFound | StorageError string

record sql_env =
  marshal :: "snapshot \<Rightarrow> string + string"
  unmarshal :: "string \<Rightarrow> string + snapshot"
  enc_time :: "go_time \<Rightarrow> string"
  dec_time :: "string \<Rightarrow> string + go_time"
  created_desc :: "snap_db \<Rightarrow> snap_db"
  printable :: "nat \<Rightarrow> bool"

definition unique_rows :: "snap_db \<Rightarrow> bool" where
  "unique_rows db \<longleftrightarrow> distinct (map row_label db) \<and> distinct (map row_id db)"

section \<open>Statements\<close>

text \<open>
  \<open>INSERT ... ON CONFLICT(label) DO UPDATE\<close>: a row with the label is overwritten in place,
  else the row is added. The clause names the label only, so an \<open>id\<close> that another row holds
  violates the primary key, in the insertion and in the update.
\<close>

definition upsert :: "snap_row \<Rightarrow> snap_db \<Rightarrow> string + snap_db" where
  "upsert r db =
    (if list_ex (\<lambda>x. row_id x = row_id r \<and> row_label x \<noteq> row_label r) db then
       Inl ''UNIQUE constraint failed: snapshots.id''
     else if list_ex (\<lambda>x. row_label x = row_label r) db then
       Inr (map (\<lambda>x. if row_label x = row_label r then r else x) db)
     else Inr (db @ [r]))"

definition SaveSnapshot ::
  "sql_env \<Rightarrow> string option \<Rightarrow> snapshot \<Rightarrow> snap_db \<Rightarrow> (storage_error + unit) \<times> snap_db" where
  "SaveSnapshot env fault s db =
    (case marshal env s of
       Inl e \<Rightarrow> (Inl (StorageError (''marshal snapshot: '' @ e)), db)
     | Inr payload \<Rightarrow>
         (case (case fault of Some e \<Rightarrow> Inl e
                | None \<Rightarrow> upsert \<lparr>row_id = snap_id s, row_label = snap_label s,
                    row_created = enc_time env (snap_captured_at s), row_data = payload\<rparr> db) of
            Inl e \<Rightarrow> (Inl (StorageError (''save snapshot '' @ quote (printable env) (snap_label s) @ '': '' @ e)), db)
          | Inr db' \<Rightarrow> (Inr (), db')))"

definition LoadSnapshot :: "sql_env \<Rightarrow> string option \<Rightarrow> string \<Rightarrow> snap_db \<Rightarrow> storage_error + snapshot" where
  "LoadSnapshot env fault label db =
    (case fault of
       Some e \<Rightarrow> Inl (StorageError (''load snapshot '' @ quote (printable env) label @ '': '' @ e))
     | None \<Rightarrow>
         (case find (\<lambda>r. row_label r = label) db of
            None \<Rightarrow> Inl ErrNotFound
          | Some r \<Rightarrow>
              (case unmarshal env (row_data r) of
                 Inl e \<Rightarrow> Inl (StorageError (''decode snapshot '' @ quote (printable env) label @ '': '' @ e))
               | Inr s \<Rightarrow> Inr s)))"

definition scan_meta :: "sql_env \<Rightarrow> snap_row \<Rightarrow> string + snapshot_meta" where
  "scan_meta env r =
    (case dec_time env (row_created r) of Inl e \<Rightarrow> Inl e
     | Inr t \<Rightarrow> Inr \<lparr>meta_id = row_id r, meta_label = row_label r, meta_created = t\<rparr>)"

definition ListSnapshots ::
  "sql_env \<Rightarrow> string option \<Rightarrow> string option \<Rightarrow> snap_db \<Rightarrow> storage_error + snapshot_meta list" where
  "ListSnapshots env fault end_err db =
    (case read_rows ''list snapshots: '' ''scan snapshot meta: ''
            (case fault of Some e \<Rightarrow> QueryError e
             | None \<Rightarrow> Rows (map (scan_meta env) (created_desc env db)) end_err) of
       Inl e \<Rightarrow> Inl (StorageError e)
     | Inr out \<Rightarrow> Inr out)"

text \<open>\<open>affected_err\<close> is the outcome of \<open>RowsAffected\<close>, after the statement has run.\<close>

definition DeleteSnapshot ::
  "sql_env \<Rightarrow> string option \<Rightarrow> string option \<Rightarrow> string \<Rightarrow> snap_db \<Rightarrow> (storage_error + unit) \<times> snap_db" where
  "DeleteSnapshot env fault affected_err label db =
    (case fault of
       Some e \<Rightarrow> (Inl (StorageError (''delete snapshot '' @ quote (printable env) label @ '': '' @ e)), db)
     | None \<Rightarrow>
         (let db' = filter (\<lambda>r. row_label r \<noteq> label) db;
              n = length (filter (\<lambda>r. row_label r = label) db)
          in case affected_err of
               Some e \<Rightarrow>
                 (Inl (StorageError (''delete snapshot '' @ quote (printable env) label @ '': '' @ e)), db')
             | None \<Rightarrow> if n = 0 then (Inl ErrNotFound, db') else (Inr (), db')))"

section \<open>The contract of a snapshot repository\<close>

datatype 's repo_op = SaveOp 's | DeleteOp string

text \<open>The last thing a sequence of operations did to a label: nothing, stored, or deleted.\<close>

fun last_write :: "('s \<Rightarrow> string) \<Rightarrow> string \<Rightarrow> 's repo_op list \<Rightarrow> 's option option" where
  "last_write label_of l [] = None"
| "last_write label_of l (SaveOp s # ops) =
     (case last_write label_of l ops of
        None \<Rightarrow> if label_of s = l then Some (Some s) else None | w \<Rightarrow> w)"
| "last_write label_of l (DeleteOp k # ops) =
     (case last_write label_of l ops of
        None \<Rightarrow> if k = l then Some None else None | w \<Rightarrow> w)"

locale snapshot_repo =
  fixes save :: "'s \<Rightarrow> 'd \<Rightarrow> ('e + unit) \<times> 'd"
    and load :: "string \<Rightarrow> 'd \<Rightarrow> 'e + 's"
    and del :: "string \<Rightarrow> 'd \<Rightarrow> ('e + unit) \<times> 'd"
    and label_of :: "'s \<Rightarrow> string"
    and valid :: "'d \<Rightarrow> bool"
    and storable :: "'s \<Rightarrow> bool"
    and absent :: 'e
  assumes save_valid: "valid d \<Longrightarrow> save s d = (r, d') \<Longrightarrow> valid d'"
    and del_valid: "valid d \<Longrightarrow> del l d = (r, d') \<Longrightarrow> valid d'"
    and load_saved: "valid d \<Longrightarrow> storable s \<Longrightarrow> save s d = (Inr (), d') \<Longrightarrow> load (label_of s) d' = Inr s"
    and load_save_other: "save s d = (Inr (), d') \<Longrightarrow> l \<noteq> label_of s \<Longrightarrow> load l d' = load l d"
    and load_deleted: "del l d = (Inr (), d') \<Longrightarrow> load l d' = Inl absent"
    and load_del_other: "del k d = (Inr (), d') \<Longrightarrow> l \<noteq> k \<Longrightarrow> load l d' = load l d"
begin

definition run_op :: "'d \<Rightarrow> 's repo_op \<Rightarrow> 'e + 'd" where
  "run_op d op = (case (case op of SaveOp s \<Rightarrow> save s d | DeleteOp l \<Rightarrow> del l d) of
     (Inl e, d') \<Rightarrow> Inl e | (Inr _, d') \<Rightarrow> Inr d')"

lemma run_op_valid: "valid d \<Longrightarrow> run_op d op = Inr d' \<Longrightarrow> valid d'"
  by (cases op) (auto simp: run_op_def split: prod.splits sum.splits dest: save_valid del_valid)

lemma load_run_op:
  assumes "valid d" and "run_op d op = Inr d'" and "\<And>s. op = SaveOp s \<Longrightarrow> storable s"
  shows "load l d' = (case last_write label_of l [op] of None \<Rightarrow> load l d
     | Some None \<Rightarrow> Inl absent | Some (Some s) \<Rightarrow> Inr s)"
proof (cases op)
  case (SaveOp s)
  with assms(2) have "save s d = (Inr (), d')" by (auto simp: run_op_def split: prod.splits sum.splits)
  with SaveOp assms(1,3) show ?thesis by (auto simp: load_saved load_save_other)
next
  case (DeleteOp k)
  with assms(2) have "del k d = (Inr (), d')" by (auto simp: run_op_def split: prod.splits sum.splits)
  with DeleteOp show ?thesis by (auto simp: load_deleted load_del_other)
qed

lemma load_after_ops:
  assumes "valid d" and "fold_ok run_op d ops = Inr d'" and "\<And>s. SaveOp s \<in> set ops \<Longrightarrow> storable s"
  shows "load l d' = (case last_write label_of l ops of None \<Rightarrow> load l d
     | Some None \<Rightarrow> Inl absent | Some (Some s) \<Rightarrow> Inr s)"
  using assms
proof (induction ops arbitrary: d)
  case (Cons op ops)
  from Cons.prems(2) obtain d1 where d1: "run_op d op = Inr d1" "fold_ok run_op d1 ops = Inr d'"
    by (auto simp: and_then_Inr_iff)
  from Cons.IH [OF run_op_valid [OF Cons.prems(1) d1(1)] d1(2)] Cons.prems(3)
  have "load l d' = (case last_write label_of l ops of None \<Rightarrow> load l d1
     | Some None \<Rightarrow> Inl absent | Some (Some s) \<Rightarrow> Inr s)" by simp
  moreover have "load l d1 = (case last_write label_of l [op] of None \<Rightarrow> load l d
     | Some None \<Rightarrow> Inl absent | Some (Some s) \<Rightarrow> Inr s)"
    using Cons.prems by (intro load_run_op [OF _ d1(1)]) auto
  ultimately show ?case by (cases op) (auto split: option.splits)
qed simp

lemma valid_after_ops: "valid d \<Longrightarrow> fold_ok run_op d ops = Inr d' \<Longrightarrow> valid d'"
  by (induction ops arbitrary: d) (auto simp: and_then_Inr_iff dest: run_op_valid)

end

section \<open>The model keeps the contract\<close>

text \<open>A snapshot survives the codec of the environment.\<close>

definition codec_ok :: "sql_env \<Rightarrow> snapshot \<Rightarrow> bool" where
  "codec_ok env s \<longleftrightarrow> (case marshal env s of Inl _ \<Rightarrow> False | Inr p \<Rightarrow> unmarshal env p = Inr s)"

lemma upsert_cases:
  assumes "upsert r db = Inr db'"
  obtains "\<forall>x \<in> set db. row_id x = row_id r \<longrightarrow> row_label x = row_label r"
      "\<exists>x \<in> set db. row_label x = row_label r"
      "db' = map (\<lambda>x. if row_label x = row_label r then r else x) db"
    | "\<forall>x \<in> set db. row_id x = row_id r \<longrightarrow> row_label x = row_label r"
      "\<forall>x \<in> set db. row_label x \<noteq> row_label r" "db' = db @ [r]"
  using assms by (auto simp: upsert_def list_ex_iff split: if_splits)

lemma unique_rows_inj: "unique_rows db \<longleftrightarrow> distinct db \<and> inj_on row_label (set db) \<and> inj_on row_id (set db)"
  by (auto simp: unique_rows_def distinct_map)

lemma upsert_unique:
  assumes "unique_rows db" and "upsert r db = Inr db'"
  shows "unique_rows db'"
  using assms(2)
proof (cases rule: upsert_cases)
  case 1
  let ?f = "\<lambda>x. if row_label x = row_label r then r else x"
  have labels: "map row_label db' = map row_label db" by (simp add: 1(3))
  have "inj_on (row_id \<circ> ?f) (set db)"
  proof (rule inj_onI)
    fix x y
    assume xy: "x \<in> set db" "y \<in> set db" and eq: "(row_id \<circ> ?f) x = (row_id \<circ> ?f) y"
    have inj: "row_label x = row_label y \<Longrightarrow> x = y" "row_id x = row_id y \<Longrightarrow> x = y"
      using assms(1) xy by (auto simp: unique_rows_inj inj_on_def)
    show "x = y"
    proof (cases "row_label x = row_label r"; cases "row_label y = row_label r")
      assume "row_label x = row_label r" "row_label y \<noteq> row_label r"
      with eq 1(1) xy(2) show ?thesis by simp
    next
      assume "row_label x \<noteq> row_label r" "row_label y = row_label r"
      with eq 1(1) xy(1) show ?thesis by simp
    qed (use eq inj in simp_all)
  qed
  then have "distinct (map row_id db')"
    using assms(1) by (simp add: 1(3) distinct_map comp_def unique_rows_inj)
  with labels assms(1) show ?thesis by (simp add: unique_rows_def)
next
  case 2
  then have "row_id r \<notin> row_id ` set db" "row_label r \<notin> row_label ` set db" by force+
  with 2 assms(1) show ?thesis by (simp add: unique_rows_def)
qed

lemma find_map_label:
  "(\<And>x. row_label (f x) = row_label x) \<Longrightarrow>
     find (\<lambda>x. row_label x = l) (map f db) = map_option f (find (\<lambda>x. row_label x = l) db)"
  by (induction db) auto

lemma find_label: "find (\<lambda>x. row_label x = l) db = Some x \<Longrightarrow> row_label x = l \<and> x \<in> set db"
  by (auto simp: find_Some_iff)

lemma find_snoc: "find P (xs @ [x]) = (case find P xs of None \<Rightarrow> if P x then Some x else None | r \<Rightarrow> r)"
  by (induction xs) auto

lemma find_upsert:
  assumes "upsert r db = Inr db'"
  shows "find (\<lambda>x. row_label x = l) db' =
    (if l = row_label r then Some r else find (\<lambda>x. row_label x = l) db)"
  using assms
proof (cases rule: upsert_cases)
  case 1
  let ?f = "\<lambda>x. if row_label x = row_label r then r else x"
  have "find (\<lambda>x. row_label x = l) db' = map_option ?f (find (\<lambda>x. row_label x = l) db)"
    unfolding 1(3) by (rule find_map_label) simp
  moreover have "l \<noteq> row_label r" if "find (\<lambda>x. row_label x = l) db = None"
    using that 1(2) by (auto simp: find_None_iff)
  ultimately show ?thesis
    by (cases "find (\<lambda>x. row_label x = l) db") (auto dest!: find_label)
next
  case 2
  then show ?thesis
    by (cases "find (\<lambda>x. row_label x = l) db") (auto simp: find_snoc dest!: find_label)
qed

lemma find_filter_other:
  "find (\<lambda>x. row_label x = l) (filter (\<lambda>r. row_label r \<noteq> k) db) =
     (if l = k then None else find (\<lambda>x. row_label x = l) db)"
  by (induction db) auto

lemma SaveSnapshot_ok:
  "SaveSnapshot env fault s db = (Inr (), db') \<longleftrightarrow> fault = None \<and>
     (\<exists>p. marshal env s = Inr p \<and> upsert \<lparr>row_id = snap_id s, row_label = snap_label s,
        row_created = enc_time env (snap_captured_at s), row_data = p\<rparr> db = Inr db')"
  by (auto simp: SaveSnapshot_def split: sum.splits option.splits)

lemma SaveSnapshot_error: "SaveSnapshot env fault s db = (Inl e, db') \<Longrightarrow> db' = db"
  by (auto simp: SaveSnapshot_def split: sum.splits option.splits)

lemma SaveSnapshot_unique:
  "unique_rows db \<Longrightarrow> SaveSnapshot env fault s db = (r, db') \<Longrightarrow> unique_rows db'"
  by (cases r) (auto simp: SaveSnapshot_ok dest: SaveSnapshot_error upsert_unique)

lemma unique_rows_filter: "unique_rows db \<Longrightarrow> unique_rows (filter P db)"
  by (simp add: unique_rows_def distinct_map_filter)

lemma DeleteSnapshot_state:
  "DeleteSnapshot env fault ae l db = (r, db') \<Longrightarrow> db' = db \<or> db' = filter (\<lambda>r. row_label r \<noteq> l) db"
  by (auto simp: DeleteSnapshot_def Let_def split: option.splits if_splits)

lemma DeleteSnapshot_unique:
  "unique_rows db \<Longrightarrow> DeleteSnapshot env fault ae l db = (r, db') \<Longrightarrow> unique_rows db'"
  using DeleteSnapshot_state unique_rows_filter by metis

lemma DeleteSnapshot_ok:
  "DeleteSnapshot env fault ae l db = (Inr (), db') \<longleftrightarrow> fault = None \<and> ae = None
     \<and> (\<exists>r \<in> set db. row_label r = l) \<and> db' = filter (\<lambda>r. row_label r \<noteq> l) db"
  by (auto simp: DeleteSnapshot_def Let_def filter_empty_conv split: option.splits if_splits)

lemma LoadSnapshot_ok: "LoadSnapshot env None l db =
    (case find (\<lambda>r. row_label r = l) db of None \<Rightarrow> Inl ErrNotFound
     | Some r \<Rightarrow> (case unmarshal env (row_data r) of
          Inl e \<Rightarrow> Inl (StorageError (''decode snapshot '' @ quote (printable env) l @ '': '' @ e))
        | Inr s \<Rightarrow> Inr s))"
  by (simp add: LoadSnapshot_def)

lemma load_after_save:
  "SaveSnapshot env fault s db = (Inr (), db') \<Longrightarrow> l \<noteq> snap_label s \<Longrightarrow>
     LoadSnapshot env None l db' = LoadSnapshot env None l db"
  by (auto simp: SaveSnapshot_ok LoadSnapshot_ok find_upsert)

lemma load_saved:
  "codec_ok env s \<Longrightarrow> SaveSnapshot env fault s db = (Inr (), db') \<Longrightarrow>
     LoadSnapshot env None (snap_label s) db' = Inr s"
  by (auto simp: SaveSnapshot_ok codec_ok_def LoadSnapshot_ok find_upsert)

lemma load_after_delete:
  "DeleteSnapshot env fault ae k db = (Inr (), db') \<Longrightarrow> LoadSnapshot env None l db' =
     (if l = k then Inl ErrNotFound else LoadSnapshot env None l db)"
  by (simp add: DeleteSnapshot_ok LoadSnapshot_ok find_filter_other)

interpretation sqlite: snapshot_repo "SaveSnapshot env None" "\<lambda>l. LoadSnapshot env None l"
  "DeleteSnapshot env None None" snap_label unique_rows "codec_ok env" ErrNotFound
  for env
  by unfold_locales
     (erule SaveSnapshot_unique, assumption | erule DeleteSnapshot_unique, assumption
      | erule load_saved, assumption | erule load_after_save, assumption
      | simp only: load_after_delete simp_thms if_False if_True)+

text \<open>A sequence of saves and deletions, which stops at the first that fails.\<close>

definition repo_step :: "sql_env \<Rightarrow> snap_db \<Rightarrow> snapshot repo_op \<Rightarrow> storage_error + snap_db" where
  "repo_step env db op =
    (case (case op of SaveOp s \<Rightarrow> SaveSnapshot env None s db
           | DeleteOp l \<Rightarrow> DeleteSnapshot env None None l db) of
       (Inl e, db') \<Rightarrow> Inl e | (Inr _, db') \<Rightarrow> Inr db')"

lemma run_op_repo_step: "sqlite.run_op env = repo_step env"
  by (simp add: fun_eq_iff sqlite.run_op_def repo_step_def)

section \<open>Properties\<close>

text \<open>
  C18. The snapshot table is a map from labels to snapshots: after any sequence of successful
  saves and deletions on an empty table, loading a label returns what was last saved under
  it, or that it does not exist when nothing was or the last operation on it deleted it; and
  no two rows share a label or an id. (For snapshots that survive the JSON codec.)
\<close>

theorem store_is_last_write:
  assumes "fold_ok (repo_step env) [] ops = Inr db"
    and "\<And>s. SaveOp s \<in> set ops \<Longrightarrow> codec_ok env s"
  shows "LoadSnapshot env None l db = (case last_write snap_label l ops of None \<Rightarrow> Inl ErrNotFound
      | Some None \<Rightarrow> Inl ErrNotFound | Some (Some s) \<Rightarrow> Inr s)
    \<and> unique_rows db"
proof -
  have empty: "unique_rows []" "LoadSnapshot env None l [] = Inl ErrNotFound"
    by (simp_all add: unique_rows_def LoadSnapshot_def)
  note run = assms(1) [folded run_op_repo_step]
  from sqlite.load_after_ops [OF empty(1) run assms(2)] sqlite.valid_after_ops [OF empty(1) run]
  show ?thesis by (simp add: empty(2) split: option.splits)
qed

text \<open>An environment whose codec keeps the label, the id and the time of a snapshot.\<close>

definition demo_env :: sql_env where
  "demo_env =
    \<lparr>marshal = (\<lambda>s. Inr (snap_id s @ [CHR 0x00] @ snap_label s)),
     unmarshal = (\<lambda>p. Inr \<lparr>snap_id = takeWhile (\<lambda>c. c \<noteq> CHR 0x00) p,
       snap_label = tl (dropWhile (\<lambda>c. c \<noteq> CHR 0x00) p), snap_captured_at = zero_time,
       snap_schema = \<lparr>ss_tables = []\<rparr>, snap_statistics = []\<rparr>),
     enc_time = (\<lambda>t. if 0 \<le> unix_ns t then zero_pad 20 (nat (unix_ns t)) else []),
     dec_time = (\<lambda>s. if s = [] then Inr zero_time
       else Inr \<lparr>unix_ns = foldl (\<lambda>n c. 10 * n + (int (byte c) - 48)) 0 s, utc_off = 0\<rparr>),
     created_desc = (\<lambda>db. rev (sort_key row_created db)),
     printable = (\<lambda>r. True)\<rparr>"

definition demo_snapshot :: "string \<Rightarrow> string \<Rightarrow> snapshot" where
  "demo_snapshot i l = \<lparr>snap_id = i, snap_label = l, snap_captured_at = zero_time,
     snap_schema = \<lparr>ss_tables = []\<rparr>, snap_statistics = []\<rparr>"

definition demo_ops :: "snapshot repo_op list" where
  "demo_ops = [SaveOp (demo_snapshot ''i1'' ''a''), SaveOp (demo_snapshot ''i2'' ''b''),
     SaveOp (demo_snapshot ''i3'' ''a''), DeleteOp ''b'']"

lemma demo_codec: "CHR 0x00 \<notin> set i \<Longrightarrow> codec_ok demo_env (demo_snapshot i l)"
  by (simp add: codec_ok_def demo_env_def demo_snapshot_def takeWhile_append2 dropWhile_append2
      takeWhile_eq_all_conv)
     (auto simp: takeWhile_append dropWhile_append)

lemma demo_ops_run: "is_ok (fold_ok (repo_step demo_env) [] demo_ops)"
  by (simp add: demo_ops_def repo_step_def SaveSnapshot_def DeleteSnapshot_def upsert_def demo_env_def
      demo_snapshot_def)

theorem store_is_last_write_witness:
  "\<exists>db. fold_ok (repo_step demo_env) [] demo_ops = Inr db
    \<and> LoadSnapshot demo_env None ''a'' db = Inr (demo_snapshot ''i3'' ''a'')
    \<and> LoadSnapshot demo_env None ''b'' db = Inl ErrNotFound"
proof -
  obtain db where run: "fold_ok (repo_step demo_env) [] demo_ops = Inr db"
    using demo_ops_run by (auto simp: is_ok_iff)
  have ok: "codec_ok demo_env s" if "SaveOp s \<in> set demo_ops" for s
    using that by (auto simp: demo_ops_def intro!: demo_codec)
  from store_is_last_write [OF run ok, of "''a''"] store_is_last_write [OF run ok, of "''b''"] run
  show ?thesis by (simp add: demo_ops_def demo_snapshot_def)
qed

text \<open>
  On a working engine, saving fails exactly when the snapshot cannot be encoded or its id
  already belongs to a row with another label, and then the table is left as it was; an
  existing label alone never makes it fail. Deleting fails exactly when no row has the label.
\<close>

theorem storage_failures:
  "((\<exists>e. SaveSnapshot env None s db = (Inl e, db)) \<longleftrightarrow>
     (\<exists>e. marshal env s = Inl e) \<or> (\<exists>r \<in> set db. row_id r = snap_id s \<and> row_label r \<noteq> snap_label s))
   \<and> (fst (DeleteSnapshot env None None l db) = Inl ErrNotFound \<longleftrightarrow> l \<notin> row_label ` set db)"
proof
  show "(\<exists>e. SaveSnapshot env None s db = (Inl e, db)) \<longleftrightarrow>
     (\<exists>e. marshal env s = Inl e) \<or> (\<exists>r \<in> set db. row_id r = snap_id s \<and> row_label r \<noteq> snap_label s)"
    by (auto simp: SaveSnapshot_def upsert_def list_ex_iff split: sum.splits)
  have "fst (DeleteSnapshot env None None l db) = Inl ErrNotFound \<longleftrightarrow> [r \<leftarrow> db. row_label r = l] = []"
    by (simp add: DeleteSnapshot_def Let_def)
  then show "fst (DeleteSnapshot env None None l db) = Inl ErrNotFound \<longleftrightarrow> l \<notin> row_label ` set db"
    by (auto simp: filter_empty_conv)
qed

lemma scan_all_map:
  "(\<And>x. x \<in> set xs \<Longrightarrow> f x = Inr (g x)) \<Longrightarrow> scan_all msg (map f xs) None = Inr (map g xs)"
  by (induction xs) auto

text \<open>
  Listing returns the id, label and time of every stored row, each once, newest first,
  provided that the stored texts of the timestamps order like the times they decode to.
\<close>

theorem list_newest_first:
  assumes "mset (created_desc env db) = mset db"
    and "sorted_wrt (\<lambda>r r'. row_created r' \<le> row_created r) (created_desc env db)"
    and "\<And>r. r \<in> set db \<Longrightarrow> dec_time env (row_created r) = Inr (time_of r)"
    and "\<And>r r'. r \<in> set db \<Longrightarrow> r' \<in> set db \<Longrightarrow> row_created r \<le> row_created r' \<Longrightarrow>
      unix_ns (time_of r) \<le> unix_ns (time_of r')"
  shows "\<exists>metas. ListSnapshots env None None db = Inr metas
    \<and> mset metas = mset (map (\<lambda>r. \<lparr>meta_id = row_id r, meta_label = row_label r, meta_created = time_of r\<rparr>) db)
    \<and> sorted_wrt (\<lambda>m m'. unix_ns (meta_created m') \<le> unix_ns (meta_created m)) metas"
proof -
  let ?meta = "\<lambda>r. \<lparr>meta_id = row_id r, meta_label = row_label r, meta_created = time_of r\<rparr>"
  let ?rows = "created_desc env db"
  have set_rows: "set ?rows = set db" using assms(1) by (metis mset_eq_setD)
  then have "ListSnapshots env None None db = Inr (map ?meta ?rows)"
    using scan_all_map [of ?rows "scan_meta env" ?meta "''scan snapshot meta: ''"] assms(3)
    by (simp add: ListSnapshots_def scan_meta_def)
  moreover have "sorted_wrt (\<lambda>m m'. unix_ns (meta_created m') \<le> unix_ns (meta_created m)) (map ?meta ?rows)"
    unfolding sorted_wrt_map
    by (rule sorted_wrt_mono_rel [OF _ assms(2)]) (simp add: set_rows assms(4))
  moreover have "mset (map ?meta ?rows) = mset (map ?meta db)" using assms(1) by simp
  ultimately show ?thesis by blast
qed

definition demo_db :: snap_db where
  "demo_db = [\<lparr>row_id = ''i1'', row_label = ''a'', row_created = ''1'', row_data = []\<rparr>,
     \<lparr>row_id = ''i2'', row_label = ''b'', row_created = ''2'', row_data = []\<rparr>]"

theorem list_newest_first_witness:
  "\<exists>metas. ListSnapshots demo_env None None demo_db = Inr metas
    \<and> sorted_wrt (\<lambda>m m'. unix_ns (meta_created m') \<le> unix_ns (meta_created m)) metas"
proof -
  have "\<exists>metas. ListSnapshots demo_env None None demo_db = Inr metas
    \<and> mset metas = mset (map (\<lambda>r. \<lparr>meta_id = row_id r, meta_label = row_label r,
        meta_created = (if row_created r = ''1'' then \<lparr>unix_ns = 1, utc_off = 0\<rparr>
          else \<lparr>unix_ns = 2, utc_off = 0\<rparr>)\<rparr>) demo_db)
    \<and> sorted_wrt (\<lambda>m m'. unix_ns (meta_created m') \<le> unix_ns (meta_created m)) metas"
    by (rule list_newest_first) (auto simp: demo_db_def demo_env_def byte_def less_char_def)
  then show ?thesis by blast
qed

end
