(* ===== verification/Feed_Store.thy ===== *)
theory Feed_Store
  imports Event Go_Chan
begin

text \<open>
  \<open>internal/store/store.go\<close>: the ring buffer of recent events and the fan-out to
  subscribers. A channel is an index into the heap of channels \<open>w_chans\<close>, so that a
  subscriber and the store share it. Every operation runs under the store's mutex and is
  one atomic step; concurrent goroutines are sequences of these steps.
\<close>

section \<open>State\<close>

datatype event_filter = AllowAllFilter | TableFilter "string list"

fun Match :: "event_filter \<Rightarrow> event \<Rightarrow> bool" where
  "Match AllowAllFilter e = True"
| "Match (TableFilter Tables) e = (\<exists>t \<in> set Tables. t = ev_table e)"

record subscriber =
  sub_ch :: nat
  sub_filter :: event_filter

record store =
  ring :: "event list"
  capacity :: nat
  cursor :: nat
  count :: nat
  total :: "64 word"
  subs :: "subscriber list"

record stats =
  Total :: "64 word"
  Buffered :: nat

text \<open>\<open>w_log\<close> is a history variable: what has been pushed. No operation reads it.\<close>

record feed_world =
  w_store :: store
  w_chans :: "event chan list"
  w_log :: "event list"

definition defaultSubChanCap :: nat where
  "defaultSubChanCap = 100"

section \<open>Operations\<close>

definition New :: "int \<Rightarrow> go_panic + store" where
  "New cap =
    (if cap < 0 then Inl MakeLenOutOfRange
     else Inr \<lparr>ring = replicate (nat cap) zero_event, capacity = nat cap, cursor = 0, count = 0,
               total = 0, subs = []\<rparr>)"

text \<open>The writes of \<open>Push\<close> to the ring; \<open>s.ring[s.cursor]\<close> panics out of range.\<close>

definition push_ring :: "store \<Rightarrow> event \<Rightarrow> go_panic + store" where
  "push_ring s e =
    (if cursor s < length (ring s) then
       Inr (s\<lparr>ring := (ring s)[cursor s := e],
              cursor := (cursor s + 1) mod capacity s,
              count := (if count s < capacity s then count s + 1 else count s),
              total := total s + 1\<rparr>)
     else Inl IndexOutOfRange)"

text \<open>The loop of \<open>Push\<close> over the subscribers, in their order.\<close>

fun broadcast :: "subscriber list \<Rightarrow> event \<Rightarrow> event chan list \<Rightarrow> go_panic + event chan list" where
  "broadcast [] e h = Inr h"
| "broadcast (sub # ss) e h =
    (if Match (sub_filter sub) e then
       and_then (try_send e (h ! sub_ch sub)) (\<lambda>p. broadcast ss e (h[sub_ch sub := snd p]))
     else broadcast ss e h)"

definition Push :: "feed_world \<Rightarrow> event \<Rightarrow> go_panic + feed_world" where
  "Push w e =
    and_then (push_ring (w_store w) e) (\<lambda>s.
    and_then (broadcast (subs s) e (w_chans w)) (\<lambda>h.
      Inr (w\<lparr>w_store := s, w_chans := h, w_log := w_log w @ [e]\<rparr>)))"

text \<open>A new channel is the next index of the heap; the result is that index.\<close>

definition SubscribeWithFilter :: "feed_world \<Rightarrow> event_filter \<Rightarrow> nat \<times> feed_world" where
  "SubscribeWithFilter w flt =
    (let ch = length (w_chans w); s = w_store w in
     (ch, w\<lparr>w_chans := w_chans w @ [make_chan defaultSubChanCap],
            w_store := s\<lparr>subs := subs s @ [\<lparr>sub_ch = ch, sub_filter = flt\<rparr>]\<rparr>\<rparr>))"

definition Subscribe :: "feed_world \<Rightarrow> nat \<times> feed_world" where
  "Subscribe w = SubscribeWithFilter w AllowAllFilter"

definition Unsubscribe :: "feed_world \<Rightarrow> nat \<Rightarrow> go_panic + feed_world" where
  "Unsubscribe w ch =
    (let s = w_store w in
     case find_index_from (\<lambda>sub. sub_ch sub = ch) 0 (subs s) of
       None \<Rightarrow> Inr w
     | Some i \<Rightarrow>
         and_then (close_chan (w_chans w ! ch)) (\<lambda>c.
           Inr (w\<lparr>w_chans := (w_chans w)[ch := c],
                  w_store := s\<lparr>subs := take i (subs s) @ drop (i + 1) (subs s)\<rparr>\<rparr>)))"

definition Snapshot :: "store \<Rightarrow> event list" where
  "Snapshot s =
    (if count s < capacity s then take (count s) (ring s)
     else drop (cursor s) (ring s) @ take (cursor s) (ring s))"

definition Stats :: "store \<Rightarrow> stats" where
  "Stats s = \<lparr>Total = total s, Buffered = count s\<rparr>"

text \<open>A subscriber receives from its channel, outside the store's mutex.\<close>

definition Receive :: "feed_world \<Rightarrow> nat \<Rightarrow> event received \<times> feed_world" where
  "Receive w ch = (let r = recv (w_chans w ! ch) in (fst r, w\<lparr>w_chans := (w_chans w)[ch := snd r]\<rparr>))"

text \<open>The loop that replays a list of events into a store, as \<open>runAttach\<close> does.\<close>

definition Push_all :: "feed_world \<Rightarrow> event list \<Rightarrow> go_panic + feed_world" where
  "Push_all w es = fold_ok Push w es"

section \<open>The ring buffer\<close>

definition ring_inv :: "store \<Rightarrow> bool" where
  "ring_inv s \<longleftrightarrow> 0 < capacity s \<and> length (ring s) = capacity s \<and> cursor s < capacity s
     \<and> count s \<le> capacity s \<and> (count s < capacity s \<longrightarrow> cursor s = count s)"

lemma New_ring_inv: "0 < cap \<Longrightarrow> New cap = Inr s \<Longrightarrow> ring_inv s \<and> Snapshot s = [] \<and> subs s = []
    \<and> capacity s = nat cap \<and> total s = 0 \<and> count s = 0"
  by (auto simp: New_def ring_inv_def Snapshot_def)

lemma length_Snapshot: "ring_inv s \<Longrightarrow> length (Snapshot s) = count s"
  by (auto simp: ring_inv_def Snapshot_def)

lemma push_ring_ok: "ring_inv s \<Longrightarrow> \<exists>s'. push_ring s e = Inr s'"
  by (simp add: push_ring_def ring_inv_def)

lemma push_ring_frame [store_simps]:
  "push_ring s e = Inr s' \<Longrightarrow> subs s' = subs s"
  "push_ring s e = Inr s' \<Longrightarrow> capacity s' = capacity s"
  "push_ring s e = Inr s' \<Longrightarrow> total s' = total s + 1"
  by (auto simp: push_ring_def split: if_splits)

lemma push_ring_inv: "ring_inv s \<Longrightarrow> push_ring s e = Inr s' \<Longrightarrow> ring_inv s'"
  by (auto simp: push_ring_def ring_inv_def mod_Suc split: if_splits)

lemma Snapshot_push_partial:
  assumes "ring_inv s" "count s < capacity s" "push_ring s e = Inr s'"
  shows "Snapshot s' = Snapshot s @ [e]"
proof -
  have c: "cursor s = count s" and l: "length (ring s) = capacity s"
    using assms(1,2) by (auto simp: ring_inv_def)
  have s': "ring s' = (ring s)[count s := e]" "count s' = Suc (count s)"
      "cursor s' = Suc (count s) mod capacity s" "capacity s' = capacity s"
    using assms c by (auto simp: push_ring_def split: if_splits)
  have t: "take (Suc (count s)) ((ring s)[count s := e]) = take (count s) (ring s) @ [e]"
    using assms(2) l by (simp add: take_Suc_conv_app_nth)
  show ?thesis
  proof (cases "Suc (count s) < capacity s")
    case True
    with s' t assms(2) show ?thesis by (simp add: Snapshot_def)
  next
    case False
    with assms(2) have "capacity s = Suc (count s)" by simp
    with s' t assms(2) l show ?thesis by (simp add: Snapshot_def)
  qed
qed

lemma Snapshot_push_full:
  assumes "ring_inv s" "\<not> count s < capacity s" "push_ring s e = Inr s'"
  shows "Snapshot s' = tl (Snapshot s) @ [e]"
proof -
  let ?c = "cursor s" and ?n = "capacity s"
  have b: "?c < ?n" "length (ring s) = ?n" "count s = ?n"
    using assms(1,2) by (auto simp: ring_inv_def)
  have s': "ring s' = (ring s)[?c := e]" "count s' = ?n" "cursor s' = Suc ?c mod ?n"
      "capacity s' = ?n"
    using assms b by (auto simp: push_ring_def split: if_splits)
  have d: "drop ?c (ring s) = ring s ! ?c # drop (Suc ?c) (ring s)"
    using b by (simp add: Cons_nth_drop_Suc)
  have t: "take (Suc ?c) ((ring s)[?c := e]) = take ?c (ring s) @ [e]"
    using b by (simp add: take_Suc_conv_app_nth)
  show ?thesis
  proof (cases "Suc ?c < ?n")
    case True
    with s' b t d show ?thesis by (simp add: Snapshot_def)
  next
    case False
    with b have "?n = Suc ?c" by simp
    with s' b t d show ?thesis by (simp add: Snapshot_def)
  qed
qed

text \<open>One push, abstractly: append to the history and keep the newest \<open>capacity\<close> items.\<close>

lemma Snapshot_push_ring:
  assumes "ring_inv s" "push_ring s e = Inr s'"
  shows "Snapshot s' = lastn (capacity s) (Snapshot s @ [e])"
proof (cases "count s < capacity s")
  case True
  with assms show ?thesis by (simp add: Snapshot_push_partial length_Snapshot)
next
  case False
  with assms have "count s = capacity s" "0 < capacity s" by (auto simp: ring_inv_def)
  with assms False show ?thesis
    by (simp add: Snapshot_push_full lastn_snoc_full length_Snapshot)
qed

lemma count_push_ring:
  assumes "ring_inv s" "push_ring s e = Inr s'"
  shows "count s' = min (capacity s) (count s + 1)"
  using assms by (auto simp: push_ring_def ring_inv_def split: if_splits)

section \<open>The fan-out\<close>

definition listens :: "subscriber list \<Rightarrow> event \<Rightarrow> nat \<Rightarrow> bool" where
  "listens ss e ch \<longleftrightarrow> (\<exists>sub \<in> set ss. sub_ch sub = ch \<and> Match (sub_filter sub) e)"

definition enqueue :: "event \<Rightarrow> event chan \<Rightarrow> event chan" where
  "enqueue e c = (if length (buf c) < ccap c then c\<lparr>buf := buf c @ [e]\<rparr> else c)"

definition world_inv :: "feed_world \<Rightarrow> bool" where
  "world_inv w \<longleftrightarrow> ring_inv (w_store w)
     \<and> distinct (map sub_ch (subs (w_store w)))
     \<and> (\<forall>sub \<in> set (subs (w_store w)). sub_ch sub < length (w_chans w)
          \<and> \<not> closed (w_chans w ! sub_ch sub))
     \<and> (\<forall>i < length (w_chans w). chan_ok (w_chans w ! i) \<and> ccap (w_chans w ! i) = defaultSubChanCap)"

definition new_world :: "store \<Rightarrow> feed_world" where
  "new_world s = \<lparr>w_store = s, w_chans = [], w_log = []\<rparr>"

lemma new_world_inv: "0 < cap \<Longrightarrow> New cap = Inr s \<Longrightarrow> world_inv (new_world s)"
  using New_ring_inv [of cap s] by (auto simp: world_inv_def new_world_def)

lemma enqueue_simps [simp]:
  "ccap (enqueue e c) = ccap c" "closed (enqueue e c) = closed c"
  by (simp_all add: enqueue_def)

lemma enqueue_ok: "chan_ok c \<Longrightarrow> chan_ok (enqueue e c)"
  by (simp add: enqueue_def chan_ok_def)

lemma try_send_enqueue: "\<not> closed c \<Longrightarrow> \<exists>b. try_send e c = Inr (b, enqueue e c)"
  by (auto simp: try_send_def enqueue_def)

lemma listens_Cons: "listens (sub # ss) e ch \<longleftrightarrow>
    (sub_ch sub = ch \<and> Match (sub_filter sub) e) \<or> listens ss e ch"
  by (auto simp: listens_def)

lemma broadcast_ok:
  assumes "distinct (map sub_ch ss)"
    and "\<forall>sub \<in> set ss. sub_ch sub < length h \<and> \<not> closed (h ! sub_ch sub)"
  shows "\<exists>h'. broadcast ss e h = Inr h' \<and> length h' = length h
    \<and> (\<forall>i < length h. h' ! i = (if listens ss e i then enqueue e (h ! i) else h ! i))"
  using assms
proof (induction ss arbitrary: h)
  case Nil
  then show ?case by (simp add: listens_def)
next
  case (Cons sub ss)
  let ?i = "sub_ch sub"
  have valid: "?i < length h" "\<not> closed (h ! ?i)" using Cons.prems(2) by auto
  have notin: "\<not> listens ss e ?i" using Cons.prems(1) by (fastforce simp: listens_def image_iff)
  show ?case
  proof (cases "Match (sub_filter sub) e")
    case False
    with Cons.prems Cons.IH [of h] show ?thesis by (auto simp: listens_Cons)
  next
    case True
    let ?h = "h[?i := enqueue e (h ! ?i)]"
    have eq: "broadcast (sub # ss) e h = broadcast ss e ?h"
      using True try_send_enqueue [OF valid(2), of e] by auto
    have "\<forall>s \<in> set ss. sub_ch s < length ?h \<and> \<not> closed (?h ! sub_ch s)"
      using Cons.prems(2) by (auto simp: nth_list_update)
    with Cons.prems(1) Cons.IH [of ?h] obtain h' where h': "broadcast ss e ?h = Inr h'"
        "length h' = length h"
        "\<forall>i < length h. h' ! i = (if listens ss e i then enqueue e (?h ! i) else ?h ! i)"
      by auto
    have "\<forall>i < length h. h' ! i = (if listens (sub # ss) e i then enqueue e (h ! i) else h ! i)"
      using h'(3) notin valid True by (auto simp: listens_Cons nth_list_update)
    with eq h' show ?thesis by auto
  qed
qed

text \<open>
  Under the invariant a push succeeds, keeps the invariant, and offers the item to each
  listening channel alone: what one subscriber finds in its channel does not depend on the
  state of any other channel.
\<close>

lemma Push_spec:
  assumes inv: "world_inv w"
  shows "\<exists>w'. Push w e = Inr w' \<and> world_inv w'
    \<and> push_ring (w_store w) e = Inr (w_store w')
    \<and> length (w_chans w') = length (w_chans w)
    \<and> (\<forall>i < length (w_chans w). w_chans w' ! i =
          (if listens (subs (w_store w)) e i then enqueue e (w_chans w ! i) else w_chans w ! i))"
proof -
  obtain s where s: "push_ring (w_store w) e = Inr s"
    using inv push_ring_ok [of "w_store w" e] by (auto simp: world_inv_def)
  have sub: "subs s = subs (w_store w)" using s by (simp add: store_simps)
  obtain h where h: "broadcast (subs s) e (w_chans w) = Inr h" "length h = length (w_chans w)"
      "\<forall>i < length (w_chans w). h ! i =
         (if listens (subs s) e i then enqueue e (w_chans w ! i) else w_chans w ! i)"
    using inv sub broadcast_ok [of "subs s" "w_chans w" e] by (auto simp: world_inv_def)
  have cs: "\<forall>i < length h. chan_ok (h ! i) \<and> ccap (h ! i) = defaultSubChanCap"
    using inv h(2,3) enqueue_ok by (simp add: world_inv_def)
  have "world_inv (w\<lparr>w_store := s, w_chans := h, w_log := w_log w @ [e]\<rparr>)"
    using inv s sub h(2,3) cs push_ring_inv by (auto simp: world_inv_def)
  with s h sub show ?thesis by (auto simp: Push_def)
qed

lemma Push_inv: "world_inv w \<Longrightarrow> Push w e = Inr w' \<Longrightarrow> world_inv w'"
  using Push_spec [of w e] by auto

lemma Push_store: "world_inv w \<Longrightarrow> Push w e = Inr w' \<Longrightarrow>
    push_ring (w_store w) e = Inr (w_store w')"
  using Push_spec [of w e] by auto

lemma Push_subs: "world_inv w \<Longrightarrow> Push w e = Inr w' \<Longrightarrow> subs (w_store w') = subs (w_store w)"
  by (rule store_simps(1) [OF Push_store])

lemma Push_Snapshot: "world_inv w \<Longrightarrow> Push w e = Inr w' \<Longrightarrow>
    Snapshot (w_store w') = lastn (capacity (w_store w)) (Snapshot (w_store w) @ [e])"
  by (rule Snapshot_push_ring [OF _ Push_store]) (simp_all add: world_inv_def)

section \<open>What the store shows, and what it was given\<close>

lemma Push_log: "Push w e = Inr w' \<Longrightarrow> w_log w' = w_log w @ [e]"
  by (auto simp: Push_def and_then_Inr_iff)

lemma pushes_log: "fold_ok Push w es = Inr w' \<Longrightarrow> w_log w' = w_log w @ es"
  by (induction es arbitrary: w) (auto simp: and_then_Inr_iff dest: Push_log)

text \<open>The operations of the listeners change neither.\<close>

definition same_feed :: "feed_world \<Rightarrow> feed_world \<Rightarrow> bool" where
  "same_feed w w' \<longleftrightarrow> Snapshot (w_store w') = Snapshot (w_store w) \<and> capacity (w_store w') = capacity (w_store w)
     \<and> w_log w' = w_log w"

lemma same_feed_refl [simp]: "same_feed w w"
  by (simp add: same_feed_def)

lemma same_feed_trans: "same_feed u v \<Longrightarrow> same_feed v w \<Longrightarrow> same_feed u w"
  by (simp add: same_feed_def)

lemma Subscribe_feed: "SubscribeWithFilter w flt = (ch, w') \<Longrightarrow> same_feed w w'" "Subscribe w = (ch, w') \<Longrightarrow> same_feed w w'"
  by (auto simp: same_feed_def Subscribe_def SubscribeWithFilter_def Let_def Snapshot_def)

lemma Unsubscribe_feed: "Unsubscribe w ch = Inr w' \<Longrightarrow> same_feed w w'"
  by (auto simp: same_feed_def Unsubscribe_def Let_def and_then_Inr_iff Snapshot_def split: option.splits)

lemma Receive_feed: "Receive w ch = (r, w') \<Longrightarrow> same_feed w w'"
  by (auto simp: same_feed_def Receive_def Let_def)

section \<open>The other operations\<close>

lemma Subscribe_inv:
  assumes "world_inv w" "SubscribeWithFilter w flt = (ch, w')"
  shows "world_inv w'"
proof -
  have ch: "ch = length (w_chans w)"
    and w': "w' = w\<lparr>w_chans := w_chans w @ [make_chan defaultSubChanCap],
      w_store := (w_store w)\<lparr>subs := subs (w_store w) @ [\<lparr>sub_ch = ch, sub_filter = flt\<rparr>]\<rparr>\<rparr>"
    using assms(2) by (auto simp: SubscribeWithFilter_def Let_def)
  have "ch \<notin> sub_ch ` set (subs (w_store w))"
    using assms(1) ch by (fastforce simp: world_inv_def)
  then show ?thesis
    using assms(1) by (auto simp: world_inv_def w' ring_inv_def nth_append ch chan_simps less_Suc_eq)
qed

lemma Subscribe_fresh:
  "SubscribeWithFilter w flt = (ch, w') \<Longrightarrow> ch = length (w_chans w)
     \<and> w_chans w' = w_chans w @ [make_chan defaultSubChanCap]
     \<and> subs (w_store w') = subs (w_store w) @ [\<lparr>sub_ch = ch, sub_filter = flt\<rparr>]
     \<and> Snapshot (w_store w') = Snapshot (w_store w)"
  by (auto simp: SubscribeWithFilter_def Let_def Snapshot_def)

text \<open>
  \<open>Unsubscribe\<close> of a channel that is not subscribed changes nothing; otherwise it closes
  the channel and removes its subscriber, and no other.
\<close>

lemma Unsubscribe_absent:
  "ch \<notin> sub_ch ` set (subs (w_store w)) \<Longrightarrow> Unsubscribe w ch = Inr w"
proof -
  assume "ch \<notin> sub_ch ` set (subs (w_store w))"
  then have "find_index_from (\<lambda>sub. sub_ch sub = ch) 0 (subs (w_store w)) = None"
    by (auto simp: find_index_from_None)
  then show ?thesis by (simp add: Unsubscribe_def Let_def)
qed

lemma filter_distinct_remove:
  assumes "distinct (map f xs)" "i < length xs" "f (xs ! i) = k"
  shows "take i xs @ drop (i + 1) xs = [x \<leftarrow> xs. f x \<noteq> k]"
proof -
  have split: "xs = take i xs @ xs ! i # drop (i + 1) xs"
    using assms(2) by (simp add: id_take_nth_drop)
  have d: "distinct (map f (take i xs @ xs ! i # drop (i + 1) xs))"
    using assms(1) split by metis
  from d assms(3) have "k \<notin> f ` set (take i xs)" "k \<notin> f ` set (drop (i + 1) xs)"
    by (simp_all del: append_take_drop_id add: disjoint_iff) blast
  then have "[x \<leftarrow> take i xs. f x \<noteq> k] = take i xs" "[x \<leftarrow> drop (i + 1) xs. f x \<noteq> k] = drop (i + 1) xs"
    by (fastforce simp: filter_id_conv simp del: set_take_subset set_drop_subset)+
  with assms(3) show ?thesis by (subst split) (simp del: append_take_drop_id)
qed

lemma Unsubscribe_present:
  assumes inv: "world_inv w" and sub: "ch \<in> sub_ch ` set (subs (w_store w))"
  shows "\<exists>w'. Unsubscribe w ch = Inr w' \<and> world_inv w'
    \<and> w_chans w' = (w_chans w)[ch := (w_chans w ! ch)\<lparr>closed := True\<rparr>]
    \<and> w_store w' = (w_store w)\<lparr>subs := [s \<leftarrow> subs (w_store w). sub_ch s \<noteq> ch]\<rparr>"
proof -
  let ?P = "\<lambda>sub. sub_ch sub = ch" and ?ss = "subs (w_store w)"
  from sub have "find_index_from ?P 0 ?ss \<noteq> None"
    by (auto simp: find_index_from_None)
  then obtain i where i: "find_index_from ?P 0 ?ss = Some i" by auto
  from find_index_from_Some [OF i] have il: "i < length ?ss" "sub_ch (?ss ! i) = ch" by auto
  have rm: "take i ?ss @ drop (i + 1) ?ss = [s \<leftarrow> ?ss. sub_ch s \<noteq> ch]"
    using inv il by (intro filter_distinct_remove) (auto simp: world_inv_def)
  have open_ch: "\<not> closed (w_chans w ! ch)" and len: "ch < length (w_chans w)"
    using inv sub by (auto simp: world_inv_def)
  let ?w = "w\<lparr>w_chans := (w_chans w)[ch := (w_chans w ! ch)\<lparr>closed := True\<rparr>],
      w_store := (w_store w)\<lparr>subs := [s \<leftarrow> ?ss. sub_ch s \<noteq> ch]\<rparr>\<rparr>"
  have "Unsubscribe w ch = Inr ?w"
    using i rm open_ch by (simp add: Unsubscribe_def Let_def close_chan_def)
  moreover have "world_inv ?w"
    using inv len
    by (auto simp: world_inv_def ring_inv_def nth_list_update distinct_map_filter chan_ok_def)
  ultimately show ?thesis by auto
qed

lemma Unsubscribe_ok: "world_inv w \<Longrightarrow> \<exists>w'. Unsubscribe w ch = Inr w' \<and> world_inv w'"
  by (cases "ch \<in> sub_ch ` set (subs (w_store w))")
     (auto simp del: image_iff dest: Unsubscribe_present Unsubscribe_absent)

lemma Receive_inv: "world_inv w \<Longrightarrow> ch < length (w_chans w) \<Longrightarrow> world_inv (snd (Receive w ch))"
proof -
  assume inv: "world_inv w" and ch: "ch < length (w_chans w)"
  have "chan_ok (w_chans w ! ch)" using inv ch by (simp add: world_inv_def)
  then have c: "chan_ok (snd (recv (w_chans w ! ch)))" by (rule recv_chan_ok)
  have "ccap (snd (recv (w_chans w ! ch))) = ccap (w_chans w ! ch)"
      "closed (snd (recv (w_chans w ! ch))) = closed (w_chans w ! ch)"
    by (simp_all add: recv_def split: list.splits)
  with c show ?thesis
    using inv ch by (auto simp: world_inv_def Receive_def Let_def nth_list_update)
qed

section \<open>The interface Pusher\<close>

text \<open>
  What the producers (the listener's forwarder, the DDL listener, the marker API, the
  replay of a snapshot by \<open>attach\<close>) rely on: a push of a well-formed sink succeeds, keeps
  it well-formed, and the sink then shows the newest items up to a fixed bound.
\<close>

locale pusher =
  fixes push :: "'s \<Rightarrow> event \<Rightarrow> 'p + 's"
    and ok :: "'s \<Rightarrow> bool"
    and recent :: "'s \<Rightarrow> event list"
    and bound :: "'s \<Rightarrow> nat"
  assumes push_ok: "ok s \<Longrightarrow> \<exists>s'. push s e = Inr s'"
    and push_keeps: "ok s \<Longrightarrow> push s e = Inr s' \<Longrightarrow> ok s'"
    and push_recent: "ok s \<Longrightarrow> push s e = Inr s' \<Longrightarrow> recent s' = lastn (bound s) (recent s @ [e])"
    and push_bound: "ok s \<Longrightarrow> push s e = Inr s' \<Longrightarrow> bound s' = bound s"
    and bound_pos: "ok s \<Longrightarrow> 0 < bound s"
    and recent_bound: "ok s \<Longrightarrow> length (recent s) \<le> bound s"
begin

lemma push_last: "ok s \<Longrightarrow> push s e = Inr s' \<Longrightarrow> recent s' \<noteq> [] \<and> last (recent s') = e"
proof -
  assume a: "ok s" "push s e = Inr s'"
  then have "recent s' = lastn (bound s) (recent s @ [e])" by (rule push_recent)
  moreover have "last (lastn (bound s) (recent s @ [e])) = last (recent s @ [e])"
    using bound_pos [OF a(1)] by (intro last_lastn) auto
  moreover have "lastn (bound s) (recent s @ [e]) \<noteq> []"
    using bound_pos [OF a(1)] by (simp flip: length_greater_0_conv)
  ultimately show ?thesis by simp
qed

lemma push_list:
  "ok s \<Longrightarrow> \<exists>s'. fold_ok push s es = Inr s' \<and> ok s' \<and> bound s' = bound s
     \<and> recent s' = lastn (bound s) (recent s @ es)"
proof (induction es arbitrary: s)
  case Nil
  then show ?case by (simp add: recent_bound)
next
  case (Cons e es)
  obtain s1 where s1: "push s e = Inr s1" using push_ok [OF Cons.prems] by blast
  have ok1: "ok s1" and b1: "bound s1 = bound s"
    and r1: "recent s1 = lastn (bound s) (recent s @ [e])"
    using Cons.prems s1 push_keeps push_bound push_recent by blast+
  obtain s2 where "fold_ok push s1 es = Inr s2" "ok s2" "bound s2 = bound s1"
      "recent s2 = lastn (bound s1) (recent s1 @ es)"
    using Cons.IH [OF ok1] by blast
  with s1 b1 r1 show ?case by (simp add: lastn_lastn_append)
qed

lemma pushed_list:
  assumes "ok s" and "fold_ok push s es = Inr s'"
  shows "ok s'" "bound s' = bound s" "recent s' = lastn (bound s) (recent s @ es)"
  using push_list [OF assms(1), of es] assms(2) by auto

end

text \<open>The store provides it.\<close>

interpretation feed: pusher Push world_inv "\<lambda>w. Snapshot (w_store w)" "\<lambda>w. capacity (w_store w)"
proof unfold_locales
  fix w :: feed_world and e
  assume w: "world_inv w"
  then show "\<exists>w'. Push w e = Inr w'" using Push_spec by blast
  from w show "0 < capacity (w_store w)" by (simp add: world_inv_def ring_inv_def)
  from w have "ring_inv (w_store w)" by (simp add: world_inv_def)
  then show "length (Snapshot (w_store w)) \<le> capacity (w_store w)"
    by (simp add: length_Snapshot ring_inv_def)
next
  fix w w' :: feed_world and e
  assume a: "world_inv w" "Push w e = Inr w'"
  then show "world_inv w'" by (rule Push_inv)
  from a show "Snapshot (w_store w') = lastn (capacity (w_store w)) (Snapshot (w_store w) @ [e])"
    by (rule Push_Snapshot)
  from a have "push_ring (w_store w) e = Inr (w_store w')" by (rule Push_store)
  then show "capacity (w_store w') = capacity (w_store w)" by (rule store_simps(2))
qed

section \<open>What a subscriber receives\<close>

text \<open>
  The reachable states of a store shared by any number of goroutines, with two ghost
  histories per channel: the items received from it, and the items offered to it, that is
  pushed and matched by the filter while it was subscribed.
\<close>

record feed_run =
  g_world :: feed_world
  g_got :: "nat \<Rightarrow> event list"
  g_offered :: "nat \<Rightarrow> event list"

inductive reachable :: "feed_run \<Rightarrow> bool" where
  start: "0 < cap \<Longrightarrow> New cap = Inr s \<Longrightarrow>
     reachable \<lparr>g_world = new_world s, g_got = (\<lambda>_. []), g_offered = (\<lambda>_. [])\<rparr>"
| push: "reachable g \<Longrightarrow> Push (g_world g) e = Inr w \<Longrightarrow>
     reachable (g\<lparr>g_world := w, g_offered := (\<lambda>ch. g_offered g ch @
        (if listens (subs (w_store (g_world g))) e ch then [e] else []))\<rparr>)"
| subscribe: "reachable g \<Longrightarrow> SubscribeWithFilter (g_world g) flt = (ch, w) \<Longrightarrow>
     reachable (g\<lparr>g_world := w\<rparr>)"
| unsubscribe: "reachable g \<Longrightarrow> Unsubscribe (g_world g) ch = Inr w \<Longrightarrow>
     reachable (g\<lparr>g_world := w\<rparr>)"
| receive: "reachable g \<Longrightarrow> ch < length (w_chans (g_world g)) \<Longrightarrow>
     Receive (g_world g) ch = (r, w) \<Longrightarrow>
     reachable (g\<lparr>g_world := w, g_got := (g_got g)(ch := g_got g ch @
        (case r of Got e \<Rightarrow> [e] | _ \<Rightarrow> []))\<rparr>)"

definition delivered :: "feed_run \<Rightarrow> nat \<Rightarrow> event list" where
  "delivered g ch = g_got g ch @
     (if ch < length (w_chans (g_world g)) then buf (w_chans (g_world g) ! ch) else [])"

definition run_inv :: "feed_run \<Rightarrow> bool" where
  "run_inv g \<longleftrightarrow> world_inv (g_world g)
     \<and> (\<forall>ch. subseq (delivered g ch) (g_offered g ch))
     \<and> (\<forall>ch \<ge> length (w_chans (g_world g)). g_got g ch = [] \<and> g_offered g ch = [])"

lemma run_inv_push:
  assumes "run_inv g" "Push (g_world g) e = Inr w"
  shows "run_inv (g\<lparr>g_world := w, g_offered := (\<lambda>ch. g_offered g ch @
        (if listens (subs (w_store (g_world g))) e ch then [e] else []))\<rparr>)" (is "run_inv ?g")
proof -
  let ?w = "g_world g"
  let ?ss = "subs (w_store ?w)"
  have inv: "world_inv ?w" using assms(1) by (simp add: run_inv_def)
  have w: "world_inv w" "length (w_chans w) = length (w_chans ?w)"
      "\<forall>i < length (w_chans ?w). w_chans w ! i =
         (if listens ?ss e i then enqueue e (w_chans ?w ! i) else w_chans ?w ! i)"
    using Push_spec [OF inv, of e] assms(2) by auto
  have high: "\<not> listens ?ss e ch" if "ch \<ge> length (w_chans ?w)" for ch
    using inv that by (fastforce simp: listens_def world_inv_def)
  have "subseq (delivered ?g ch) (g_offered ?g ch)" for ch
  proof -
    have s: "subseq (delivered g ch) (g_offered g ch)" using assms(1) by (simp add: run_inv_def)
    have "delivered ?g ch = delivered g ch \<or>
        (listens ?ss e ch \<and> delivered ?g ch = delivered g ch @ [e])"
      using w(2,3) by (auto simp: delivered_def enqueue_def)
    with s show ?thesis by (auto intro: subseq_snoc subseq_snoc_same)
  qed
  then show ?thesis
    using assms(1) w high by (simp add: run_inv_def)
qed

lemma run_inv_receive:
  assumes "run_inv g" "ch < length (w_chans (g_world g))" "Receive (g_world g) ch = (r, w)"
  shows "run_inv (g\<lparr>g_world := w, g_got := (g_got g)(ch := g_got g ch @
        (case r of Got e \<Rightarrow> [e] | _ \<Rightarrow> []))\<rparr>)" (is "run_inv ?g")
proof -
  have w: "w = snd (Receive (g_world g) ch)" "r = fst (Receive (g_world g) ch)"
    using assms(3) by simp_all
  have "world_inv w"
    using assms(1,2) w(1) Receive_inv by (simp add: run_inv_def)
  moreover have "delivered ?g c = delivered g c" for c
    using assms(2) w
    by (auto simp: delivered_def Receive_def Let_def recv_def nth_list_update split: list.splits)
  moreover have "length (w_chans w) = length (w_chans (g_world g))"
    using w(1) by (simp add: Receive_def Let_def)
  ultimately show ?thesis
    using assms(1,2) by (simp add: run_inv_def)
qed

lemma run_inv_subscribe:
  assumes "run_inv g" "SubscribeWithFilter (g_world g) flt = (ch, w)"
  shows "run_inv (g\<lparr>g_world := w\<rparr>)" (is "run_inv ?g")
proof -
  have w: "world_inv w" using assms(1) by (intro Subscribe_inv [OF _ assms(2)]) (simp add: run_inv_def)
  have c: "w_chans w = w_chans (g_world g) @ [make_chan defaultSubChanCap]"
    using Subscribe_fresh [OF assms(2)] by simp
  have "delivered ?g c = delivered g c" for c
    by (auto simp: delivered_def c nth_append chan_simps less_Suc_eq)
  then show ?thesis using assms(1) w c by (simp add: run_inv_def)
qed

lemma run_inv_unsubscribe:
  assumes "run_inv g" "Unsubscribe (g_world g) ch = Inr w"
  shows "run_inv (g\<lparr>g_world := w\<rparr>)" (is "run_inv ?g")
proof (cases "ch \<in> sub_ch ` set (subs (w_store (g_world g)))")
  case False
  then have "w = g_world g" using assms(2) Unsubscribe_absent by fastforce
  with assms(1) show ?thesis by simp
next
  case True
  have inv: "world_inv (g_world g)" using assms(1) by (simp add: run_inv_def)
  have w: "world_inv w" "w_chans w = (w_chans (g_world g))[ch := (w_chans (g_world g) ! ch)\<lparr>closed := True\<rparr>]"
    using Unsubscribe_present [OF inv True] assms(2) by auto
  have "delivered ?g c = delivered g c" for c
    by (cases "c = ch") (auto simp: delivered_def w(2))
  then show ?thesis using assms(1) w by (simp add: run_inv_def)
qed

lemma reachable_run_inv: "reachable g \<Longrightarrow> run_inv g"
proof (induction rule: reachable.induct)
  case (start cap s)
  then show ?case
    using new_world_inv by (auto simp: run_inv_def delivered_def new_world_def)
qed (auto intro: run_inv_push run_inv_subscribe run_inv_unsubscribe run_inv_receive)

section \<open>Properties\<close>

text \<open>
  A burst with no receive in between, per channel: the oldest items that fit stay, and the
  rest of the burst is dropped for that subscriber alone.
\<close>

lemma Push_all_chan:
  assumes "world_inv w" "sub \<in> set (subs (w_store w))"
  shows "\<exists>w'. Push_all w es = Inr w' \<and> world_inv w' \<and> subs (w_store w') = subs (w_store w)
    \<and> length (w_chans w') = length (w_chans w)
    \<and> buf (w_chans w' ! sub_ch sub) = buf (w_chans w ! sub_ch sub)
        @ take (defaultSubChanCap - length (buf (w_chans w ! sub_ch sub)))
            [e \<leftarrow> es. Match (sub_filter sub) e]"
  using assms
proof (induction es arbitrary: w)
  case Nil
  then show ?case by (simp add: Push_all_def)
next
  case (Cons e es)
  let ?i = "sub_ch sub"
  have i: "?i < length (w_chans w)" using Cons.prems by (auto simp: world_inv_def)
  have cap: "ccap (w_chans w ! ?i) = defaultSubChanCap"
    using Cons.prems(1) i by (simp add: world_inv_def)
  obtain w1 where w1: "Push w e = Inr w1" "world_inv w1" "length (w_chans w1) = length (w_chans w)"
      "w_chans w1 ! ?i =
         (if listens (subs (w_store w)) e ?i then enqueue e (w_chans w ! ?i) else w_chans w ! ?i)"
    using Push_spec [OF Cons.prems(1), of e] i by blast
  have subs1: "subs (w_store w1) = subs (w_store w)"
    using Push_subs Cons.prems(1) w1(1) by blast
  have only: "listens (subs (w_store w)) e ?i \<longleftrightarrow> Match (sub_filter sub) e"
    using Cons.prems by (force simp: listens_def world_inv_def distinct_map inj_on_def)
  obtain w2 where w2: "Push_all w1 es = Inr w2" "world_inv w2" "subs (w_store w2) = subs (w_store w1)"
      "length (w_chans w2) = length (w_chans w1)"
      "buf (w_chans w2 ! ?i) = buf (w_chans w1 ! ?i)
         @ take (defaultSubChanCap - length (buf (w_chans w1 ! ?i))) [e \<leftarrow> es. Match (sub_filter sub) e]"
    using Cons.IH [OF w1(2)] Cons.prems(2) subs1 by auto
  have "buf (w_chans w2 ! ?i) = buf (w_chans w ! ?i)
      @ take (defaultSubChanCap - length (buf (w_chans w ! ?i))) [e \<leftarrow> e # es. Match (sub_filter sub) e]"
    using w1(4) w2(5) only cap by (auto simp: enqueue_def take_Cons')
  with w1 w2 subs1 show ?case by (auto simp: Push_all_def)
qed

text \<open>
  C8. Replaying any list of events into a new store of positive capacity never panics, and
  \<open>Snapshot\<close> then returns the newest \<open>capacity\<close> of them, oldest first; the counters of
  \<open>Stats\<close> are the number of events (modulo \<open>2^64\<close>) and of buffered ones.
\<close>

theorem snapshot_is_newest:
  assumes "0 < cap"
  shows "\<exists>s w. New cap = Inr s \<and> Push_all (new_world s) es = Inr w
    \<and> Snapshot (w_store w) = lastn (nat cap) es
    \<and> Stats (w_store w) = \<lparr>Total = of_nat (length es), Buffered = min (nat cap) (length es)\<rparr>"
proof -
  obtain s where s: "New cap = Inr s" using assms by (simp add: New_def)
  note n = New_ring_inv [OF assms s]
  have inv: "world_inv (new_world s)" using assms s by (rule new_world_inv)
  obtain w where w: "Push_all (new_world s) es = Inr w" "world_inv w"
      "Snapshot (w_store w) = lastn (nat cap) es"
    using feed.push_list [OF inv, of es] n by (auto simp: Push_all_def new_world_def)
  have "total (w_store w) = total (w_store v) + of_nat (length es)"
    if "world_inv v" "fold_ok Push v es = Inr w" for v
    using that
  proof (induction es arbitrary: v)
    case Nil
    then show ?case by simp
  next
    case (Cons e es)
    then obtain v1 where v1: "Push v e = Inr v1" "fold_ok Push v1 es = Inr w"
      by (auto simp: and_then_Inr_iff)
    have "total (w_store v1) = total (w_store v) + 1"
      by (rule store_simps(3) [OF Push_store [OF Cons.prems(1) v1(1)]])
    with Cons.IH [OF Push_inv [OF Cons.prems(1) v1(1)] v1(2)] show ?case by simp
  qed
  from this [OF inv] w(1) n have t: "total (w_store w) = of_nat (length es)"
    by (simp add: Push_all_def new_world_def)
  have "count (w_store w) = min (nat cap) (length es)"
    using w(2,3) length_Snapshot [of "w_store w"] by (simp add: world_inv_def)
  with s w t show ?thesis by (auto simp: Stats_def)
qed

theorem snapshot_is_newest_witness:
  "\<exists>s w. New 2 = Inr s
    \<and> Push_all (new_world s) (map (\<lambda>i. zero_event\<lparr>ev_id := i\<rparr>) [1, 2, 3]) = Inr w
    \<and> map ev_id (Snapshot (w_store w)) = [2, 3]"
  using snapshot_is_newest [of 2 "map (\<lambda>i. zero_event\<lparr>ev_id := i\<rparr>) [1, 2, 3]"]
  by (auto simp: lastn_def numeral_2_eq_2)

text \<open>
  C7. Concurrency safety: in every state reachable by interleaved pushes, subscriptions,
  unsubscriptions and receives, the items a subscriber has received, followed by those
  waiting in its channel, are a subsequence of the items offered to it: nothing is
  reordered, duplicated or invented, and drops are the only loss.
\<close>

theorem delivery_in_order:
  assumes "reachable g"
  shows "subseq (delivered g ch) (g_offered g ch)"
  using reachable_run_inv [OF assms] by (simp add: run_inv_def)

theorem delivery_in_order_witness:
  "\<exists>g. reachable g \<and> g_got g 0 = [zero_event] \<and> g_offered g 0 = [zero_event]
     \<and> subseq (delivered g 0) (g_offered g 0)"
proof -
  obtain s where s: "New 1 = Inr s" by (simp add: New_def)
  have r0: "reachable \<lparr>g_world = new_world s, g_got = (\<lambda>_. []), g_offered = (\<lambda>_. [])\<rparr>" (is "reachable ?g0")
    using s by (intro reachable.start [of 1]) simp_all
  obtain ch w1 where w1: "SubscribeWithFilter (new_world s) AllowAllFilter = (ch, w1)" by fastforce
  have ch: "ch = 0" using Subscribe_fresh [OF w1] by (simp add: new_world_def)
  have r1: "reachable (?g0\<lparr>g_world := w1\<rparr>)"
    by (rule reachable.subscribe [OF r0, of AllowAllFilter ch]) (simp add: w1)
  have f: "w_chans w1 = [make_chan defaultSubChanCap]"
      "subs (w_store w1) = [\<lparr>sub_ch = 0, sub_filter = AllowAllFilter\<rparr>]"
    using Subscribe_fresh [OF w1] s by (auto simp: new_world_def New_def)
  have i1: "world_inv w1" using reachable_run_inv [OF r1] by (simp add: run_inv_def)
  obtain w2 where w2: "Push w1 zero_event = Inr w2" "length (w_chans w2) = 1"
      "w_chans w2 ! 0 = enqueue zero_event (make_chan defaultSubChanCap)"
    using Push_spec [OF i1, of zero_event] f by (auto simp: listens_def)
  have r2: "reachable (?g0\<lparr>g_world := w2, g_offered := (\<lambda>c. [] @
      (if listens (subs (w_store w1)) zero_event c then [zero_event] else []))\<rparr>)" (is "reachable ?g2")
    using reachable.push [OF r1, of zero_event w2] w2(1) by simp
  obtain r w3 where w3: "Receive w2 0 = (r, w3)" by fastforce
  have r: "r = Got zero_event"
    using w3 w2(3) by (auto simp: Receive_def recv_def enqueue_def chan_simps defaultSubChanCap_def)
  have r3: "reachable (?g2\<lparr>g_world := w3, g_got := (\<lambda>_. [])(0 := [zero_event])\<rparr>)"
    using reachable.receive [OF r2, of 0 r w3] w2(2) w3 r by simp
  from delivery_in_order [OF r3, of 0] r3 f(2) show ?thesis
    by (intro exI [of _ "?g2\<lparr>g_world := w3, g_got := (\<lambda>_. [])(0 := [zero_event])\<rparr>"])
       (simp add: listens_def)
qed

text \<open>\<open>New\<close> accepts the capacity 0, and then the first push indexes an empty ring.\<close>

lemma zero_capacity_panics: "\<exists>s p. New 0 = Inr s \<and> Push (new_world s) e = Inl p"
  by (simp add: New_def Push_def push_ring_def new_world_def)

text \<open>
  C9. No operation of a reachable store that was made with a positive capacity panics: a push never
  indexes out of the ring or sends on a closed channel, and an unsubscription never closes a
  channel twice. (With the capacity 0 the first push does panic.)
\<close>

theorem reachable_never_panics:
  assumes "reachable g"
  shows "is_ok (Push (g_world g) e) \<and> is_ok (Unsubscribe (g_world g) ch)"
proof -
  from reachable_run_inv [OF assms] have "world_inv (g_world g)" by (simp add: run_inv_def)
  then show ?thesis using Push_spec [of "g_world g" e] Unsubscribe_ok [of "g_world g" ch]
    by (auto simp: is_ok_iff)
qed

theorem reachable_never_panics_witness:
  "\<exists>g. reachable g \<and> is_ok (Push (g_world g) zero_event)"
proof -
  obtain s where "New 3 = Inr s" by (simp add: New_def)
  then have "reachable \<lparr>g_world = new_world s, g_got = (\<lambda>_. []), g_offered = (\<lambda>_. [])\<rparr>"
    by (intro reachable.start [of 3]) simp_all
  with reachable_never_panics show ?thesis by blast
qed

text \<open>
  A slow subscriber: after a burst of pushes without a receive, its channel holds what
  it held before and then the first matching items of the burst up to the channel's
  capacity of 100; what other subscribers do plays no role.
\<close>

theorem burst_keeps_oldest:
  assumes "world_inv w" "sub \<in> set (subs (w_store w))"
  shows "\<exists>w'. Push_all w es = Inr w'
    \<and> buf (w_chans w' ! sub_ch sub) = buf (w_chans w ! sub_ch sub)
        @ take (100 - length (buf (w_chans w ! sub_ch sub))) [e \<leftarrow> es. Match (sub_filter sub) e]"
  using Push_all_chan [OF assms, of es] unfolding defaultSubChanCap_def by blast

theorem burst_keeps_oldest_witness:
  "\<exists>w w'. Push_all w [zero_event, zero_event\<lparr>ev_table := ''orders''\<rparr>] = Inr w'
     \<and> map ev_table (buf (w_chans w' ! 0)) = [''orders'']"
proof -
  obtain s where s: "New 1 = Inr s" by (simp add: New_def)
  let ?p = "SubscribeWithFilter (new_world s) (TableFilter [''orders''])"
  have i: "world_inv (snd ?p)"
    by (rule Subscribe_inv [of "new_world s" "TableFilter [''orders'']" "fst ?p"])
       (use s new_world_inv [of 1] in auto)
  let ?sub = "\<lparr>sub_ch = 0, sub_filter = TableFilter [''orders'']\<rparr>"
  have m: "?sub \<in> set (subs (w_store (snd ?p)))" "buf (w_chans (snd ?p) ! 0) = []"
    using s by (auto simp: SubscribeWithFilter_def new_world_def chan_simps)
  obtain w' where "Push_all (snd ?p) [zero_event, zero_event\<lparr>ev_table := ''orders''\<rparr>] = Inr w'"
      "buf (w_chans w' ! 0) = [zero_event\<lparr>ev_table := ''orders''\<rparr>]"
    using burst_keeps_oldest [OF i m(1), of "[zero_event, zero_event\<lparr>ev_table := ''orders''\<rparr>]"] m(2)
    by auto
  then show ?thesis by (intro exI [of _ "snd ?p"] exI [of _ w']) simp
qed

end
