(* ===== verification/Marker_Api.thy ===== *)
theory Marker_Api
  imports Feed_Store
begin

text \<open>
  \<open>internal/markerapi/handlers.go\<close> and the configuration in \<open>server.go\<close>: the HTTP endpoints
  that put markers and log lines into the feed. The store behind the interface \<open>Pusher\<close> is
  the argument \<open>push\<close>, with the contract of the locale \<open>pusher\<close>. A request is its method,
  path, content type and body; \<open>json.Unmarshal\<close> into the two body structs is the argument
  record \<open>json_env\<close>, with Unicode's tables beyond ASCII. Sockets and \<open>net/http\<close> itself are
  not modelled, and a path is taken as \<open>ServeMux\<close> has cleaned it.
\<close>

section \<open>Requests and responses\<close>

record request =
  rq_method :: string
  rq_path :: string
  rq_content_type :: string
  rq_body :: string
  rq_body_err :: "string option"
  rq_time :: go_time

datatype payload =
    StatusPayload string
  | ErrorPayload string
  | HealthPayload string int string

record response =
  rs_code :: nat
  rs_payload :: payload

record json_env =
  json_marker :: "string \<Rightarrow> string + (string \<times> string)"
  json_log :: "string \<Rightarrow> string + string"
  rune_lower :: "nat \<Rightarrow> nat"
  rune_print :: "nat \<Rightarrow> bool"

record handlers =
  h_start :: go_time
  h_version :: string

definition maxLabelLen :: nat where "maxLabelLen = 200"
definition maxBodyBytes :: nat where "maxBodyBytes = 4 * 1024"

definition writeJSON :: "nat \<Rightarrow> payload \<Rightarrow> response" where
  "writeJSON code p = \<lparr>rs_code = code, rs_payload = p\<rparr>"

definition writeError :: "nat \<Rightarrow> string \<Rightarrow> response" where
  "writeError code msg = writeJSON code (ErrorPayload msg)"

section \<open>Bodies\<close>

text \<open>
  The reader is cut after one byte more than allowed, so an error of the connection counts
  only when it comes before that. \<open>rq_body\<close> is what arrives before the end or the error.
\<close>

definition readBody :: "request \<Rightarrow> string + string" where
  "readBody r =
    (if length (take (maxBodyBytes + 1) (rq_body r)) > maxBodyBytes then
       Inl (''body exceeds '' @ nat_str maxBodyBytes @ '' bytes'')
     else case rq_body_err r of
       Some e \<Rightarrow> Inl (''read body: '' @ e)
     | None \<Rightarrow> Inr (rq_body r))"

fun isAllowedColor_in :: "string list \<Rightarrow> string \<Rightarrow> bool" where
  "isAllowedColor_in [] c = False"
| "isAllowedColor_in (allowed # rest) c = (c = allowed \<or> isAllowedColor_in rest c)"

definition isAllowedColor :: "string \<Rightarrow> bool" where
  "isAllowedColor c = isAllowedColor_in AllowedMarkerColors c"

text \<open>The label and the colour of a marker, from the point where both are decoded.\<close>

definition check_marker :: "json_env \<Rightarrow> string \<Rightarrow> string \<Rightarrow> string + (string \<times> string)" where
  "check_marker env label0 color0 =
    (let label = trim_space label0 in
     if label = [] then Inl ''label is required''
     else if length label > maxLabelLen then
       Inl (''label exceeds '' @ nat_str maxLabelLen @ '' characters'')
     else
       let color1 = to_lower (rune_lower env) (trim_space color0);
           color = (if color1 = [] then MarkerColorDefault else color1)
       in if \<not> isAllowedColor color then
            Inl (''color '' @ quote (rune_print env) color @ '' not allowed (allowed: ''
              @ join '', '' AllowedMarkerColors @ '')'')
          else Inr (label, color))"

definition parseMarkerBody :: "json_env \<Rightarrow> request \<Rightarrow> string + (string \<times> string)" where
  "parseMarkerBody env r =
    (case readBody r of
       Inl e \<Rightarrow> Inl e
     | Inr body \<Rightarrow>
         if has_prefix (rq_content_type r) ''application/json'' then
           (case json_marker env body of
              Inl e \<Rightarrow> Inl (''invalid JSON: '' @ e)
            | Inr (label, color) \<Rightarrow> check_marker env label color)
         else check_marker env body [])"

definition check_log :: "string \<Rightarrow> string + string" where
  "check_log message0 =
    (let message = trim_right [CHR 0x0D, CHR 0x0A] message0 in
     if trim_space message = [] then Inl ''message is required''
     else if length message > maxLabelLen then
       Inl (''message exceeds '' @ nat_str maxLabelLen @ '' characters'')
     else Inr message)"

definition parseLogBody :: "json_env \<Rightarrow> request \<Rightarrow> string + string" where
  "parseLogBody env r =
    (case readBody r of
       Inl e \<Rightarrow> Inl e
     | Inr body \<Rightarrow>
         if has_prefix (rq_content_type r) ''application/json'' then
           (case json_log env body of
              Inl e \<Rightarrow> Inl (''invalid JSON: '' @ e)
            | Inr message \<Rightarrow> check_log message)
         else check_log body)"

section \<open>Handlers\<close>

definition handleMarker ::
  "json_env \<Rightarrow> ('s \<Rightarrow> event \<Rightarrow> 'p + 's) \<Rightarrow> request \<Rightarrow> 's \<Rightarrow> 'p + (response \<times> 's)" where
  "handleMarker env push r s =
    (if rq_method r \<noteq> ''POST'' then Inr (writeError 405 ''POST required'', s)
     else case parseMarkerBody env r of
       Inl e \<Rightarrow> Inr (writeError 400 e, s)
     | Inr (label, color) \<Rightarrow>
         and_then (push s (NewMarker (rq_time r) label color))
           (\<lambda>s'. Inr (writeJSON 200 (StatusPayload ''ok''), s')))"

definition handleLog ::
  "json_env \<Rightarrow> ('s \<Rightarrow> event \<Rightarrow> 'p + 's) \<Rightarrow> request \<Rightarrow> 's \<Rightarrow> 'p + (response \<times> 's)" where
  "handleLog env push r s =
    (if rq_method r \<noteq> ''POST'' then Inr (writeError 405 ''POST required'', s)
     else case parseLogBody env r of
       Inl e \<Rightarrow> Inr (writeError 400 e, s)
     | Inr message \<Rightarrow>
         and_then (push s (NewLog (rq_time r) message))
           (\<lambda>s'. Inr (writeJSON 200 (StatusPayload ''ok''), s')))"

text \<open>
  \<open>int64(time.Since(start).Seconds())\<close>, whole seconds rounded towards zero. (The detour over
  \<open>float64\<close> is exact for uptimes below \<open>2 ^ 23\<close> seconds.)
\<close>

definition seconds_since :: "go_time \<Rightarrow> go_time \<Rightarrow> int" where
  "seconds_since start now =
    (let d = unix_ns now - unix_ns start
     in if d < 0 then - ((- d) div ns_per_s) else d div ns_per_s)"

definition handleHealth :: "handlers \<Rightarrow> request \<Rightarrow> response" where
  "handleHealth h r =
    (if rq_method r \<noteq> ''GET'' then writeError 405 ''GET required''
     else writeJSON 200 (HealthPayload ''ok'' (seconds_since (h_start h) (rq_time r)) (h_version h)))"

text \<open>The routes of \<open>ListenAndServe\<close>; any other path gets the 404 of \<open>ServeMux\<close>.\<close>

definition serve ::
  "json_env \<Rightarrow> handlers \<Rightarrow> ('s \<Rightarrow> event \<Rightarrow> 'p + 's) \<Rightarrow> request \<Rightarrow> 's \<Rightarrow> 'p + (response \<times> 's)" where
  "serve env h push r s =
    (if rq_path r = ''/marker'' then handleMarker env push r s
     else if rq_path r = ''/log'' then handleLog env push r s
     else if rq_path r = ''/health'' then Inr (handleHealth h r, s)
     else Inr (writeError 404 ''404 page not found'', s))"

text \<open>Requests one after the other, with the responses.\<close>

fun serve_all ::
  "json_env \<Rightarrow> handlers \<Rightarrow> ('s \<Rightarrow> event \<Rightarrow> 'p + 's) \<Rightarrow> request list \<Rightarrow> 's \<Rightarrow> 'p + (response list \<times> 's)" where
  "serve_all env h push [] s = Inr ([], s)"
| "serve_all env h push (r # rs) s =
     and_then (serve env h push r s) (\<lambda>(resp, s').
       and_then (serve_all env h push rs s') (\<lambda>(resps, s''). Inr (resp # resps, s'')))"

section \<open>Server configuration\<close>

record server_options =
  so_bind :: string
  so_port :: int
  so_start :: go_time

definition DefaultPort :: int where "DefaultPort = 6677"
definition DefaultBind :: string where "DefaultBind = ''127.0.0.1''"

definition new_server :: "go_time \<Rightarrow> server_options \<Rightarrow> server_options" where
  "new_server now opts =
    (let o1 = (if so_bind opts = [] then opts\<lparr>so_bind := DefaultBind\<rparr> else opts);
         o2 = (if so_port o1 = 0 then o1\<lparr>so_port := DefaultPort\<rparr> else o1)
     in if unix_ns (so_start o2) = unix_ns zero_time then o2\<lparr>so_start := now\<rparr> else o2)"

definition listen_addr :: "server_options \<Rightarrow> string" where
  "listen_addr opts = so_bind opts @ '':'' @ itoa (so_port opts)"

section \<open>What a request contributes to the feed\<close>

definition accepted :: "json_env \<Rightarrow> request \<Rightarrow> event list" where
  "accepted env r =
    (if rq_method r \<noteq> ''POST'' then []
     else if rq_path r = ''/marker'' then
       (case parseMarkerBody env r of Inl _ \<Rightarrow> [] | Inr (l, c) \<Rightarrow> [NewMarker (rq_time r) l c])
     else if rq_path r = ''/log'' then
       (case parseLogBody env r of Inl _ \<Rightarrow> [] | Inr m \<Rightarrow> [NewLog (rq_time r) m])
     else [])"

text \<open>What the API may put into the feed.\<close>

definition wellformed_entry :: "event \<Rightarrow> bool" where
  "wellformed_entry e \<longleftrightarrow>
     (IsMarker e \<and> ev_label e \<noteq> [] \<and> length (ev_label e) \<le> maxLabelLen
        \<and> ev_color e \<in> set AllowedMarkerColors)
   \<or> (IsLog e \<and> trim_space (ev_message e) \<noteq> [] \<and> length (ev_message e) \<le> maxLabelLen
        \<and> last (ev_message e) \<notin> {CHR 0x0D, CHR 0x0A})"

lemma isAllowedColor_iff: "isAllowedColor c \<longleftrightarrow> c \<in> set AllowedMarkerColors"
proof -
  have "isAllowedColor_in cs c \<longleftrightarrow> c \<in> set cs" for cs by (induction cs) auto
  then show ?thesis by (simp add: isAllowedColor_def)
qed

lemma check_marker_ok:
  "check_marker env l c = Inr (label, color) \<Longrightarrow>
     label = trim_space l \<and> label \<noteq> [] \<and> length label \<le> maxLabelLen \<and> color \<in> set AllowedMarkerColors"
  by (auto simp: check_marker_def Let_def isAllowedColor_iff split: if_splits)

lemma check_log_ok:
  "check_log m0 = Inr m \<Longrightarrow> m = trim_right [CHR 0x0D, CHR 0x0A] m0 \<and> trim_space m \<noteq> []
     \<and> length m \<le> maxLabelLen"
  by (auto simp: check_log_def Let_def split: if_splits)

lemma trim_space_Nil [simp]: "trim_space [] = []"
  by (simp add: trim_space_def strip_def)

lemma check_log_last: "check_log m0 = Inr m \<Longrightarrow> last m \<notin> {CHR 0x0D, CHR 0x0A}"
proof -
  assume "check_log m0 = Inr m"
  then have m: "m = trim_right [CHR 0x0D, CHR 0x0A] m0" "trim_space m \<noteq> []" using check_log_ok by auto
  then have "m \<noteq> []" by auto
  with m(1) trim_right_last [of "[CHR 0x0D, CHR 0x0A]" m0] show ?thesis by simp
qed

lemma parseMarkerBody_ok:
  "parseMarkerBody env r = Inr (label, color) \<Longrightarrow>
     label \<noteq> [] \<and> length label \<le> maxLabelLen \<and> color \<in> set AllowedMarkerColors"
  by (auto simp: parseMarkerBody_def dest!: check_marker_ok split: sum.splits if_splits)

lemma parseLogBody_ok:
  "parseLogBody env r = Inr m \<Longrightarrow> trim_space m \<noteq> [] \<and> length m \<le> maxLabelLen
     \<and> last m \<notin> {CHR 0x0D, CHR 0x0A}"
  unfolding parseLogBody_def
  by (auto dest: check_log_ok check_log_last split: sum.splits if_splits)

lemma color_nonempty: "c \<in> set AllowedMarkerColors \<Longrightarrow> c \<noteq> []"
  by (auto simp: AllowedMarkerColors_def MarkerColorDefault_def)

lemma accepted_wellformed: "e \<in> set (accepted env r) \<Longrightarrow> wellformed_entry e"
  by (auto simp: accepted_def wellformed_entry_def color_nonempty split: sum.splits if_splits
      dest: parseMarkerBody_ok parseLogBody_ok)

section \<open>Clients of a store\<close>

lemma fold_ok_single: "fold_ok f s [x] = f s x"
  by (cases "f s x") simp_all

lemma Inr_and_then_iff: "and_then r (\<lambda>x. Inr (f x)) = Inr y \<longleftrightarrow> (\<exists>x. r = Inr x \<and> y = f x)"
  by (cases r) auto

lemma serve_pushes:
  assumes "\<And>e. \<exists>s'. push s e = Inr s'"
  shows "\<exists>resp s'. serve env h push r s = Inr (resp, s') \<and> fold_ok push s (accepted env r) = Inr s'
    \<and> (rs_code resp = 200 \<longleftrightarrow> accepted env r \<noteq> [] \<or> (rq_path r = ''/health'' \<and> rq_method r = ''GET''))"
proof -
  obtain f where f: "\<And>e. push s e = Inr (f e)" using assms by metis
  consider "rq_path r = ''/marker''" | "rq_path r = ''/log''" | "rq_path r = ''/health''"
    | "rq_path r \<notin> {''/marker'', ''/log'', ''/health''}" by blast
  then show ?thesis
  proof cases
    case 1
    then show ?thesis
      by (auto simp: serve_def handleMarker_def accepted_def writeError_def writeJSON_def f
          split: sum.splits)
  next
    case 2
    then show ?thesis
      by (auto simp: serve_def handleLog_def accepted_def writeError_def writeJSON_def f
          split: sum.splits)
  qed (auto simp: serve_def handleHealth_def accepted_def writeError_def writeJSON_def)
qed

context pusher
begin

lemma serve_all_pushes:
  "ok s \<Longrightarrow> \<exists>resps s'. serve_all env h push rs s = Inr (resps, s')
     \<and> fold_ok push s (concat (map (accepted env) rs)) = Inr s' \<and> length resps = length rs"
proof (induction rs arbitrary: s)
  case (Cons r rs)
  obtain resp s1 where s1: "serve env h push r s = Inr (resp, s1)"
      "fold_ok push s (accepted env r) = Inr s1"
    using serve_pushes [of push s env h r] push_ok [OF Cons.prems] by blast
  moreover have "ok s1"
    using push_list [OF Cons.prems, of "accepted env r"] s1(2) by auto
  ultimately show ?case using Cons.IH [of s1] by (auto simp: fold_ok_append)
qed simp

lemma serve_all_recent:
  assumes "ok s"
  shows "\<exists>resps s'. serve_all env h push rs s = Inr (resps, s') \<and> ok s' \<and> length resps = length rs
    \<and> recent s' = lastn (bound s) (recent s @ concat (map (accepted env) rs))"
  using serve_all_pushes [OF assms, of env h rs] push_list [OF assms, of "concat (map (accepted env) rs)"]
  by auto

end

section \<open>Properties\<close>

text \<open>
  Whatever clients send, only well-formed items enter the feed through the API: markers
  with a non-empty label of at most 200 bytes and one of the allowed colours, and log lines
  with a visible message of at most 200 bytes that does not end in a line break.
\<close>

theorem api_entries_wellformed: "list_all wellformed_entry (accepted env r)"
  using accepted_wellformed by (auto simp: list_all_iff)

text \<open>
  C35. A request is answered 200 exactly when it is accepted (or is a health check), and over
  the store of the feed any sequence of requests is answered without a panic and leaves the
  newest items of the old feed followed by the accepted items in order of arrival: a rejected
  request leaves no trace.
\<close>

theorem api_feeds_store:
  assumes "world_inv w"
  shows "(\<exists>resps w'. serve_all env h Push rs w = Inr (resps, w') \<and> world_inv w' \<and> length resps = length rs
      \<and> Snapshot (w_store w') = lastn (capacity (w_store w))
          (Snapshot (w_store w) @ concat (map (accepted env) rs)))
    \<and> (\<exists>resp w'. serve env h Push r w = Inr (resp, w') \<and> (rs_code resp = 200 \<longleftrightarrow>
          accepted env r \<noteq> [] \<or> (rq_path r = ''/health'' \<and> rq_method r = ''GET'')))"
  using feed.serve_all_recent [OF assms, of env h rs] serve_pushes [of Push w env h r] feed.push_ok [OF assms]
  by blast

definition demo_json :: json_env where
  "demo_json = \<lparr>json_marker = (\<lambda>b. Inl ''unexpected end of JSON input''),
     json_log = (\<lambda>b. Inl ''unexpected end of JSON input''), rune_lower = id, rune_print = (\<lambda>r. True)\<rparr>"

definition demo_post :: "string \<Rightarrow> string \<Rightarrow> request" where
  "demo_post path body = \<lparr>rq_method = ''POST'', rq_path = path, rq_content_type = ''text/plain'',
     rq_body = body, rq_body_err = None, rq_time = zero_time\<rparr>"

lemma demo_trim: "trim_space '' hi '' = ''hi''" "trim_space '' '' = []" "trim_space [] = []"
  by (simp_all add: trim_space_def runes_ascii byte_def strip_def is_space_def)

lemma demo_accepted:
  "accepted demo_json (demo_post ''/marker'' '' hi '') = [NewMarker zero_time ''hi'' ''default'']"
  "accepted demo_json (demo_post ''/log'' '' '') = []"
  by (simp_all add: accepted_def demo_post_def parseMarkerBody_def parseLogBody_def readBody_def
      maxBodyBytes_def maxLabelLen_def check_marker_def check_log_def Let_def demo_trim to_lower_def
      isAllowedColor_iff AllowedMarkerColors_def MarkerColorDefault_def trim_right_def)

theorem api_feeds_store_witness:
  "\<exists>s resps w'. New 3 = Inr s \<and> serve_all demo_json \<lparr>h_start = zero_time, h_version = ''1''\<rparr> Push
      [demo_post ''/marker'' '' hi '', demo_post ''/log'' '' ''] (new_world s) = Inr (resps, w')
    \<and> Snapshot (w_store w') = [NewMarker zero_time ''hi'' ''default'']"
proof -
  obtain s where s: "New 3 = Inr s" by (auto simp: New_def)
  then have inv: "world_inv (new_world s)" and snap: "Snapshot s = []" "capacity s = 3"
    using new_world_inv [of 3 s] New_ring_inv [of 3 s] by auto
  let ?rs = "[demo_post ''/marker'' '' hi '', demo_post ''/log'' '' '']"
  obtain resps w' where
      run: "serve_all demo_json \<lparr>h_start = zero_time, h_version = ''1''\<rparr> Push ?rs (new_world s) = Inr (resps, w')"
      and snapshot: "Snapshot (w_store w') = lastn (capacity (w_store (new_world s)))
        (Snapshot (w_store (new_world s)) @ concat (map (accepted demo_json) ?rs))"
    using conjunct1 [OF api_feeds_store [OF inv]] by blast
  have "Snapshot (w_store w') = [NewMarker zero_time ''hi'' ''default'']"
    using snapshot snap by (simp add: demo_accepted new_world_def)
  with s run show ?thesis by blast
qed

text \<open>
  A plain-text body is accepted as a marker of the default colour exactly when it is at
  most 4096 bytes, not blank, and at most 200 bytes once trimmed. The limit that the error
  message states in characters is one on bytes: sixty-seven arrows are rejected.
\<close>

theorem text_marker_accepted:
  assumes "rq_method r = ''POST''" and "rq_path r = ''/marker''" and "rq_body_err r = None"
    and "\<not> has_prefix (rq_content_type r) ''application/json''"
  shows "accepted env r =
    (if length (rq_body r) \<le> 4096 \<and> trim_space (rq_body r) \<noteq> [] \<and> length (trim_space (rq_body r)) \<le> 200
     then [NewMarker (rq_time r) (trim_space (rq_body r)) MarkerColorDefault] else [])"
proof -
  have "isAllowedColor MarkerColorDefault" "to_lower (rune_lower env) [] = []"
    by (simp_all add: isAllowedColor_iff AllowedMarkerColors_def to_lower_def)
  then show ?thesis
    using assms by (auto simp: accepted_def parseMarkerBody_def readBody_def check_marker_def Let_def
        maxBodyBytes_def maxLabelLen_def)
qed

lemma runes_arrows: "runes (concat (replicate n arrow)) = replicate n (0x2192, arrow)"
proof (induction n)
  case (Suc n)
  then show ?case by (simp add: arrow_def) (subst runes.simps, simp add: Let_def cont_def byte_def)
qed simp

theorem text_marker_accepted_witness:
  "rune_count (concat (replicate 67 arrow)) = 67
   \<and> accepted demo_json (demo_post ''/marker'' (concat (replicate 67 arrow))) = []"
proof -
  have trim: "trim_space (concat (replicate 67 arrow)) = concat (replicate 67 arrow)"
    and n: "rune_count (concat (replicate 67 arrow)) = 67"
    by (simp_all add: trim_space_def rune_count_def runes_arrows strip_id is_space_def)
  have "length (concat (replicate 67 arrow)) = 201" by (simp add: arrow_def length_concat sum_list_replicate)
  then show ?thesis
    using text_marker_accepted [of "demo_post ''/marker'' (concat (replicate 67 arrow))" demo_json] n
    by (simp add: demo_post_def trim)
qed

end
