(* ===== verification/Tui_Filter.thy ===== *)
theory Tui_Filter
  imports Event
begin

text \<open>
  \<open>internal/tui/filter.go\<close>: which items of the feed are shown. \<open>active\<close> maps a table name to
  whether its changes are visible. Rendering of the sidebar takes the terminal styles of
  lipgloss as arguments.
\<close>

type_synonym active_map = "(string, bool) go_map"

fun addTable :: "string list \<Rightarrow> string \<Rightarrow> string list" where
  "addTable tables name = (if list_ex (\<lambda>t. t = name) tables then tables else tables @ [name])"

text \<open>Indexing the map without the second result: a missing key is not active.\<close>

definition is_active :: "active_map \<Rightarrow> string \<Rightarrow> bool" where
  "is_active active t = (map_of active t = Some True)"

definition buildFilterMap :: "string list \<Rightarrow> active_map \<Rightarrow> active_map" where
  "buildFilterMap tables active =
    foldl (\<lambda>result t. if \<not> has_key active t \<or> is_active active t then AList.update t True result else result)
      [] tables"

definition sidebarWidth :: "string list \<Rightarrow> nat" where
  "sidebarWidth tables =
    (let w = foldl (\<lambda>w t. if length t + 5 > w then length t + 5 else w) 14 tables
     in if w > 24 then 24 else w)"

definition shown :: "active_map \<Rightarrow> event \<Rightarrow> bool" where
  "shown active e = (if \<not> IsDBEvent e then True else is_active active (ev_table e))"

definition filterEvents :: "event list \<Rightarrow> active_map \<Rightarrow> event list" where
  "filterEvents events active =
    (if length active = 0 then events else filter (shown active) events)"

record sidebar_styles =
  sb_selected :: "string \<Rightarrow> string"
  sb_header :: "string \<Rightarrow> string"
  sb_insert :: "string \<Rightarrow> string"
  sb_dim :: "string \<Rightarrow> string"

definition sidebar_line ::
  "sidebar_styles \<Rightarrow> active_map \<Rightarrow> int \<Rightarrow> bool \<Rightarrow> int \<Rightarrow> string \<Rightarrow> string" where
  "sidebar_line st active cursor focused i t =
    (let check = (if is_active active t then ''[x]'' else ''[ ]'')
     in (if focused \<and> i = cursor then sb_selected st (check @ '' '' @ t)
         else if is_active active t then sb_insert st (''[x] '' @ t)
         else sb_dim st (''[ ] '' @ t)) @ nl)"

definition renderSidebar ::
  "sidebar_styles \<Rightarrow> string list \<Rightarrow> active_map \<Rightarrow> int \<Rightarrow> bool \<Rightarrow> string" where
  "renderSidebar st tables active cursor focused =
    (if focused then sb_selected st ''Tables'' else sb_header st ''Tables'') @ nl
     @ concat (map (\<lambda>(i, t). sidebar_line st active cursor focused i t)
         (zip (map int [0..<length tables]) tables))"

section \<open>Lemmas\<close>

lemma set_addTable [simp]: "set (addTable tables t) = insert t (set tables)"
  by (auto simp: list_ex_iff)

lemma distinct_addTable: "distinct tables \<Longrightarrow> distinct (addTable tables t)"
  by (auto simp: list_ex_iff)

lemma length_addTable: "length tables \<le> length (addTable tables t)"
  by simp

declare addTable.simps [simp del]

lemma is_active_update [simp]: "is_active (AList.update k b m) t \<longleftrightarrow> (if t = k then b else is_active m t)"
  by (simp add: is_active_def)

lemma has_key_update [simp]: "has_key (AList.update k b m) t \<longleftrightarrow> t = k \<or> has_key m t"
  by (simp only: has_key_iff keys_update) auto

lemma filterEvents_all: "(\<And>e. e \<in> set es \<Longrightarrow> shown active e) \<Longrightarrow> filterEvents es active = es"
  by (simp add: filterEvents_def)

lemma filterEvents_subseq: "subseq (filterEvents es active) es"
  by (simp add: filterEvents_def)

lemma length_filterEvents: "length (filterEvents es active) \<le> length es"
  by (simp add: filterEvents_def)

lemma filterEvents_nonempty:
  "active \<noteq> [] \<Longrightarrow> filterEvents es active = filter (shown active) es"
  by (simp add: filterEvents_def)

text \<open>Items that are not table changes pass every filter.\<close>

lemma filterEvents_keeps: "e \<in> set es \<Longrightarrow> \<not> IsDBEvent e \<Longrightarrow> e \<in> set (filterEvents es active)"
  by (simp add: filterEvents_def shown_def)

lemma buildFilterMap_iff:
  "is_active (buildFilterMap tables active) t \<longleftrightarrow>
     t \<in> set tables \<and> (\<not> has_key active t \<or> is_active active t)"
  unfolding buildFilterMap_def
  by (induction tables rule: rev_induct) (auto simp: is_active_def)

lemma sidebarWidth_bounds: "14 \<le> sidebarWidth tables \<and> sidebarWidth tables \<le> 24"
proof -
  have "w \<le> foldl (\<lambda>w t. if length t + 5 > w then length t + 5 else w) w ts" for w and ts :: "string list"
  proof (induction ts arbitrary: w)
    case (Cons t ts)
    from Cons [of w] Cons [of "length t + 5"] show ?case by auto
  qed simp
  from this [of 14 tables] show ?thesis by (simp add: sidebarWidth_def Let_def)
qed

end
