(* ===== verification/Tui_App.thy ===== *)
theory Tui_App
  imports Tui_Filter
begin

text \<open>
  \<open>internal/tui/app.go\<close>: the state of the terminal viewer and its update function, one message
  at a time as Bubble Tea calls it. A key is the text of its message. Indexing outside of a
  slice is a panic. The \<open>active\<close> map is shared by reference between the copies of the model;
  as only the newest copy is ever used, it is part of the state here.
\<close>

datatype focus = FocusFeed | FocusFilter

datatype tea_cmd = NoCmd | Quit

datatype tea_msg = WindowSizeMsg int int | EventMsg event | KeyMsg string | OtherMsg

record model =
  m_all :: "event list"
  m_tables :: "string list"
  m_active :: active_map
  m_cursor :: int
  m_expanded :: bool
  m_paused :: bool
  m_pending :: "event list"
  m_focus :: focus
  m_filter_cursor :: int
  m_confirm_clear :: bool
  m_show_help :: bool
  m_width :: int
  m_height :: int
  m_target :: string

definition named_db :: "event \<Rightarrow> bool" where
  "named_db e \<longleftrightarrow> IsDBEvent e \<and> ev_table e \<noteq> []"

section \<open>Construction\<close>

definition preload :: "string list \<times> active_map \<Rightarrow> event \<Rightarrow> string list \<times> active_map" where
  "preload ta e = (case ta of (tables, active) \<Rightarrow>
     if named_db e then (addTable tables (ev_table e), AList.update (ev_table e) True active)
     else (tables, active))"

definition NewWithEvents :: "string \<Rightarrow> event list \<Rightarrow> model" where
  "NewWithEvents target events =
    (case foldl preload ([], []) events of (tables, active) \<Rightarrow>
       \<lparr>m_all = events, m_tables = tables, m_active = active,
        m_cursor = (if length events > 0 then int (length events) - 1 else 0),
        m_expanded = False, m_paused = False, m_pending = [], m_focus = FocusFeed,
        m_filter_cursor = 0, m_confirm_clear = False, m_show_help = False, m_width = 0,
        m_height = 0, m_target = target\<rparr>)"

definition new_model :: "string \<Rightarrow> model" where
  "new_model target = NewWithEvents target []"

definition visibleEvents :: "model \<Rightarrow> event list" where
  "visibleEvents m = filterEvents (m_all m) (m_active m)"

section \<open>Keys of the feed\<close>

text \<open>The loops over \<open>visible\<close> towards the previous and the next marker.\<close>

fun prev_marker :: "event list \<Rightarrow> nat \<Rightarrow> go_panic + nat option" where
  "prev_marker visible 0 = Inr None"
| "prev_marker visible (Suc i) =
     (if \<not> i < length visible then Inl IndexOutOfRange
      else if IsMarker (visible ! i) then Inr (Some i)
      else prev_marker visible i)"

definition next_marker :: "event list \<Rightarrow> nat \<Rightarrow> nat option" where
  "next_marker visible i =
     find_index_from IsMarker i (drop i visible)"

definition last_marker :: "event list \<Rightarrow> nat option" where
  "last_marker es =
     (case find_index_from IsMarker 0 (rev es) of None \<Rightarrow> None | Some k \<Rightarrow> Some (length es - 1 - k))"

definition updateFeed :: "model \<Rightarrow> string \<Rightarrow> go_panic + (model \<times> tea_cmd)" where
  "updateFeed m key =
    (let visible = visibleEvents m; len = int (length visible) in
     if key = ''q'' \<or> key = ''ctrl+c'' then Inr (m, Quit)
     else if key = ''j'' \<or> key = ''down'' then
       Inr (if m_cursor m < len - 1 then m\<lparr>m_cursor := m_cursor m + 1\<rparr> else m, NoCmd)
     else if key = ''k'' \<or> key = ''up'' then
       Inr (if m_cursor m > 0 then m\<lparr>m_cursor := m_cursor m - 1\<rparr> else m, NoCmd)
     else if key = ''g'' then Inr (m\<lparr>m_cursor := 0, m_expanded := False\<rparr>, NoCmd)
     else if key = ''G'' then Inr (m\<lparr>m_cursor := max 0 (len - 1)\<rparr>, NoCmd)
     else if key = ''enter'' then
       Inr (if len > 0 then m\<lparr>m_expanded := \<not> m_expanded m\<rparr> else m, NoCmd)
     else if key = '' '' then
       (let m1 = m\<lparr>m_paused := \<not> m_paused m\<rparr>
        in if \<not> m_paused m1 \<and> length (m_pending m1) > 0 then
             (let m2 = m1\<lparr>m_all := m_all m1 @ m_pending m1, m_pending := []\<rparr>
              in Inr (m2\<lparr>m_cursor := max 0 (int (length (visibleEvents m2)) - 1)\<rparr>, NoCmd))
           else Inr (m1, NoCmd))
     else if key = ''f'' then Inr (m\<lparr>m_focus := FocusFilter, m_filter_cursor := 0\<rparr>, NoCmd)
     else if key = ''c'' then Inr (m\<lparr>m_confirm_clear := True\<rparr>, NoCmd)
     else if key = ''?'' then Inr (m\<lparr>m_show_help := True\<rparr>, NoCmd)
     else if key = ''['' then
       and_then (prev_marker visible (nat (m_cursor m))) (\<lambda>r. case r of
           None \<Rightarrow> Inr (m, NoCmd)
         | Some i \<Rightarrow> Inr (m\<lparr>m_cursor := int i, m_expanded := False\<rparr>, NoCmd))
     else if key = '']'' then
       (case next_marker visible (nat (m_cursor m + 1)) of
          None \<Rightarrow> Inr (m, NoCmd)
        | Some i \<Rightarrow> Inr (m\<lparr>m_cursor := int i, m_expanded := False\<rparr>, NoCmd))
     else if key = ''M'' then
       (case last_marker (m_all m) of
          None \<Rightarrow> Inr (m, NoCmd)
        | Some i \<Rightarrow>
            Inr (if i > 0 then m\<lparr>m_all := drop i (m_all m), m_cursor := 0, m_expanded := False\<rparr> else m,
              NoCmd))
     else Inr (m, NoCmd))"

section \<open>Keys of the filter\<close>

definition updateFilter :: "model \<Rightarrow> string \<Rightarrow> go_panic + (model \<times> tea_cmd)" where
  "updateFilter m key =
    (if key = ''q'' \<or> key = ''ctrl+c'' then Inr (m, Quit)
     else if key = ''f'' \<or> key = ''esc'' then Inr (m\<lparr>m_focus := FocusFeed\<rparr>, NoCmd)
     else if key = ''j'' \<or> key = ''down'' then
       Inr (if m_filter_cursor m < int (length (m_tables m)) - 1
            then m\<lparr>m_filter_cursor := m_filter_cursor m + 1\<rparr> else m, NoCmd)
     else if key = ''k'' \<or> key = ''up'' then
       Inr (if m_filter_cursor m > 0 then m\<lparr>m_filter_cursor := m_filter_cursor m - 1\<rparr> else m, NoCmd)
     else if key = '' '' then
       (if length (m_tables m) > 0 then
          (if m_filter_cursor m < 0 \<or> \<not> m_filter_cursor m < int (length (m_tables m)) then
             Inl IndexOutOfRange
           else
             (let t = m_tables m ! nat (m_filter_cursor m);
                  m1 = m\<lparr>m_active := AList.update t (\<not> is_active (m_active m) t) (m_active m)\<rparr>;
                  len = int (length (visibleEvents m1))
              in Inr (if m_cursor m1 \<ge> len then m1\<lparr>m_cursor := max 0 (len - 1)\<rparr> else m1, NoCmd)))
        else Inr (m, NoCmd))
     else Inr (m, NoCmd))"

section \<open>The update function\<close>

definition register_table :: "model \<Rightarrow> event \<Rightarrow> model" where
  "register_table m e =
    (if named_db e then
       (let m1 = m\<lparr>m_tables := addTable (m_tables m) (ev_table e)\<rparr>
        in if has_key (m_active m1) (ev_table e) then m1
           else m1\<lparr>m_active := AList.update (ev_table e) True (m_active m1)\<rparr>)
     else m)"

definition receive_event :: "model \<Rightarrow> event \<Rightarrow> model" where
  "receive_event m0 e =
    (let m = register_table m0 e in
     if m_paused m then m\<lparr>m_pending := m_pending m @ [e]\<rparr>
     else
       (let m1 = m\<lparr>m_all := m_all m @ [e]\<rparr>; len = int (length (visibleEvents m1))
        in if m_cursor m1 \<ge> len - 2 then m1\<lparr>m_cursor := max 0 (len - 1)\<rparr> else m1))"

definition Update :: "model \<Rightarrow> tea_msg \<Rightarrow> go_panic + (model \<times> tea_cmd)" where
  "Update m msg =
    (case msg of
       WindowSizeMsg w h \<Rightarrow> Inr (m\<lparr>m_width := w, m_height := h\<rparr>, NoCmd)
     | EventMsg e \<Rightarrow> Inr (receive_event m e, NoCmd)
     | KeyMsg key \<Rightarrow>
         (if m_confirm_clear m then
            (let m1 = (if key = ''c'' then m\<lparr>m_all := [], m_pending := [], m_cursor := 0, m_expanded := False\<rparr>
                       else m)
             in Inr (m1\<lparr>m_confirm_clear := False\<rparr>, NoCmd))
          else if m_show_help m then Inr (m\<lparr>m_show_help := False\<rparr>, NoCmd)
          else (case m_focus m of FocusFeed \<Rightarrow> updateFeed m key | FocusFilter \<Rightarrow> updateFilter m key))
     | OtherMsg \<Rightarrow> Inr (m, NoCmd))"

text \<open>Messages one after the other; the commands are dropped.\<close>

definition update_model :: "model \<Rightarrow> tea_msg \<Rightarrow> go_panic + model" where
  "update_model m msg = and_then (Update m msg) (\<lambda>(m', cmd). Inr m')"

definition run_updates :: "model \<Rightarrow> tea_msg list \<Rightarrow> go_panic + model" where
  "run_updates m msgs = fold_ok update_model m msgs"

section \<open>Markers\<close>

lemma prev_marker_ok:
  "n \<le> length visible \<Longrightarrow> \<exists>r. prev_marker visible n = Inr r
     \<and> (case r of None \<Rightarrow> \<forall>j < n. \<not> IsMarker (visible ! j)
        | Some i \<Rightarrow> i < n \<and> IsMarker (visible ! i) \<and> (\<forall>j. i < j \<longrightarrow> j < n \<longrightarrow> \<not> IsMarker (visible ! j)))"
proof (induction n)
  case (Suc n)
  then obtain r where r: "prev_marker visible n = Inr r"
    "case r of None \<Rightarrow> \<forall>j < n. \<not> IsMarker (visible ! j)
      | Some i \<Rightarrow> i < n \<and> IsMarker (visible ! i) \<and> (\<forall>j. i < j \<longrightarrow> j < n \<longrightarrow> \<not> IsMarker (visible ! j))"
    by auto
  from Suc.prems have n: "n < length visible" by simp
  show ?case
  proof (cases "IsMarker (visible ! n)")
    case True
    with n show ?thesis by simp
  next
    case False
    with n r show ?thesis by (auto simp: less_Suc_eq split: option.splits)
  qed
qed simp

lemma prev_marker_bound:
  "n \<le> length visible \<Longrightarrow> \<exists>r. prev_marker visible n = Inr r \<and> (\<forall>i. r = Some i \<longrightarrow> i < n)"
  by (induction n) (auto simp: less_Suc_eq)

lemma next_marker_Some:
  assumes "next_marker visible n = Some i"
  shows "n \<le> i \<and> i < length visible \<and> IsMarker (visible ! i)
    \<and> (\<forall>j. n \<le> j \<longrightarrow> j < i \<longrightarrow> \<not> IsMarker (visible ! j))"
proof -
  from find_index_from_Some [OF assms [unfolded next_marker_def]]
  have h: "n \<le> i" "i - n < length (drop n visible)" "IsMarker (drop n visible ! (i - n))"
    "\<forall>j < i - n. \<not> IsMarker (drop n visible ! j)" by auto
  have "\<not> IsMarker (visible ! j)" if "n \<le> j" "j < i" for j
    using h(4) [rule_format, of "j - n"] that h(1,2) by simp
  with h show ?thesis by auto
qed

lemma next_marker_None: "next_marker visible n = None \<longleftrightarrow> (\<forall>e \<in> set (drop n visible). \<not> IsMarker e)"
  by (simp add: next_marker_def find_index_from_None)

lemma last_marker_Some:
  assumes "last_marker es = Some i"
  shows "i < length es \<and> IsMarker (es ! i) \<and> (\<forall>e \<in> set (drop (Suc i) es). \<not> IsMarker e)"
proof -
  from assms obtain k where k: "find_index_from IsMarker 0 (rev es) = Some k" "i = length es - 1 - k"
    by (auto simp: last_marker_def split: option.splits)
  from find_index_from_Some [OF k(1)] have h: "k < length es" "IsMarker (rev es ! k)"
    "\<forall>j < k. \<not> IsMarker (rev es ! j)" by auto
  have "IsMarker (es ! i)" using h k(2) by (simp add: rev_nth)
  moreover have "\<not> IsMarker e" if "e \<in> set (drop (Suc i) es)" for e
  proof -
    from that obtain j where j: "j < length es - Suc i" "e = es ! (Suc i + j)"
      by (auto simp: in_set_conv_nth)
    let ?l = "length es - Suc (Suc i + j)"
    have l: "?l < length es" "length es - Suc ?l = Suc i + j" "?l < k" using j h(1) k(2) by arith+
    then have "rev es ! ?l = e" using j(2) by (simp only: rev_nth)
    with l(3) h(3) show ?thesis by auto
  qed
  ultimately show ?thesis using h(1) k(2) by auto
qed

lemma last_marker_None: "last_marker es = None \<longleftrightarrow> (\<forall>e \<in> set es. \<not> IsMarker e)"
  using find_index_from_None [of IsMarker 0 "rev es"]
  by (cases "find_index_from IsMarker 0 (rev es)") (simp_all add: last_marker_def)

section \<open>The invariant\<close>

definition cursor_ok :: "model \<Rightarrow> bool" where
  "cursor_ok m \<longleftrightarrow> 0 \<le> m_cursor m \<and> m_cursor m \<le> max 0 (int (length (visibleEvents m)) - 1)"

definition filter_ok :: "model \<Rightarrow> bool" where
  "filter_ok m \<longleftrightarrow> distinct (m_tables m) \<and> set (m_tables m) = fst ` set (m_active m)
     \<and> 0 \<le> m_filter_cursor m \<and> m_filter_cursor m \<le> max 0 (int (length (m_tables m)) - 1)"

definition known_tables :: "model \<Rightarrow> bool" where
  "known_tables m \<longleftrightarrow> (\<forall>e \<in> set (m_all m @ m_pending m). IsDBEvent e \<longrightarrow> has_key (m_active m) (ev_table e))"

definition tui_inv :: "model \<Rightarrow> bool" where
  "tui_inv m \<longleftrightarrow> cursor_ok m \<and> filter_ok m \<and> known_tables m"

text \<open>Table changes carry the name of their table.\<close>

definition named_event :: "event \<Rightarrow> bool" where
  "named_event e \<longleftrightarrow> (IsDBEvent e \<longrightarrow> ev_table e \<noteq> [])"

definition named_msg :: "tea_msg \<Rightarrow> bool" where
  "named_msg msg \<longleftrightarrow> (case msg of EventMsg e \<Rightarrow> named_event e | _ \<Rightarrow> True)"

lemma cursor_in_range: "cursor_ok m \<Longrightarrow> nat (m_cursor m) \<le> length (visibleEvents m)"
  by (auto simp: cursor_ok_def)

text \<open>Learning a new table does not change what is visible of the items already there.\<close>

lemma filterEvents_new_table:
  assumes "\<And>e. e \<in> set es \<Longrightarrow> IsDBEvent e \<Longrightarrow> has_key active (ev_table e)"
    and "\<not> has_key active t"
  shows "filterEvents es (AList.update t True active) = filterEvents es active"
proof (cases "active = []")
  case True
  then have "shown (AList.update t True active) e" if "e \<in> set es" for e
    using assms(1) [OF that] by (auto simp: shown_def has_key_iff)
  then show ?thesis using True by (simp add: filterEvents_all) (simp add: filterEvents_def)
next
  case False
  then have "AList.update t True active \<noteq> []" by (cases active) (auto split: if_splits)
  with False show ?thesis
    using assms by (auto simp: filterEvents_nonempty shown_def cong: filter_cong) (auto intro!: filter_cong simp: shown_def)
qed

lemma register_table_fields [tui_simps]:
  "m_all (register_table m e) = m_all m" "m_pending (register_table m e) = m_pending m"
  "m_cursor (register_table m e) = m_cursor m" "m_paused (register_table m e) = m_paused m"
  "m_filter_cursor (register_table m e) = m_filter_cursor m"
  by (simp_all add: register_table_def Let_def)

lemma register_table_visible:
  "known_tables m \<Longrightarrow> visibleEvents (register_table m e) = visibleEvents m"
  by (auto simp: register_table_def visibleEvents_def known_tables_def Let_def filterEvents_new_table)

lemma register_table_known:
  "known_tables m \<Longrightarrow> known_tables (register_table m e)
     \<and> (named_event e \<longrightarrow> IsDBEvent e \<longrightarrow> has_key (m_active (register_table m e)) (ev_table e))"
  by (auto simp: register_table_def known_tables_def Let_def has_key_iff named_event_def named_db_def)

lemma register_table_filter: "filter_ok m \<Longrightarrow> filter_ok (register_table m e)"
  using length_addTable [of "m_tables m" "ev_table e"]
  by (auto simp: register_table_def filter_ok_def Let_def has_key_iff distinct_addTable)

lemma cursor_ok_clamp: "cursor_ok (m\<lparr>m_cursor := max 0 (int (length (visibleEvents m)) - 1)\<rparr>)"
  by (simp add: cursor_ok_def visibleEvents_def)

lemma visible_cong: "m_all m = m_all n \<Longrightarrow> m_active m = m_active n \<Longrightarrow> visibleEvents m = visibleEvents n"
  by (simp add: visibleEvents_def)

lemma filterEvents_snoc: "length (filterEvents es active) \<le> length (filterEvents (es @ [e]) active)
    \<and> length (filterEvents (es @ [e]) active) \<le> Suc (length (filterEvents es active))"
  by (simp add: filterEvents_def)

lemma receive_event_inv:
  assumes "tui_inv m" and "named_event e"
  shows "tui_inv (receive_event m e)"
proof -
  let ?r = "register_table m e"
  have known: "known_tables ?r" "IsDBEvent e \<Longrightarrow> has_key (m_active ?r) (ev_table e)"
    and flt: "filter_ok ?r" and vis: "visibleEvents ?r = visibleEvents m"
    using assms register_table_known register_table_filter register_table_visible
    by (auto simp: tui_inv_def)
  have cur: "cursor_ok ?r"
    using assms(1) vis by (simp add: tui_inv_def cursor_ok_def tui_simps)
  show ?thesis
  proof (cases "m_paused m")
    case True
    with known flt cur show ?thesis
      by (auto simp: receive_event_def Let_def tui_inv_def known_tables_def filter_ok_def cursor_ok_def
          visibleEvents_def tui_simps)
  next
    case False
    let ?n = "?r\<lparr>m_all := m_all ?r @ [e]\<rparr>"
    have n: "filter_ok ?n" "known_tables ?n" using known flt by (auto simp: known_tables_def filter_ok_def)
    have grow: "length (visibleEvents ?r) \<le> length (visibleEvents ?n)"
      using filterEvents_snoc [of "m_all ?r" "m_active ?r" e] by (simp add: visibleEvents_def)
    let ?v = "int (length (visibleEvents ?n))"
    have run: "receive_event m e = (if m_cursor ?n \<ge> ?v - 2 then ?n\<lparr>m_cursor := max 0 (?v - 1)\<rparr> else ?n)"
      using False by (simp add: receive_event_def Let_def tui_simps)
    show ?thesis
    proof (cases "m_cursor ?n \<ge> ?v - 2")
      case True
      have "tui_inv (?n\<lparr>m_cursor := max 0 (?v - 1)\<rparr>)"
        using n cursor_ok_clamp [of ?n] unfolding tui_inv_def by (simp add: filter_ok_def known_tables_def)
      with run True show ?thesis by simp
    next
      case False
      then have "cursor_ok ?n" using cur grow by (simp add: cursor_ok_def)
      with n run False show ?thesis by (simp add: tui_inv_def)
    qed
  qed
qed

text \<open>Fields that the invariant does not mention, and the cursor.\<close>

lemma tui_inv_frame [simp]:
  "tui_inv (m\<lparr>m_expanded := b\<rparr>) = tui_inv m" "tui_inv (m\<lparr>m_paused := b\<rparr>) = tui_inv m"
  "tui_inv (m\<lparr>m_focus := f\<rparr>) = tui_inv m" "tui_inv (m\<lparr>m_confirm_clear := b\<rparr>) = tui_inv m"
  "tui_inv (m\<lparr>m_show_help := b\<rparr>) = tui_inv m" "tui_inv (m\<lparr>m_width := w\<rparr>) = tui_inv m"
  "tui_inv (m\<lparr>m_height := w\<rparr>) = tui_inv m"
  by (simp_all add: tui_inv_def cursor_ok_def filter_ok_def known_tables_def visibleEvents_def)

lemma visibleEvents_frame [simp]:
  "visibleEvents (m\<lparr>m_cursor := c\<rparr>) = visibleEvents m" "visibleEvents (m\<lparr>m_expanded := b\<rparr>) = visibleEvents m"
  "visibleEvents (m\<lparr>m_paused := b\<rparr>) = visibleEvents m"
  by (simp_all add: visibleEvents_def)

lemma tui_inv_cursor:
  "tui_inv m \<Longrightarrow> 0 \<le> c \<Longrightarrow> c \<le> max 0 (int (length (visibleEvents m)) - 1) \<Longrightarrow> tui_inv (m\<lparr>m_cursor := c\<rparr>)"
  by (simp add: tui_inv_def cursor_ok_def filter_ok_def known_tables_def)

lemma tui_inv_filter_cursor:
  "tui_inv m \<Longrightarrow> 0 \<le> c \<Longrightarrow> c \<le> max 0 (int (length (m_tables m)) - 1) \<Longrightarrow> tui_inv (m\<lparr>m_filter_cursor := c\<rparr>)"
  by (simp add: tui_inv_def cursor_ok_def filter_ok_def known_tables_def visibleEvents_def)

lemma tui_inv_cursor_range:
  "tui_inv m \<Longrightarrow> 0 \<le> m_cursor m \<and> m_cursor m \<le> max 0 (int (length (visibleEvents m)) - 1)
     \<and> 0 \<le> m_filter_cursor m \<and> m_filter_cursor m \<le> max 0 (int (length (m_tables m)) - 1)"
  by (simp add: tui_inv_def cursor_ok_def filter_ok_def)

lemma tui_inv_items:
  assumes "tui_inv m" and "set (es @ ps) \<subseteq> set (m_all m @ m_pending m)"
    and "0 \<le> c" "c \<le> max 0 (int (length (filterEvents es (m_active m))) - 1)"
  shows "tui_inv (m\<lparr>m_all := es, m_pending := ps, m_cursor := c\<rparr>)"
  using assms by (auto simp: tui_inv_def cursor_ok_def filter_ok_def known_tables_def visibleEvents_def)

lemma updateFeed_inv:
  assumes "tui_inv m"
  shows "\<exists>m' cmd. updateFeed m key = Inr (m', cmd) \<and> tui_inv m'"
proof -
  have range: "0 \<le> m_cursor m" "m_cursor m \<le> max 0 (int (length (visibleEvents m)) - 1)"
    using tui_inv_cursor_range [OF assms] by auto
  consider "key = ''[''" | "key = '']''" | "key = ''M''" | "key = '' ''"
    | "key \<in> {''j'', ''down'', ''k'', ''up''}" | "key \<in> {''g'', ''G'', ''f''}"
    | "key \<notin> {''['', '']'', ''M'', '' '', ''j'', ''down'', ''k'', ''up'', ''g'', ''G'', ''f''}" by auto
  then show ?thesis
  proof cases
    case 1
    have "nat (m_cursor m) \<le> length (visibleEvents m)" using range by auto
    from prev_marker_bound [OF this]
    obtain r where r: "prev_marker (visibleEvents m) (nat (m_cursor m)) = Inr r"
        "\<And>i. r = Some i \<Longrightarrow> i < nat (m_cursor m)"
      by blast
    show ?thesis
    proof (cases r)
      case (Some i)
      with r(2) range have "tui_inv (m\<lparr>m_cursor := int i\<rparr>)"
        by (intro tui_inv_cursor [OF assms]) auto
      then have "tui_inv (m\<lparr>m_cursor := int i, m_expanded := False\<rparr>)" by (simp del: visibleEvents_frame)
      with 1 r(1) Some show ?thesis by (simp add: updateFeed_def Let_def)
    qed (use 1 r(1) assms in \<open>simp add: updateFeed_def Let_def\<close>)
  next
    case 2
    show ?thesis
    proof (cases "next_marker (visibleEvents m) (nat (m_cursor m + 1))")
      case (Some i)
      with next_marker_Some [OF Some] have "tui_inv (m\<lparr>m_cursor := int i\<rparr>)"
        by (intro tui_inv_cursor [OF assms]) auto
      with 2 Some show ?thesis by (simp add: updateFeed_def Let_def)
    qed (use 2 assms in \<open>simp add: updateFeed_def Let_def\<close>)
  next
    case 3
    have "tui_inv (m\<lparr>m_all := drop i (m_all m), m_pending := m_pending m, m_cursor := 0\<rparr>)" for i
      by (rule tui_inv_items [OF assms]) (auto dest: in_set_dropD)
    with 3 assms show ?thesis
      by (cases "last_marker (m_all m)") (auto simp: updateFeed_def Let_def)
  next
    case 4
    have "tui_inv (m\<lparr>m_paused := False, m_all := m_all m @ m_pending m, m_pending := [],
        m_cursor := max 0 (int (length (filterEvents (m_all m @ m_pending m) (m_active m))) - 1)\<rparr>)"
      by (rule tui_inv_items) (auto simp: assms)
    with 4 assms show ?thesis by (auto simp: updateFeed_def Let_def visibleEvents_def)
  next
    case 5
    have down: "tui_inv (m\<lparr>m_cursor := m_cursor m + 1\<rparr>)"
      if "m_cursor m < int (length (visibleEvents m)) - 1"
      using range that by (intro tui_inv_cursor [OF assms]) simp_all
    have up: "tui_inv (m\<lparr>m_cursor := m_cursor m - 1\<rparr>)" if "m_cursor m > 0"
      using range that by (intro tui_inv_cursor [OF assms]) simp_all
    from 5 consider "key = ''j'' \<or> key = ''down''" | "key = ''k'' \<or> key = ''up''" by auto
    then show ?thesis
    proof cases
      case 1
      then have "updateFeed m key = Inr (if m_cursor m < int (length (visibleEvents m)) - 1
          then m\<lparr>m_cursor := m_cursor m + 1\<rparr> else m, NoCmd)"
        by (elim disjE) (simp_all add: updateFeed_def Let_def)
      then show ?thesis using down assms by (simp only: split: if_split) blast
    next
      case 2
      then have "updateFeed m key = Inr (if m_cursor m > 0 then m\<lparr>m_cursor := m_cursor m - 1\<rparr> else m, NoCmd)"
        by (elim disjE) (simp_all add: updateFeed_def Let_def)
      then show ?thesis using up assms by (simp only: split: if_split) blast
    qed
  next
    case 6
    have top: "tui_inv (m\<lparr>m_cursor := 0\<rparr>)" "tui_inv (m\<lparr>m_filter_cursor := 0\<rparr>)"
      using tui_inv_cursor [OF assms, of 0] tui_inv_filter_cursor [OF assms, of 0] by simp_all
    have bottom: "tui_inv (m\<lparr>m_cursor := max 0 (int (length (visibleEvents m)) - 1)\<rparr>)"
      by (rule tui_inv_cursor [OF assms]) simp_all
    have "tui_inv (m\<lparr>m_focus := FocusFilter, m_filter_cursor := 0\<rparr>)"
      using tui_inv_filter_cursor [of "m\<lparr>m_focus := FocusFilter\<rparr>" 0] assms by simp
    with 6 top bottom show ?thesis by (elim insertE emptyE) (simp_all add: updateFeed_def Let_def)
  next
    case 7
    with assms show ?thesis by (simp add: updateFeed_def Let_def)
  qed
qed

lemma updateFilter_inv:
  assumes "tui_inv m"
  shows "\<exists>m' cmd. updateFilter m key = Inr (m', cmd) \<and> tui_inv m'"
proof (cases "key = '' '' \<and> length (m_tables m) > 0")
  case True
  have h: "cursor_ok m" "filter_ok m" "known_tables m" using assms by (auto simp: tui_inv_def)
  then have fc: "0 \<le> m_filter_cursor m" "m_filter_cursor m < int (length (m_tables m))"
    using True by (auto simp: filter_ok_def)
  let ?t = "m_tables m ! nat (m_filter_cursor m)"
  let ?m = "m\<lparr>m_active := AList.update ?t (\<not> is_active (m_active m) ?t) (m_active m)\<rparr>"
  let ?v = "int (length (visibleEvents ?m))"
  have t: "?t \<in> set (m_tables m)" using fc by simp
  have "known_tables ?m"
    using h(3) by (simp add: known_tables_def has_key_iff del: map_of_update)
  moreover have "filter_ok ?m" using h(2) t by (auto simp: filter_ok_def)
  ultimately have n: "filter_ok ?m" "known_tables ?m" by auto
  have run: "updateFilter m key =
      Inr (if m_cursor ?m \<ge> ?v then ?m\<lparr>m_cursor := max 0 (?v - 1)\<rparr> else ?m, NoCmd)"
    using True fc by (simp add: updateFilter_def Let_def)
  show ?thesis
  proof (cases "m_cursor ?m \<ge> ?v")
    case True
    have "tui_inv (?m\<lparr>m_cursor := max 0 (?v - 1)\<rparr>)"
      using n cursor_ok_clamp [of ?m] unfolding tui_inv_def by (simp add: filter_ok_def known_tables_def)
    with run True show ?thesis by simp
  next
    case False
    then have "cursor_ok ?m" using h(1) by (simp add: cursor_ok_def)
    with n run False show ?thesis by (simp add: tui_inv_def)
  qed
next
  case False
  with tui_inv_cursor_range [OF assms] tui_inv_filter_cursor [OF assms, of "m_filter_cursor m + 1"]
    tui_inv_filter_cursor [OF assms, of "m_filter_cursor m - 1"] assms
  show ?thesis by (auto simp: updateFilter_def)
qed

lemma Update_inv:
  assumes "tui_inv m" and "named_msg msg"
  shows "\<exists>m' cmd. Update m msg = Inr (m', cmd) \<and> tui_inv m'"
proof (cases msg)
  case (EventMsg e)
  with assms receive_event_inv [of m e] show ?thesis by (simp add: Update_def named_msg_def)
next
  case (KeyMsg key)
  show ?thesis
  proof (cases "m_confirm_clear m \<or> m_show_help m")
    case True
    have "tui_inv (m\<lparr>m_all := [], m_pending := [], m_cursor := 0\<rparr>)"
      by (rule tui_inv_items [OF assms(1)]) auto
    with KeyMsg True assms(1) show ?thesis by (auto simp: Update_def Let_def)
  next
    case False
    with KeyMsg updateFeed_inv [OF assms(1)] updateFilter_inv [OF assms(1)] show ?thesis
      by (cases "m_focus m") (simp_all add: Update_def)
  qed
qed (use assms in \<open>auto simp: Update_def\<close>)

lemma update_model_inv:
  "tui_inv m \<Longrightarrow> named_msg msg \<Longrightarrow> \<exists>m'. update_model m msg = Inr m' \<and> tui_inv m'"
  using Update_inv [of m msg] by (auto simp: update_model_def)

lemma run_updates_inv:
  "tui_inv m \<Longrightarrow> list_all named_msg msgs \<Longrightarrow> \<exists>m'. run_updates m msgs = Inr m' \<and> tui_inv m'"
proof (induction msgs arbitrary: m)
  case (Cons msg msgs)
  then obtain m1 where m1: "update_model m msg = Inr m1" "tui_inv m1" using update_model_inv by force
  from Cons.IH [OF m1(2)] Cons.prems(2) m1(1) show ?case by (simp add: run_updates_def)
qed (simp add: run_updates_def)

section \<open>The initial model\<close>

lemma preload_ok:
  assumes "foldl preload ([], []) es = (tables, active)"
  shows "distinct tables \<and> set tables = fst ` set active
    \<and> (\<forall>t. map_of active t \<noteq> Some False)
    \<and> (\<forall>e \<in> set es. named_db e \<longrightarrow> ev_table e \<in> fst ` set active)"
  using assms
proof (induction es arbitrary: tables active rule: rev_induct)
  case (snoc e es)
  obtain ta ac where ta: "foldl preload ([], []) es = (ta, ac)"
    by (cases "foldl preload ([], []) es")
  have eq: "preload (ta, ac) e = (tables, active)" using snoc.prems ta by simp
  note IH = snoc.IH [OF ta]
  show ?case
  proof (cases "named_db e")
    case True
    with eq have "tables = addTable ta (ev_table e)" "active = AList.update (ev_table e) True ac"
      by (simp_all add: preload_def)
    with IH True show ?thesis by (auto simp: distinct_addTable)
  next
    case False
    with eq have "tables = ta" "active = ac" by (simp_all add: preload_def)
    with IH False show ?thesis by simp
  qed
qed simp

lemma NewWithEvents_inv:
  assumes "list_all named_event es"
  shows "tui_inv (NewWithEvents target es)"
proof -
  obtain tables active where ta: "foldl preload ([], []) es = (tables, active)"
    by (cases "foldl preload ([], []) es")
  note ok = preload_ok [OF ta]
  have known: "has_key active (ev_table e)" if "e \<in> set es" "IsDBEvent e" for e
    using ok that assms by (simp add: has_key_iff list_all_iff named_event_def named_db_def)
  have "filterEvents es active = es"
  proof (rule filterEvents_all)
    fix e assume e: "e \<in> set es"
    show "shown active e"
    proof (cases "IsDBEvent e")
      case True
      with known [OF e] obtain b where "map_of active (ev_table e) = Some b" by blast
      with ok True show ?thesis by (cases b) (auto simp: shown_def is_active_def)
    qed (simp add: shown_def)
  qed
  with ok known show ?thesis
    by (simp add: NewWithEvents_def ta tui_inv_def cursor_ok_def filter_ok_def known_tables_def visibleEvents_def)
qed

section \<open>What the model holds of what it received\<close>

definition received_of :: "tea_msg \<Rightarrow> event list" where
  "received_of msg = (case msg of EventMsg e \<Rightarrow> [e] | _ \<Rightarrow> [])"

definition received :: "tea_msg list \<Rightarrow> event list" where
  "received msgs = concat (map received_of msgs)"

definition items :: "model \<Rightarrow> event list" where
  "items m = m_all m @ m_pending m"

definition settled :: "model \<Rightarrow> bool" where
  "settled m \<longleftrightarrow> (\<not> m_paused m \<longrightarrow> m_pending m = [])"

lemma receive_event_items:
  "settled m \<Longrightarrow> items (receive_event m e) = items m @ [e] \<and> settled (receive_event m e)"
  by (auto simp: receive_event_def Let_def items_def settled_def tui_simps)

text \<open>A property of the model that an update returns, shown branch by branch.\<close>

definition returns :: "(model \<Rightarrow> bool) \<Rightarrow> go_panic + (model \<times> tea_cmd) \<Rightarrow> bool" where
  "returns P r \<longleftrightarrow> (\<forall>m cmd. r = Inr (m, cmd) \<longrightarrow> P m)"

lemma returns_Inr [simp]: "returns P (Inr (m, cmd)) \<longleftrightarrow> P m"
  by (simp add: returns_def)

lemma returns_Inl [simp]: "returns P (Inl e)"
  by (simp add: returns_def)

lemma returns_if:
  "(b \<Longrightarrow> returns P r) \<Longrightarrow> (\<not> b \<Longrightarrow> returns P s) \<Longrightarrow> returns P (if b then r else s)"
  by simp

lemma returns_and_then: "(\<And>x. returns P (f x)) \<Longrightarrow> returns P (and_then r f)"
  by (cases r) simp_all

lemma returns_option:
  "returns P r \<Longrightarrow> (\<And>i. x = Some i \<Longrightarrow> returns P (f i)) \<Longrightarrow> returns P (case x of None \<Rightarrow> r | Some i \<Rightarrow> f i)"
  by (cases x) simp_all

lemmas returns_intros = returns_if returns_and_then returns_option

lemma updateFeed_items:
  assumes "settled m" and "updateFeed m key = Inr (m', cmd)"
  shows "settled m' \<and> suffix (items m') (items m) \<and> (key \<noteq> ''M'' \<longrightarrow> items m' = items m)"
proof -
  have "returns (\<lambda>m'. settled m' \<and> suffix (items m') (items m) \<and> (key \<noteq> ''M'' \<longrightarrow> items m' = items m))
      (updateFeed m key)"
    unfolding updateFeed_def Let_def
    by (intro returns_intros; use assms(1) in \<open>simp add: items_def settled_def suffix_drop\<close>)
  with assms(2) show ?thesis by (simp add: returns_def)
qed

lemma updateFilter_items:
  assumes "settled m" and "updateFilter m key = Inr (m', cmd)"
  shows "settled m' \<and> items m' = items m"
proof -
  have "returns (\<lambda>m'. settled m' \<and> items m' = items m) (updateFilter m key)"
    unfolding updateFilter_def Let_def
    by (intro returns_intros; use assms(1) in \<open>simp add: items_def settled_def\<close>)
  with assms(2) show ?thesis by (simp add: returns_def)
qed

lemma update_model_items:
  assumes "settled m" and "update_model m msg = Inr m'"
  shows "settled m' \<and> suffix (items m') (items m @ received_of msg)
    \<and> (msg \<notin> {KeyMsg ''c'', KeyMsg ''M''} \<longrightarrow> items m' = items m @ received_of msg)"
proof (cases msg)
  case (EventMsg e)
  with assms receive_event_items [of m e] show ?thesis
    by (simp add: update_model_def Update_def received_of_def)
next
  case (KeyMsg key)
  show ?thesis
  proof (cases "m_confirm_clear m \<or> m_show_help m")
    case True
    with KeyMsg assms show ?thesis
      by (auto simp: update_model_def Update_def received_of_def Let_def items_def settled_def split: if_splits)
  next
    case False
    with KeyMsg assms updateFeed_items [of m key m'] updateFilter_items [of m key m'] show ?thesis
      by (cases "m_focus m")
         (auto simp: update_model_def Update_def received_of_def and_then_def split: sum.splits)
  qed
qed (use assms in \<open>auto simp: update_model_def Update_def received_of_def items_def settled_def\<close>)

lemma run_updates_items:
  assumes "settled m" and "run_updates m msgs = Inr m'"
  shows "settled m' \<and> suffix (items m') (items m @ received msgs)
    \<and> (KeyMsg ''c'' \<notin> set msgs \<longrightarrow> KeyMsg ''M'' \<notin> set msgs \<longrightarrow> items m' = items m @ received msgs)"
  using assms
proof (induction msgs arbitrary: m)
  case (Cons msg msgs)
  then obtain m1 where m1: "update_model m msg = Inr m1" "run_updates m1 msgs = Inr m'"
    by (auto simp: run_updates_def and_then_Inr_iff)
  from update_model_items [OF Cons.prems(1) m1(1)]
  have step: "settled m1" "suffix (items m1) (items m @ received_of msg)"
    "msg \<notin> {KeyMsg ''c'', KeyMsg ''M''} \<Longrightarrow> items m1 = items m @ received_of msg" by auto
  from Cons.IH [OF step(1) m1(2)]
  have IH: "settled m'" "suffix (items m') (items m1 @ received msgs)"
    "KeyMsg ''c'' \<notin> set msgs \<Longrightarrow> KeyMsg ''M'' \<notin> set msgs \<Longrightarrow> items m' = items m1 @ received msgs" by auto
  have "suffix (items m1 @ received msgs) (items m @ received (msg # msgs))"
    using step(2) by (simp add: received_def flip: append_assoc)
  with IH step show ?case
    by (auto simp: received_def intro: suffix_order.trans)
qed (simp add: run_updates_def received_def)

section \<open>Properties\<close>

text \<open>
  C10. Whatever is typed and in whatever order events arrive, the viewer never panics and its
  cursor stays on a visible line (or on line 0 of an empty feed), and the filter cursor on a
  table, as long as every table change names its table.
\<close>

theorem tui_never_panics:
  assumes "list_all named_event es" and "list_all named_msg msgs"
  shows "\<exists>m. run_updates (NewWithEvents target es) msgs = Inr m
    \<and> 0 \<le> m_cursor m \<and> m_cursor m \<le> max 0 (int (length (visibleEvents m)) - 1)
    \<and> 0 \<le> m_filter_cursor m \<and> m_filter_cursor m \<le> max 0 (int (length (m_tables m)) - 1)"
  using run_updates_inv [OF NewWithEvents_inv [OF assms(1)] assms(2)] tui_inv_cursor_range by blast

definition demo_change :: "string \<Rightarrow> event" where
  "demo_change t = zero_event\<lparr>ev_kind := KindEvent, ev_type := EventInsert, ev_table := t\<rparr>"

definition demo_mark :: event where
  "demo_mark = NewMarker zero_time ''test'' []"

lemma demo_items [simp]:
  "IsMarker demo_mark" "\<not> IsDBEvent demo_mark" "IsDBEvent (demo_change t)" "\<not> IsMarker (demo_change t)"
  "ev_table (demo_change t) = t"
  by (simp_all add: demo_mark_def demo_change_def kind_preds kind_defs NewMarker_def)

definition demo_keys :: "tea_msg list" where
  "demo_keys = [KeyMsg '' '', EventMsg (demo_change ''orders''), KeyMsg ''['', KeyMsg '' '', KeyMsg ''f'', KeyMsg '' '',
     KeyMsg ''esc'', KeyMsg '']'']"

theorem tui_never_panics_witness:
  "\<exists>m. run_updates (NewWithEvents ''db'' [demo_change ''users'', demo_mark, demo_change ''users'']) demo_keys = Inr m
    \<and> m_cursor m \<le> max 0 (int (length (visibleEvents m)) - 1)"
  using tui_never_panics [of "[demo_change ''users'', demo_mark, demo_change ''users'']" demo_keys "''db''"]
  by (auto simp: named_event_def named_msg_def demo_change_def demo_mark_def demo_keys_def)

text \<open>
  Without that proviso it can panic: a change without a table name is visible only until
  the first table is known, and while the feed is paused nothing corrects the cursor, so the
  search for the previous marker indexes beyond the visible items.
\<close>

theorem unnamed_change_panics:
  "run_updates (NewWithEvents ''db'' [demo_change [], demo_change [], demo_change []])
     [KeyMsg '' '', EventMsg (demo_change ''users''), KeyMsg ''[''] = Inl IndexOutOfRange"
  by (simp add: run_updates_def update_model_def Update_def updateFeed_def NewWithEvents_def preload_def
      named_db_def demo_change_def kind_preds kind_defs receive_event_def register_table_def
      visibleEvents_def filterEvents_def shown_def is_active_def addTable.simps Let_def eval_nat_numeral)

text \<open>
  C11. The viewer shows and holds back events in the order of arrival and loses none but by
  an explicit clear: the feed followed by the events held while paused is always the newest
  part of everything received, all of it unless \<open>c\<close> or \<open>M\<close> was pressed, and nothing is held
  back when the feed is not paused.
\<close>

theorem tui_feed_is_suffix:
  assumes "run_updates (NewWithEvents target es) msgs = Inr m"
  shows "suffix (m_all m @ m_pending m) (es @ received msgs)
    \<and> (KeyMsg ''c'' \<notin> set msgs \<longrightarrow> KeyMsg ''M'' \<notin> set msgs \<longrightarrow>
         m_all m @ m_pending m = es @ received msgs)
    \<and> (\<not> m_paused m \<longrightarrow> m_pending m = [])"
proof -
  obtain tables active where "foldl preload ([], []) es = (tables, active)"
    by (cases "foldl preload ([], []) es")
  then have "settled (NewWithEvents target es)" "m_all (NewWithEvents target es) = es"
      "m_pending (NewWithEvents target es) = []"
    by (simp_all add: NewWithEvents_def settled_def)
  with run_updates_items [OF _ assms] show ?thesis by (simp add: items_def settled_def)
qed

theorem tui_feed_is_suffix_witness:
  "\<exists>m. run_updates (NewWithEvents ''db'' [demo_mark])
      [KeyMsg '' '', EventMsg (demo_change ''users''), KeyMsg '' '', EventMsg (demo_change ''orders'')] = Inr m
    \<and> m_all m @ m_pending m = [demo_mark, demo_change ''users'', demo_change ''orders'']"
proof -
  let ?msgs = "[KeyMsg '' '', EventMsg (demo_change ''users''), KeyMsg '' '', EventMsg (demo_change ''orders'')]"
  have "tui_inv (NewWithEvents ''db'' [demo_mark])"
    by (rule NewWithEvents_inv) (simp add: named_event_def demo_mark_def)
  then obtain m where run: "run_updates (NewWithEvents ''db'' [demo_mark]) ?msgs = Inr m"
    using run_updates_inv [of _ ?msgs] by (force simp: named_msg_def named_event_def demo_change_def)
  from tui_feed_is_suffix [OF run] have "m_all m @ m_pending m = [demo_mark] @ received ?msgs" by simp
  with run show ?thesis by (auto simp: received_def received_of_def)
qed

text \<open>
  \<open>[\<close> puts the cursor on the nearest marker above it and \<open>]\<close> on the nearest below,
  among the visible items; where there is none they change nothing.
\<close>

theorem marker_jumps:
  assumes "tui_inv m"
  shows "(\<exists>m'. updateFeed m ''['' = Inr (m', NoCmd)
      \<and> (if \<exists>j < nat (m_cursor m). IsMarker (visibleEvents m ! j)
         then m_cursor m' < m_cursor m \<and> IsMarker (visibleEvents m ! nat (m_cursor m'))
           \<and> (\<forall>j. m_cursor m' < int j \<longrightarrow> int j < m_cursor m \<longrightarrow> \<not> IsMarker (visibleEvents m ! j))
         else m' = m))
    \<and> (\<exists>m'. updateFeed m '']'' = Inr (m', NoCmd)
      \<and> (if \<exists>e \<in> set (drop (nat (m_cursor m + 1)) (visibleEvents m)). IsMarker e
         then m_cursor m < m_cursor m' \<and> m_cursor m' < int (length (visibleEvents m))
           \<and> IsMarker (visibleEvents m ! nat (m_cursor m'))
           \<and> (\<forall>j. m_cursor m < int j \<longrightarrow> int j < m_cursor m' \<longrightarrow> \<not> IsMarker (visibleEvents m ! j))
         else m' = m))"
proof (rule conjI)
  have range: "0 \<le> m_cursor m" "nat (m_cursor m) \<le> length (visibleEvents m)"
    using tui_inv_cursor_range [OF assms] by auto
  obtain r where r: "prev_marker (visibleEvents m) (nat (m_cursor m)) = Inr r"
    and rr: "case r of None \<Rightarrow> \<forall>j < nat (m_cursor m). \<not> IsMarker (visibleEvents m ! j)
      | Some i \<Rightarrow> i < nat (m_cursor m) \<and> IsMarker (visibleEvents m ! i)
          \<and> (\<forall>j. i < j \<longrightarrow> j < nat (m_cursor m) \<longrightarrow> \<not> IsMarker (visibleEvents m ! j))"
    using prev_marker_ok [OF range(2)] by blast
  show "\<exists>m'. updateFeed m ''['' = Inr (m', NoCmd)
      \<and> (if \<exists>j < nat (m_cursor m). IsMarker (visibleEvents m ! j)
         then m_cursor m' < m_cursor m \<and> IsMarker (visibleEvents m ! nat (m_cursor m'))
           \<and> (\<forall>j. m_cursor m' < int j \<longrightarrow> int j < m_cursor m \<longrightarrow> \<not> IsMarker (visibleEvents m ! j))
         else m' = m)"
    using r rr by (cases r) (auto simp: updateFeed_def Let_def)
  show "\<exists>m'. updateFeed m '']'' = Inr (m', NoCmd)
      \<and> (if \<exists>e \<in> set (drop (nat (m_cursor m + 1)) (visibleEvents m)). IsMarker e
         then m_cursor m < m_cursor m' \<and> m_cursor m' < int (length (visibleEvents m))
           \<and> IsMarker (visibleEvents m ! nat (m_cursor m'))
           \<and> (\<forall>j. m_cursor m < int j \<longrightarrow> int j < m_cursor m' \<longrightarrow> \<not> IsMarker (visibleEvents m ! j))
         else m' = m)"
  proof (cases "next_marker (visibleEvents m) (nat (m_cursor m + 1))")
    case None
    then have "\<not> (\<exists>e \<in> set (drop (nat (m_cursor m + 1)) (visibleEvents m)). IsMarker e)"
      using next_marker_None [of "visibleEvents m" "nat (m_cursor m + 1)"] by auto
    moreover have "updateFeed m '']'' = Inr (m, NoCmd)" using None by (simp add: updateFeed_def Let_def)
    ultimately show ?thesis by simp
  next
    case (Some i)
    then have "\<exists>e \<in> set (drop (nat (m_cursor m + 1)) (visibleEvents m)). IsMarker e"
      using next_marker_None [of "visibleEvents m" "nat (m_cursor m + 1)"] by auto
    with Some next_marker_Some [OF Some] range show ?thesis by (auto simp: updateFeed_def Let_def)
  qed
qed

definition demo_model :: model where
  "demo_model = NewWithEvents ''db'' [demo_mark, demo_change ''users'', demo_change ''users'']"

lemma demo_model_inv: "tui_inv demo_model"
  unfolding demo_model_def
  by (rule NewWithEvents_inv) (simp add: named_event_def demo_mark_def demo_change_def)

lemma demo_model_fields:
  "m_cursor demo_model = 2" "visibleEvents demo_model = [demo_mark, demo_change ''users'', demo_change ''users'']"
  "m_tables demo_model = [''users'']" "m_filter_cursor demo_model = 0" "m_active demo_model = [(''users'', True)]"
  "m_all demo_model = [demo_mark, demo_change ''users'', demo_change ''users'']" "\<not> m_paused demo_model"
  by (simp_all add: demo_model_def NewWithEvents_def preload_def named_db_def demo_change_def demo_mark_def
      kind_preds kind_defs visibleEvents_def filterEvents_def shown_def is_active_def addTable.simps
      NewMarker_def Let_def)

theorem marker_jumps_witness:
  "\<exists>m'. updateFeed demo_model ''['' = Inr (m', NoCmd) \<and> IsMarker (visibleEvents demo_model ! nat (m_cursor m'))"
proof -
  have "\<exists>j < nat (m_cursor demo_model). IsMarker (visibleEvents demo_model ! j)"
    by (rule exI [of _ 0]) (simp add: demo_model_fields demo_mark_def)
  with marker_jumps [OF demo_model_inv] show ?thesis by auto
qed

text \<open>
  \<open>M\<close> keeps exactly the last marker and what arrived after it, and puts the cursor on the
  marker; a feed without a marker, or one that already starts with its only marker, stays as
  it is. Events held back by a pause are kept.
\<close>

theorem clear_to_marker:
  assumes "m_all m = before @ mark # after" and "IsMarker mark" and "\<forall>e \<in> set after. \<not> IsMarker e"
  shows "\<exists>m'. updateFeed m ''M'' = Inr (m', NoCmd) \<and> m_all m' = mark # after \<and> m_pending m' = m_pending m
    \<and> (before \<noteq> [] \<longrightarrow> m_cursor m' = 0) \<and> (before = [] \<longrightarrow> m' = m)"
proof -
  obtain i where i: "last_marker (m_all m) = Some i"
    using assms last_marker_None [of "m_all m"] by (cases "last_marker (m_all m)") auto
  note last = last_marker_Some [OF i]
  have "i = length before"
  proof (rule ccontr)
    assume "i \<noteq> length before"
    then consider "i < length before" | "length before < i" by arith
    then show False
    proof cases
      case 1
      then have "mark \<in> set (drop (Suc i) (m_all m))" by (simp add: assms(1))
      with last assms(2) show False by blast
    next
      case 2
      then obtain j where j: "i = Suc (length before + j)" using less_iff_Suc_add by auto
      then have "m_all m ! i = after ! (i - Suc (length before))"
        by (simp add: assms(1) nth_append)
      moreover have "i - Suc (length before) < length after" using j last by (simp add: assms(1))
      ultimately show False using last assms(3) by auto
    qed
  qed
  with i assms(1) show ?thesis by (auto simp: updateFeed_def Let_def)
qed

theorem clear_to_marker_witness:
  "\<exists>m'. updateFeed (demo_model\<lparr>m_all := demo_change ''users'' # m_all demo_model\<rparr>) ''M'' = Inr (m', NoCmd)
    \<and> m_all m' = [demo_mark, demo_change ''users'', demo_change ''users''] \<and> m_cursor m' = 0"
  using clear_to_marker [of "demo_model\<lparr>m_all := demo_change ''users'' # m_all demo_model\<rparr>"
      "[demo_change ''users'']" demo_mark "[demo_change ''users'', demo_change ''users'']"]
  by (auto simp: demo_model_fields)

text \<open>
  Toggling a table in the filter flips the visibility of exactly the changes of that
  table: every other change keeps its visibility, and markers, log lines and schema changes
  stay visible. The order of the feed is kept.
\<close>

theorem toggle_table:
  assumes "tui_inv m" and "m_tables m \<noteq> []"
  shows "\<exists>m'. updateFilter m '' '' = Inr (m', NoCmd) \<and> m_all m' = m_all m
    \<and> visibleEvents m' = filter (\<lambda>e. if IsDBEvent e \<and> ev_table e = m_tables m ! nat (m_filter_cursor m)
         then \<not> is_active (m_active m) (ev_table e) else shown (m_active m) e) (m_all m)"
proof -
  from assms have fc: "0 \<le> m_filter_cursor m" "m_filter_cursor m < int (length (m_tables m))"
    using tui_inv_cursor_range [of m] by (auto simp: max_def split: if_splits)
  let ?t = "m_tables m ! nat (m_filter_cursor m)"
  let ?a = "AList.update ?t (\<not> is_active (m_active m) ?t) (m_active m)"
  have "?a \<noteq> []" by (cases "m_active m") (auto split: if_splits)
  then have "filterEvents (m_all m) ?a = filter (shown ?a) (m_all m)" by (rule filterEvents_nonempty)
  also have "\<dots> = filter (\<lambda>e. if IsDBEvent e \<and> ev_table e = ?t then \<not> is_active (m_active m) (ev_table e)
      else shown (m_active m) e) (m_all m)"
    by (rule filter_cong) (auto simp: shown_def)
  finally show ?thesis using assms(2) fc by (simp add: updateFilter_def Let_def visibleEvents_def)
qed

theorem toggle_table_witness:
  "\<exists>m'. updateFilter demo_model '' '' = Inr (m', NoCmd) \<and> visibleEvents m' = [demo_mark]"
  using toggle_table [OF demo_model_inv]
  by (auto simp: demo_model_fields is_active_def shown_def)

text \<open>
  A viewer that follows the feed keeps following it: when it is not paused and the cursor
  is on the last visible line, it is on the last visible line after any event.
\<close>

theorem tail_followed:
  assumes "known_tables m" and "\<not> m_paused m"
    and "m_cursor m = max 0 (int (length (visibleEvents m)) - 1)"
  shows "m_cursor (receive_event m e) = max 0 (int (length (visibleEvents (receive_event m e))) - 1)"
proof -
  let ?r = "register_table m e"
  let ?n = "?r\<lparr>m_all := m_all ?r @ [e]\<rparr>"
  have "length (visibleEvents ?n) \<le> Suc (length (visibleEvents m))"
    using filterEvents_snoc [of "m_all ?r" "m_active ?r" e] register_table_visible [OF assms(1), of e]
    by (simp add: visibleEvents_def)
  with assms(2,3) show ?thesis by (auto simp: receive_event_def Let_def tui_simps)
qed

theorem tail_followed_witness:
  "m_cursor (receive_event demo_model demo_mark) =
     max 0 (int (length (visibleEvents (receive_event demo_model demo_mark))) - 1)"
  by (rule tail_followed) (use demo_model_inv in \<open>simp_all add: demo_model_fields tui_inv_def\<close>)

text \<open>
  The follow rule also catches a cursor that was not at the bottom: a change of a hidden
  table adds no visible line, yet moves a cursor on the last line but one to the last.
\<close>

theorem hidden_event_moves_cursor:
  assumes "\<not> m_paused m" and "IsDBEvent e" and "map_of (m_active m) (ev_table e) = Some False"
    and "m_cursor m = int (length (visibleEvents m)) - 2" and "2 \<le> length (visibleEvents m)"
  shows "visibleEvents (receive_event m e) = visibleEvents m
    \<and> m_cursor (receive_event m e) = m_cursor m + 1"
proof -
  let ?r = "register_table m e"
  have "has_key (m_active m) (ev_table e)" using assms(3) by blast
  then have "m_active ?r = m_active m" by (simp only: register_table_def Let_def if_True) simp
  moreover have "m_active m \<noteq> []" using assms(3) by auto
  ultimately have "visibleEvents (?r\<lparr>m_all := m_all ?r @ [e]\<rparr>) = visibleEvents m"
    using assms(2,3) by (simp add: visibleEvents_def filterEvents_nonempty shown_def is_active_def tui_simps)
  with assms show ?thesis by (simp add: receive_event_def Let_def tui_simps)
qed

theorem hidden_event_moves_cursor_witness:
  "\<exists>m. m_cursor m = 0 \<and> m_cursor (receive_event m (demo_change ''users'')) = 1"
  using hidden_event_moves_cursor [of "demo_model\<lparr>m_all := [demo_mark, demo_mark], m_active := [(''users'', False)],
      m_cursor := 0\<rparr>" "demo_change ''users''"]
  by (intro exI [of _ "demo_model\<lparr>m_all := [demo_mark, demo_mark], m_active := [(''users'', False)], m_cursor := 0\<rparr>"])
     (simp add: demo_model_fields visibleEvents_def filterEvents_def shown_def)

end
