(* ===== verification/Tail_Modes.thy ===== *)
theory Tail_Modes
  imports Feed_Store Tui_App
begin

text \<open>
  How \<open>cmd/dbwatch/main.go\<close> connects the store to its two viewers. Opening a viewer reads the
  history and subscribes, in an order that differs between the terminal and the JSON mode,
  and other goroutines may push between the two steps: \<open>between\<close> is what they push. The
  forwarding goroutine hands one received event after the other to the viewer.
\<close>

section \<open>Opening\<close>

text \<open>\<open>runTUIMode\<close>: the model is built from a snapshot, and only then the channel is subscribed.\<close>

definition open_tui :: "string \<Rightarrow> feed_world \<Rightarrow> event list \<Rightarrow> go_panic + (model \<times> nat \<times> feed_world)" where
  "open_tui target w between =
    (let m = NewWithEvents target (Snapshot (w_store w)) in
     and_then (Push_all w between) (\<lambda>w1.
       let (sub, w2) = Subscribe w1 in Inr (m, sub, w2)))"

text \<open>\<open>runJSONMode\<close>: the channel is subscribed first, then the snapshot is printed.\<close>

definition open_json :: "feed_world \<Rightarrow> event list \<Rightarrow> go_panic + (event list \<times> nat \<times> feed_world)" where
  "open_json w between =
    (let (sub, w1) = Subscribe w in
     and_then (Push_all w1 between) (\<lambda>w2. Inr (Snapshot (w_store w2), sub, w2)))"

section \<open>Forwarding\<close>

text \<open>
  The loop of the forwarding goroutine, for at most \<open>n\<close> events: it ends when the channel is
  closed, and pauses when there is nothing to receive.
\<close>

fun forward :: "nat \<Rightarrow> nat \<Rightarrow> model \<Rightarrow> feed_world \<Rightarrow> go_panic + (model \<times> feed_world)" where
  "forward 0 sub m w = Inr (m, w)"
| "forward (Suc n) sub m w =
     (case Receive w sub of
        (Got e, w') \<Rightarrow> and_then (update_model m (EventMsg e)) (\<lambda>m'. forward n sub m' w')
      | (EndOfChan, w') \<Rightarrow> Inr (m, w')
      | (WouldBlock, w') \<Rightarrow> Inr (m, w'))"

section \<open>The error of a source\<close>

definition wrapSourceError :: "string \<Rightarrow> string option \<Rightarrow> string option" where
  "wrapSourceError label err =
    (case err of None \<Rightarrow> None
     | Some e \<Rightarrow> if label = ''daemon'' then Some (''connection to daemon lost: '' @ e)
                 else Some (label @ '': '' @ e))"

definition waitSourceOnShutdown :: "string option \<Rightarrow> string \<Rightarrow> string option" where
  "waitSourceOnShutdown err label = wrapSourceError label err"

definition wrapNamedError :: "string \<Rightarrow> string option \<Rightarrow> string option" where
  "wrapNamedError label err = (case err of None \<Rightarrow> None | Some e \<Rightarrow> Some (label @ '': '' @ e))"

definition shouldUseTUI :: "bool \<Rightarrow> string \<Rightarrow> bool" where
  "shouldUseTUI stdout_is_terminal mode =
    (if mode = ''tui'' then True else if mode = ''json'' then False else stdout_is_terminal)"

section \<open>Lemmas\<close>

lemma recv_buffered: "buf c = e # es \<Longrightarrow> recv c = (Got e, c\<lparr>buf := es\<rparr>)"
  by (simp add: recv_def)

lemma Subscribe_sub:
  assumes "world_inv w" and "Subscribe w = (sub, w')"
  shows "world_inv w' \<and> \<lparr>sub_ch = sub, sub_filter = AllowAllFilter\<rparr> \<in> set (subs (w_store w'))
    \<and> sub < length (w_chans w') \<and> buf (w_chans w' ! sub) = [] \<and> Snapshot (w_store w') = Snapshot (w_store w)
    \<and> capacity (w_store w') = capacity (w_store w)"
proof -
  have "SubscribeWithFilter w AllowAllFilter = (sub, w')" using assms(2) by (simp add: Subscribe_def)
  from Subscribe_inv [OF assms(1) this] Subscribe_fresh [OF this] this show ?thesis
    by (auto simp: nth_append make_chan_def SubscribeWithFilter_def Let_def)
qed

lemma forward_buffered:
  assumes "buf (w_chans w ! sub) = es @ rest" and "sub < length (w_chans w)"
    and "settled m" and "tui_inv m" and "list_all named_event es"
  shows "\<exists>m' w'. forward (length es) sub m w = Inr (m', w') \<and> items m' = items m @ es
    \<and> settled m' \<and> tui_inv m' \<and> buf (w_chans w' ! sub) = rest"
  using assms
proof (induction es arbitrary: m w)
  case (Cons e es)
  let ?w = "w\<lparr>w_chans := (w_chans w)[sub := (w_chans w ! sub)\<lparr>buf := es @ rest\<rparr>]\<rparr>"
  have recv: "Receive w sub = (Got e, ?w)"
    using Cons.prems(1) by (simp add: Receive_def Let_def recv_buffered)
  have msg: "named_msg (EventMsg e)" using Cons.prems(5) by (simp add: named_msg_def)
  obtain m1 where m1: "update_model m (EventMsg e) = Inr m1" "tui_inv m1"
    using update_model_inv [OF Cons.prems(4) msg] by blast
  from update_model_items [OF Cons.prems(3) m1(1)]
  have step: "settled m1" "items m1 = items m @ [e]" by (auto simp: received_of_def)
  have "buf (w_chans ?w ! sub) = es @ rest" "sub < length (w_chans ?w)" using Cons.prems(2) by simp_all
  from Cons.IH [OF this step(1) m1(2)] Cons.prems(5) obtain m' w' where
    "forward (length es) sub m1 ?w = Inr (m', w')" "items m' = items m1 @ es" "settled m'" "tui_inv m'"
    "buf (w_chans w' ! sub) = rest" by auto
  then show ?case using recv m1(1) step(2) by simp
qed simp

lemma open_tui_spec:
  assumes "world_inv w" and "list_all named_event (Snapshot (w_store w))"
  shows "\<exists>m sub w2. open_tui target w between = Inr (m, sub, w2) \<and> world_inv w2
    \<and> items m = Snapshot (w_store w) \<and> settled m \<and> tui_inv m
    \<and> \<lparr>sub_ch = sub, sub_filter = AllowAllFilter\<rparr> \<in> set (subs (w_store w2))
    \<and> sub < length (w_chans w2) \<and> buf (w_chans w2 ! sub) = []
    \<and> Snapshot (w_store w2) = lastn (capacity (w_store w)) (Snapshot (w_store w) @ between)"
proof -
  let ?m = "NewWithEvents target (Snapshot (w_store w))"
  obtain tables active where "foldl preload ([], []) (Snapshot (w_store w)) = (tables, active)"
    by (cases "foldl preload ([], []) (Snapshot (w_store w))")
  then have m: "items ?m = Snapshot (w_store w)" "settled ?m"
    by (simp_all add: NewWithEvents_def settled_def items_def)
  obtain w1 where w1: "Push_all w between = Inr w1" "world_inv w1"
      "Snapshot (w_store w1) = lastn (capacity (w_store w)) (Snapshot (w_store w) @ between)"
    using feed.push_list [OF assms(1), of between] by (auto simp: Push_all_def)
  obtain sub w2 where w2: "Subscribe w1 = (sub, w2)" by (cases "Subscribe w1")
  from Subscribe_sub [OF w1(2) w2] w1 w2 m NewWithEvents_inv [OF assms(2)] show ?thesis
    by (auto simp: open_tui_def Let_def)
qed

lemma viewer_after:
  assumes "world_inv w" and "list_all named_event (Snapshot (w_store w) @ es)" and "length es \<le> 100"
  shows "\<exists>m sub w2 w3 m' w4. open_tui target w between = Inr (m, sub, w2) \<and> Push_all w2 es = Inr w3
    \<and> forward (length es) sub m w3 = Inr (m', w4) \<and> m_all m' @ m_pending m' = Snapshot (w_store w) @ es"
proof -
  from assms(2) have named: "list_all named_event (Snapshot (w_store w))" "list_all named_event es" by simp_all
  obtain m sub w2 where o: "open_tui target w between = Inr (m, sub, w2)" "world_inv w2"
      "items m = Snapshot (w_store w)" "settled m" "tui_inv m"
      "\<lparr>sub_ch = sub, sub_filter = AllowAllFilter\<rparr> \<in> set (subs (w_store w2))"
      "sub < length (w_chans w2)" "buf (w_chans w2 ! sub) = []"
    using open_tui_spec [OF assms(1) named(1)] by blast
  from Push_all_chan [OF o(2,6), of es] o(8) assms(3)
  obtain w3 where w3: "Push_all w2 es = Inr w3" "length (w_chans w3) = length (w_chans w2)"
      "buf (w_chans w3 ! sub) = es"
    by (auto simp: defaultSubChanCap_def)
  have "buf (w_chans w3 ! sub) = es @ []" "sub < length (w_chans w3)" using w3 o(7) by simp_all
  from forward_buffered [OF this o(4,5) named(2)] obtain m' w4 where
    "forward (length es) sub m w3 = Inr (m', w4)" "items m' = items m @ es" by blast
  with o(1,3) w3(1) show ?thesis by (auto simp: items_def)
qed

section \<open>Properties\<close>

text \<open>
  From the store to the screen: a terminal viewer that is opened while nothing else
  happens, and then receives a burst of at most 100 events, holds the history of the store
  followed by the burst, in order and without loss.
\<close>

theorem viewer_shows_feed:
  assumes "world_inv w" and "list_all named_event (Snapshot (w_store w) @ es)" and "length es \<le> 100"
  shows "\<exists>m sub w2 w3 m' w4. open_tui target w [] = Inr (m, sub, w2) \<and> Push_all w2 es = Inr w3
    \<and> forward (length es) sub m w3 = Inr (m', w4) \<and> m_all m' @ m_pending m' = Snapshot (w_store w) @ es"
  by (rule viewer_after [OF assms])

lemma demo_world: "\<exists>w. world_inv w \<and> Snapshot (w_store w) = []"
proof -
  obtain s where "New 3 = Inr s" by (simp add: New_def)
  then have "world_inv (new_world s) \<and> Snapshot (w_store (new_world s)) = []"
    using new_world_inv [of 3 s] New_ring_inv [of 3 s] by (simp add: new_world_def)
  then show ?thesis by blast
qed

theorem viewer_shows_feed_witness:
  "\<exists>w m sub w2 w3 m' w4. open_tui ''db'' w [] = Inr (m, sub, w2)
    \<and> Push_all w2 [demo_mark, demo_change ''users''] = Inr w3
    \<and> forward 2 sub m w3 = Inr (m', w4) \<and> m_all m' @ m_pending m' = [demo_mark, demo_change ''users'']"
proof -
  obtain w where w: "world_inv w" "Snapshot (w_store w) = []" using demo_world by blast
  have "list_all named_event (Snapshot (w_store w) @ [demo_mark, demo_change ''users''])"
    by (simp add: w named_event_def)
  from viewer_shows_feed [OF w(1) this, of "''db''"]
  have "\<exists>m sub w2 w3 m' w4. open_tui ''db'' w [] = Inr (m, sub, w2)
    \<and> Push_all w2 [demo_mark, demo_change ''users''] = Inr w3
    \<and> forward 2 sub m w3 = Inr (m', w4) \<and> m_all m' @ m_pending m' = [demo_mark, demo_change ''users'']"
    by (simp only: w(2) append.simps list.size numeral_2_eq_2 One_nat_def) simp
  then show ?thesis by blast
qed

text \<open>
  The terminal mode reads the history before it subscribes, so what is pushed between the
  two steps is lost to the viewer: it is in the store, but neither in the model nor in the
  viewer's channel, and however the feed goes on the viewer shows the old history followed by
  the later events only.
\<close>

theorem viewer_gap:
  assumes "world_inv w" and "list_all named_event (Snapshot (w_store w) @ es)" and "length es \<le> 100"
  shows "(\<exists>m sub w2. open_tui target w between = Inr (m, sub, w2)
      \<and> m_all m @ m_pending m @ buf (w_chans w2 ! sub) = Snapshot (w_store w)
      \<and> Snapshot (w_store w2) = lastn (capacity (w_store w)) (Snapshot (w_store w) @ between))
    \<and> (\<exists>m sub w2 w3 m' w4. open_tui target w between = Inr (m, sub, w2) \<and> Push_all w2 es = Inr w3
      \<and> forward (length es) sub m w3 = Inr (m', w4) \<and> m_all m' @ m_pending m' = Snapshot (w_store w) @ es)"
proof -
  have "list_all named_event (Snapshot (w_store w))" using assms(2) by simp
  from open_tui_spec [OF assms(1) this, of target between] viewer_after [OF assms, of target between]
  show ?thesis by (auto simp: items_def)
qed

theorem viewer_gap_witness:
  "\<exists>w m sub w2. open_tui ''db'' w [demo_mark] = Inr (m, sub, w2) \<and> demo_mark \<in> set (Snapshot (w_store w2))
    \<and> m_all m @ m_pending m @ buf (w_chans w2 ! sub) = []"
proof -
  obtain w where w: "world_inv w" "Snapshot (w_store w) = []" using demo_world by blast
  then have "0 < capacity (w_store w)" by (simp add: world_inv_def ring_inv_def)
  moreover obtain m sub w2 where "open_tui ''db'' w [demo_mark] = Inr (m, sub, w2)"
      "m_all m @ m_pending m @ buf (w_chans w2 ! sub) = Snapshot (w_store w)"
      "Snapshot (w_store w2) = lastn (capacity (w_store w)) (Snapshot (w_store w) @ [demo_mark])"
    using viewer_gap [OF w(1), of "[]" "''db''" "[demo_mark]"] w(2) by auto
  moreover from calculation have "demo_mark \<in> set (Snapshot (w_store w2))" by (simp add: w(2))
  ultimately show ?thesis unfolding w(2) by blast
qed

text \<open>
  The JSON mode subscribes before it reads the history, so nothing is lost, but what is
  pushed between the two steps is output twice: it is at the end of the history and, up to
  the channel's capacity, waits in the channel as well.
\<close>

theorem json_sees_twice:
  assumes "world_inv w"
  shows "\<exists>history sub w2. open_json w between = Inr (history, sub, w2)
    \<and> history = lastn (capacity (w_store w)) (Snapshot (w_store w) @ between)
    \<and> buf (w_chans w2 ! sub) = take 100 between"
proof -
  obtain sub w1 where sub: "Subscribe w = (sub, w1)" by (cases "Subscribe w")
  note s = Subscribe_sub [OF assms sub]
  obtain w2 where w2: "Push_all w1 between = Inr w2"
      "Snapshot (w_store w2) = lastn (capacity (w_store w1)) (Snapshot (w_store w1) @ between)"
    using feed.push_list [of w1 between] s by (auto simp: Push_all_def)
  from Push_all_chan [of w1 "\<lparr>sub_ch = sub, sub_filter = AllowAllFilter\<rparr>" between] s w2(1)
  have "buf (w_chans w2 ! sub) = take 100 between" by (auto simp: defaultSubChanCap_def)
  with sub s w2 show ?thesis by (simp add: open_json_def)
qed

theorem json_sees_twice_witness:
  "\<exists>w history sub w2. open_json w [demo_mark] = Inr (history, sub, w2)
    \<and> history = [demo_mark] \<and> buf (w_chans w2 ! sub) = [demo_mark]"
proof -
  obtain w where w: "world_inv w" "Snapshot (w_store w) = []" using demo_world by blast
  then have "0 < capacity (w_store w)" by (simp add: world_inv_def ring_inv_def)
  with w json_sees_twice [OF w(1), of "[demo_mark]"] show ?thesis by auto
qed

end
