(* ===== verification/Ipc.thy ===== *)
theory Ipc
  imports Feed_Store
begin

text \<open>
  \<open>internal/ipc/protocol.go\<close>, \<open>server.go\<close> and \<open>client.go\<close>: the stream of envelopes between a
  daemon and an attached viewer. The JSON text of a payload is produced and read by the
  argument record \<open>codec\<close>; \<open>None\<close> is a failure of \<open>json.Marshal\<close>. The socket carries envelopes
  in order; that a write fails, or what a read returns, is an argument of the step. The
  goroutines of one connection and the rest of the daemon interleave as a list of actions.
\<close>

section \<open>Protocol\<close>

definition TypeHello :: string where "TypeHello = ''hello''"
definition TypeSnapshot :: string where "TypeSnapshot = ''snapshot''"
definition TypeEvent :: string where "TypeEvent = ''event''"
definition TypeStats :: string where "TypeStats = ''stats''"
definition TypePing :: string where "TypePing = ''ping''"
definition TypePong :: string where "TypePong = ''pong''"
definition TypeSubscribe :: string where "TypeSubscribe = ''subscribe''"

lemmas type_defs = TypeHello_def TypeSnapshot_def TypeEvent_def TypeStats_def TypePing_def TypePong_def
  TypeSubscribe_def

record envelope =
  env_type :: string
  env_data :: string

record hello_data =
  hello_version :: string
  hello_db :: string

text \<open>\<open>BufferRatio\<close> is the quotient of the two numbers of the pair.\<close>

record stats_data =
  sd_uptime :: int
  sd_received :: "64 word"
  sd_clients :: int
  sd_last_lsn :: string
  sd_buffered :: nat
  sd_capacity :: int
  sd_ratio :: "int \<times> int"

record codec =
  enc_hello :: "hello_data \<Rightarrow> string option"
  dec_hello :: "string \<Rightarrow> string + hello_data"
  enc_events :: "event list \<Rightarrow> string option"
  dec_events :: "string \<Rightarrow> string + event list"
  enc_event :: "event \<Rightarrow> string option"
  dec_event :: "string \<Rightarrow> string + event"
  enc_stats :: "stats_data \<Rightarrow> string option"
  dec_stats :: "string \<Rightarrow> string + stats_data"

definition mustMarshal :: "string option \<Rightarrow> string" where
  "mustMarshal b = (case b of None \<Rightarrow> [] | Some s \<Rightarrow> s)"

definition helloEnvelope :: "codec \<Rightarrow> hello_data \<Rightarrow> envelope" where
  "helloEnvelope cd d = \<lparr>env_type = TypeHello, env_data = mustMarshal (enc_hello cd d)\<rparr>"

definition snapshotEnvelope :: "codec \<Rightarrow> event list \<Rightarrow> envelope" where
  "snapshotEnvelope cd es = \<lparr>env_type = TypeSnapshot, env_data = mustMarshal (enc_events cd es)\<rparr>"

definition eventEnvelope :: "codec \<Rightarrow> event \<Rightarrow> envelope" where
  "eventEnvelope cd e = \<lparr>env_type = TypeEvent, env_data = mustMarshal (enc_event cd e)\<rparr>"

definition statsEnvelope :: "codec \<Rightarrow> stats_data \<Rightarrow> envelope" where
  "statsEnvelope cd s = \<lparr>env_type = TypeStats, env_data = mustMarshal (enc_stats cd s)\<rparr>"

definition pongEnvelope :: envelope where
  "pongEnvelope = \<lparr>env_type = TypePong, env_data = []\<rparr>"

lemmas envelope_defs = helloEnvelope_def snapshotEnvelope_def eventEnvelope_def statsEnvelope_def pongEnvelope_def

section \<open>One connection of the server\<close>

record server_opts =
  o_version :: string
  o_db :: string
  o_stats :: "store \<Rightarrow> int \<Rightarrow> stats_data"

text \<open>
  The daemon as one connection sees it: the store with its channels, the counter of clients,
  the channel it subscribed, what it wrote to the socket, whether \<open>stopPump\<close> is closed, which
  of its two goroutines still run, whether its buffered writer has failed (the error is
  sticky) and whether the handler has returned.
\<close>

record conn =
  k_world :: feed_world
  k_clients :: int
  k_sub :: "nat option"
  k_sent :: "envelope list"
  k_stopped :: bool
  k_pump :: bool
  k_ticker :: bool
  k_broken :: bool
  k_closed :: bool

text \<open>
  What can happen: an event is pushed elsewhere in the daemon; other clients come or go; one of
  the two goroutines takes its channel's branch of the \<open>select\<close>, with the outcome of its write,
  or the branch of \<open>stopPump\<close>; the handler looks at \<open>stopPump\<close> before its first read; it
  reads a message, with the outcome of the reply; its read fails or times out.
\<close>

datatype action =
    PushEvent event
  | OtherClients int
  | Pump bool
  | PumpStops
  | Tick bool
  | TickStops
  | LoopTop
  | ReadMessage string bool
  | ReadFails

definition send :: "envelope \<Rightarrow> bool \<Rightarrow> conn \<Rightarrow> bool \<times> conn" where
  "send env ok k =
    (if ok \<and> \<not> k_broken k \<and> \<not> k_closed k then (True, k\<lparr>k_sent := k_sent k @ [env]\<rparr>)
     else (False, k\<lparr>k_broken := True\<rparr>))"

text \<open>The return of the handler with its deferred calls.\<close>

definition conn_return :: "conn \<Rightarrow> go_panic + conn" where
  "conn_return k =
    (case k_sub k of
       None \<Rightarrow> Inr (k\<lparr>k_clients := k_clients k - 1, k_closed := True\<rparr>)
     | Some ch \<Rightarrow>
         and_then (Unsubscribe (k_world k) ch) (\<lambda>w.
           Inr (k\<lparr>k_world := w, k_stopped := True, k_clients := k_clients k - 1, k_closed := True\<rparr>)))"

text \<open>
  The opening of \<open>handleConn\<close>: greeting and history, then the subscription. \<open>ok1\<close> and \<open>ok2\<close> are the
  outcomes of the two writes, \<open>between\<close> is pushed before the subscription.
\<close>

definition conn_greet :: "codec \<Rightarrow> server_opts \<Rightarrow> feed_world \<Rightarrow> int \<Rightarrow> bool \<Rightarrow> bool \<Rightarrow> bool \<times> conn" where
  "conn_greet cd opts w n ok1 ok2 =
    (let k = \<lparr>k_world = w, k_clients = n + 1, k_sub = None, k_sent = [], k_stopped = False,
              k_pump = False, k_ticker = False, k_broken = False, k_closed = False\<rparr>;
         (sent, k1) = send (helloEnvelope cd \<lparr>hello_version = o_version opts, hello_db = o_db opts\<rparr>) ok1 k
     in if \<not> sent then (False, k1) else send (snapshotEnvelope cd (Snapshot (w_store w))) ok2 k1)"

definition conn_subscribe :: "conn \<Rightarrow> conn" where
  "conn_subscribe k =
    (let (sub, w) = SubscribeWithFilter (k_world k) AllowAllFilter
     in k\<lparr>k_world := w, k_sub := Some sub, k_pump := True, k_ticker := True\<rparr>)"

definition conn_open ::
  "codec \<Rightarrow> server_opts \<Rightarrow> feed_world \<Rightarrow> int \<Rightarrow> bool \<Rightarrow> bool \<Rightarrow> event list \<Rightarrow> go_panic + conn" where
  "conn_open cd opts w n ok1 ok2 between =
    (let (sent, k) = conn_greet cd opts w n ok1 ok2
     in if \<not> sent then conn_return k
        else and_then (Push_all w between) (\<lambda>w1. Inr (conn_subscribe (k\<lparr>k_world := w1\<rparr>))))"

lemmas conn_open_simps = conn_open_def conn_greet_def conn_subscribe_def

definition pump_step :: "codec \<Rightarrow> bool \<Rightarrow> conn \<Rightarrow> conn" where
  "pump_step cd ok k =
    (case k_sub k of
       None \<Rightarrow> k
     | Some ch \<Rightarrow>
         if \<not> k_pump k then k
         else (case Receive (k_world k) ch of
           (Got e, w) \<Rightarrow>
             (let (sent, k1) = send (eventEnvelope cd e) ok (k\<lparr>k_world := w\<rparr>)
              in if sent then k1 else k1\<lparr>k_stopped := True, k_pump := False\<rparr>)
         | (EndOfChan, w) \<Rightarrow> k\<lparr>k_pump := False\<rparr>
         | (WouldBlock, w) \<Rightarrow> k))"

definition tick_step :: "codec \<Rightarrow> server_opts \<Rightarrow> bool \<Rightarrow> conn \<Rightarrow> conn" where
  "tick_step cd opts ok k =
    (if \<not> k_ticker k then k
     else let (sent, k1) = send (statsEnvelope cd (o_stats opts (w_store (k_world k)) (k_clients k))) ok k
          in if sent then k1 else k1\<lparr>k_stopped := True, k_ticker := False\<rparr>)"

definition loop_top :: "conn \<Rightarrow> go_panic + conn" where
  "loop_top k = (if k_stopped k then conn_return k else Inr k)"

text \<open>The reading loop from a message to the next look at \<open>stopPump\<close>.\<close>

definition read_step :: "codec \<Rightarrow> server_opts \<Rightarrow> string \<Rightarrow> bool \<Rightarrow> conn \<Rightarrow> go_panic + conn" where
  "read_step cd opts ty ok k =
    (if ty = TypePing then
       let (sent, k1) = send (statsEnvelope cd (o_stats opts (w_store (k_world k)) (k_clients k))) ok k
       in if sent then loop_top k1 else conn_return k1
     else if ty = TypeSubscribe then
       let (sent, k1) = send pongEnvelope ok k
       in if sent then loop_top k1 else conn_return k1
     else loop_top k)"

definition conn_step :: "codec \<Rightarrow> server_opts \<Rightarrow> conn \<Rightarrow> action \<Rightarrow> go_panic + conn" where
  "conn_step cd opts k act =
    (case act of
       PushEvent e \<Rightarrow> and_then (Push (k_world k) e) (\<lambda>w. Inr (k\<lparr>k_world := w\<rparr>))
     | OtherClients d \<Rightarrow> Inr (k\<lparr>k_clients := k_clients k + d\<rparr>)
     | Pump ok \<Rightarrow> Inr (pump_step cd ok k)
     | PumpStops \<Rightarrow> Inr (if k_stopped k then k\<lparr>k_pump := False\<rparr> else k)
     | Tick ok \<Rightarrow> Inr (tick_step cd opts ok k)
     | TickStops \<Rightarrow> Inr (if k_stopped k then k\<lparr>k_ticker := False\<rparr> else k)
     | LoopTop \<Rightarrow> if k_closed k then Inr k else loop_top k
     | ReadMessage ty ok \<Rightarrow> if k_closed k then Inr k else read_step cd opts ty ok k
     | ReadFails \<Rightarrow> if k_closed k then Inr k else conn_return k)"

definition handleConn :: "codec \<Rightarrow> server_opts \<Rightarrow> feed_world \<Rightarrow> int \<Rightarrow> bool \<Rightarrow> bool \<Rightarrow> event list
    \<Rightarrow> action list \<Rightarrow> go_panic + conn" where
  "handleConn cd opts w n ok1 ok2 between acts =
    and_then (conn_open cd opts w n ok1 ok2 between) (\<lambda>k. fold_ok (conn_step cd opts) k acts)"

section \<open>The client\<close>

record client =
  cl_hello :: hello_data
  cl_snapshot :: "event list"
  cl_events :: "event chan"
  cl_stats :: "stats_data chan"
  cl_errs :: "string list"
  cl_closed :: bool
  cl_dropped :: "64 word"

definition eventChanCap :: nat where "eventChanCap = 100"
definition statsChanCap :: nat where "statsChanCap = 8"

text \<open>What a \<open>Decode\<close> returns: an envelope, or the error of a broken stream.\<close>

type_synonym decoded = "string + envelope"

definition expect_hello :: "(nat \<Rightarrow> bool) \<Rightarrow> codec \<Rightarrow> decoded \<Rightarrow> string + hello_data" where
  "expect_hello uni cd d =
    (case d of
       Inl e \<Rightarrow> Inl (''read hello envelope: '' @ e)
     | Inr env \<Rightarrow>
         if env_type env \<noteq> TypeHello then Inl (''unexpected first message type '' @ quote uni (env_type env))
         else (case dec_hello cd (env_data env) of
                 Inl e \<Rightarrow> Inl (''decode hello payload: '' @ e) | Inr h \<Rightarrow> Inr h))"

definition expect_snapshot :: "(nat \<Rightarrow> bool) \<Rightarrow> codec \<Rightarrow> decoded \<Rightarrow> string + event list" where
  "expect_snapshot uni cd d =
    (case d of
       Inl e \<Rightarrow> Inl (''read snapshot envelope: '' @ e)
     | Inr env \<Rightarrow>
         if env_type env \<noteq> TypeSnapshot then
           Inl (''unexpected second message type '' @ quote uni (env_type env))
         else if length (env_data env) > 0 then
           (case dec_events cd (env_data env) of
              Inl e \<Rightarrow> Inl (''decode snapshot payload: '' @ e) | Inr es \<Rightarrow> Inr es)
         else Inr [])"

definition readHandshake :: "(nat \<Rightarrow> bool) \<Rightarrow> codec \<Rightarrow> decoded \<Rightarrow> decoded \<Rightarrow> string + client" where
  "readHandshake uni cd first second =
    and_then (expect_hello uni cd first) (\<lambda>h.
    and_then (expect_snapshot uni cd second) (\<lambda>es.
      Inr \<lparr>cl_hello = h, cl_snapshot = es, cl_events = make_chan eventChanCap,
           cl_stats = make_chan statsChanCap, cl_errs = [], cl_closed = False, cl_dropped = 0\<rparr>))"

text \<open>
  The return of \<open>readLoop\<close>: the error is sent into its channel, which has room for it, and the
  three channels are closed.
\<close>

definition client_fail :: "string \<Rightarrow> client \<Rightarrow> client" where
  "client_fail msg c = c\<lparr>cl_errs := cl_errs c @ [msg], cl_events := (cl_events c)\<lparr>closed := True\<rparr>,
     cl_stats := (cl_stats c)\<lparr>closed := True\<rparr>, cl_closed := True\<rparr>"

text \<open>The non-blocking sends on the two channels, which only the reading loop closes.\<close>

definition offer_event :: "event \<Rightarrow> client \<Rightarrow> client" where
  "offer_event e c =
    (if length (buf (cl_events c)) < ccap (cl_events c)
     then c\<lparr>cl_events := (cl_events c)\<lparr>buf := buf (cl_events c) @ [e]\<rparr>\<rparr>
     else c\<lparr>cl_dropped := cl_dropped c + 1\<rparr>)"

definition offer_stats :: "stats_data \<Rightarrow> client \<Rightarrow> client" where
  "offer_stats s c =
    (if length (buf (cl_stats c)) < ccap (cl_stats c)
     then c\<lparr>cl_stats := (cl_stats c)\<lparr>buf := buf (cl_stats c) @ [s]\<rparr>\<rparr> else c)"

text \<open>One turn of \<open>readLoop\<close>; after the loop has returned nothing changes any more.\<close>

definition client_turn :: "codec \<Rightarrow> client \<Rightarrow> decoded \<Rightarrow> client" where
  "client_turn cd c d =
    (if cl_closed c then c
     else case d of
       Inl e \<Rightarrow> client_fail (''read daemon stream: '' @ e) c
     | Inr env \<Rightarrow>
         if env_type env = TypeEvent then
           (case dec_event cd (env_data env) of
              Inl e \<Rightarrow> client_fail (''decode event: '' @ e) c
            | Inr e \<Rightarrow> offer_event e c)
         else if env_type env = TypeStats then
           (case dec_stats cd (env_data env) of Inl e \<Rightarrow> c | Inr s \<Rightarrow> offer_stats s c)
         else c)"

text \<open>\<open>send\<close> of the client: the errors of \<open>Encode\<close> and \<open>Flush\<close> on the connection are arguments.\<close>

definition client_send :: "string option \<Rightarrow> string option \<Rightarrow> string option" where
  "client_send enc flush =
    (case enc of
       Some e \<Rightarrow> Some (''send ipc message: '' @ e)
     | None \<Rightarrow> (case flush of Some e \<Rightarrow> Some (''flush ipc message: '' @ e) | None \<Rightarrow> None))"

definition pingEnvelope :: envelope where
  "pingEnvelope = \<lparr>env_type = TypePing, env_data = []\<rparr>"

text \<open>
  \<open>RequestStats\<close> after its ping: one branch of the \<open>select\<close> is taken. A branch that is not
  ready cannot be taken, which is \<open>None\<close>.
\<close>

datatype stats_branch = StatsBranch | ErrsBranch | CtxBranch string | TimerBranch

definition stats_select :: "client \<Rightarrow> stats_branch \<Rightarrow> (string + stats_data) option" where
  "stats_select c br =
    (case br of
       StatsBranch \<Rightarrow> (case fst (recv (cl_stats c)) of
           Got s \<Rightarrow> Some (Inr s)
         | EndOfChan \<Rightarrow> Some (Inl ''stats stream closed'')
         | WouldBlock \<Rightarrow> None)
     | ErrsBranch \<Rightarrow> (case cl_errs c of
           e # _ \<Rightarrow> Some (Inl e)
         | [] \<Rightarrow> if cl_closed c then Some (Inl ''connection closed'') else None)
     | CtxBranch e \<Rightarrow> Some (Inl e)
     | TimerBranch \<Rightarrow> Some (Inl ''timed out waiting for stats''))"

definition RequestStats :: "string option \<Rightarrow> client \<Rightarrow> stats_branch \<Rightarrow> (string + stats_data) option" where
  "RequestStats ping c br = (case ping of Some e \<Rightarrow> Some (Inl e) | None \<Rightarrow> stats_select c br)"

section \<open>Lemmas on the server\<close>

fun pushed :: "action list \<Rightarrow> event list" where
  "pushed [] = []"
| "pushed (PushEvent e # as) = e # pushed as"
| "pushed (_ # as) = pushed as"

fun others :: "action list \<Rightarrow> int" where
  "others [] = 0"
| "others (OtherClients d # as) = d + others as"
| "others (_ # as) = others as"

lemma pushed_append: "pushed (xs @ ys) = pushed xs @ pushed ys"
  by (induction xs rule: pushed.induct) simp_all

lemma others_append: "others (xs @ ys) = others xs + others ys"
  by (induction xs rule: others.induct) simp_all

definition events_of :: "envelope list \<Rightarrow> envelope list" where
  "events_of envs = [env \<leftarrow> envs. env_type env = TypeEvent]"

lemma events_of_simps [simp]:
  "events_of [] = []"
  "events_of (xs @ ys) = events_of xs @ events_of ys"
  "events_of (eventEnvelope cd e # envs) = eventEnvelope cd e # events_of envs"
  "events_of (statsEnvelope cd d # envs) = events_of envs"
  "events_of (pongEnvelope # envs) = events_of envs"
  "events_of (helloEnvelope cd h # envs) = events_of envs"
  "events_of (snapshotEnvelope cd es # envs) = events_of envs"
  by (simp_all add: events_of_def envelope_defs type_defs)

text \<open>
  The invariant of a connection with a subscription: \<open>ps\<close> was pushed since, \<open>evs\<close> was written.
  The two first envelopes stay; nothing overtakes; and as long as the writer is sound, the
  handler runs and at most 100 events were pushed, nothing is missing.
\<close>

definition fed :: "codec \<Rightarrow> nat \<Rightarrow> event list \<Rightarrow> event list \<Rightarrow> conn \<Rightarrow> bool" where
  "fed cd ch ps evs k \<longleftrightarrow>
     world_inv (k_world k) \<and> k_sub k = Some ch \<and> ch < length (w_chans (k_world k))
     \<and> (k_closed k \<or> \<lparr>sub_ch = ch, sub_filter = AllowAllFilter\<rparr> \<in> set (subs (w_store (k_world k))))
     \<and> events_of (k_sent k) = map (eventEnvelope cd) evs
     \<and> subseq (evs @ buf (w_chans (k_world k) ! ch)) ps
     \<and> (\<not> k_closed k \<and> \<not> k_broken k \<and> length ps \<le> defaultSubChanCap
          \<longrightarrow> evs @ buf (w_chans (k_world k) ! ch) = ps)"

lemma subseq_left: "subseq (xs @ ys) zs \<Longrightarrow> subseq xs zs"
  by (rule subseq_order.trans [of _ "xs @ ys"]) (simp_all add: prefix_imp_subseq)

lemma fed_change:
  "fed cd ch ps evs k \<Longrightarrow> k_world k' = k_world k \<Longrightarrow> k_sub k' = k_sub k
    \<Longrightarrow> (k_closed k \<longrightarrow> k_closed k') \<Longrightarrow> (k_broken k \<longrightarrow> k_broken k')
    \<Longrightarrow> events_of (k_sent k') = events_of (k_sent k) \<Longrightarrow> fed cd ch ps evs k'"
  by (auto simp: fed_def)

text \<open>The socket is only appended to, and the handler counts itself while it runs.\<close>

definition live :: "conn \<Rightarrow> int" where
  "live k = (if k_closed k then 0 else 1)"

definition grows :: "int \<Rightarrow> conn \<Rightarrow> conn \<Rightarrow> bool" where
  "grows d k k' \<longleftrightarrow> prefix (k_sent k) (k_sent k') \<and> k_clients k' - live k' = k_clients k - live k + d
     \<and> (k_closed k \<longrightarrow> k_closed k')"

lemma grows_refl [simp]: "grows 0 k k"
  by (simp add: grows_def)

lemma grows_trans: "grows d k k1 \<Longrightarrow> grows d' k1 k2 \<Longrightarrow> grows (d + d') k k2"
  by (auto simp: grows_def intro: prefix_order.trans)

lemma fed_send:
  assumes "fed cd ch ps evs k" and "send env ok k = (sent, k1)" and "events_of [env] = []"
  shows "fed cd ch ps evs k1" and "grows 0 k k1"
  using assms by (auto simp: send_def grows_def live_def split: if_splits intro: fed_change)

lemma fed_push:
  assumes f: "fed cd ch ps evs k"
  shows "\<exists>w. Push (k_world k) e = Inr w \<and> fed cd ch (ps @ [e]) evs (k\<lparr>k_world := w\<rparr>)"
proof -
  let ?w = "k_world k"
  let ?c = "w_chans ?w ! ch"
  have inv: "world_inv ?w" and ch: "ch < length (w_chans ?w)" using f by (auto simp: fed_def)
  obtain w where w: "Push ?w e = Inr w" "world_inv w" "length (w_chans w) = length (w_chans ?w)"
      "w_chans w ! ch = (if listens (subs (w_store ?w)) e ch then enqueue e ?c else ?c)"
    using Push_spec [OF inv, of e] ch by blast
  have s: "subs (w_store w) = subs (w_store ?w)" using Push_subs [OF inv w(1)] .
  have heard: "listens (subs (w_store ?w)) e ch" if "\<not> k_closed k"
    using f that by (force simp: fed_def listens_def)
  have cap: "ccap ?c = defaultSubChanCap" using inv ch by (simp add: world_inv_def)
  have sub: "subseq (evs @ buf ?c) ps" using f by (simp add: fed_def)
  have b: "buf (w_chans w ! ch) = buf ?c \<or> buf (w_chans w ! ch) = buf ?c @ [e]"
    using w(4) by (simp add: enqueue_def)
  have "subseq (evs @ buf (w_chans w ! ch)) (ps @ [e])"
    using b subseq_snoc [OF sub] subseq_snoc_same [OF sub] by auto
  moreover have "evs @ buf (w_chans w ! ch) = ps @ [e]"
    if c: "\<not> k_closed k" "\<not> k_broken k" "length (ps @ [e]) \<le> defaultSubChanCap"
  proof -
    have eq: "evs @ buf ?c = ps" using f c by (simp add: fed_def)
    then have "length (buf ?c) < ccap ?c" using c(3) cap by (simp flip: eq)
    then show ?thesis using eq w(4) heard [OF c(1)] by (simp add: enqueue_def)
  qed
  ultimately have "fed cd ch (ps @ [e]) evs (k\<lparr>k_world := w\<rparr>)"
    using f w(2,3) s by (simp add: fed_def)
  with w(1) show ?thesis by blast
qed

lemma fed_pump:
  assumes f: "fed cd ch ps evs k"
  shows "\<exists>evs'. fed cd ch ps evs' (pump_step cd ok k)"
proof (cases "k_pump k")
  case False
  with f show ?thesis by (auto simp: pump_step_def split: option.splits)
next
  case True
  let ?w = "k_world k"
  let ?c = "w_chans ?w ! ch"
  have k: "k_sub k = Some ch" and ch: "ch < length (w_chans ?w)" and inv: "world_inv ?w"
    using f by (auto simp: fed_def)
  show ?thesis
  proof (cases "buf ?c")
    case Nil
    then have "pump_step cd ok k = k \<or> pump_step cd ok k = k\<lparr>k_pump := False\<rparr>"
      using True k by (simp add: pump_step_def Receive_def Let_def recv_def)
    moreover have "fed cd ch ps evs (k\<lparr>k_pump := False\<rparr>)" by (rule fed_change [OF f]) simp_all
    ultimately show ?thesis using f by auto
  next
    case (Cons e es)
    let ?w1 = "?w\<lparr>w_chans := (w_chans ?w)[ch := ?c\<lparr>buf := es\<rparr>]\<rparr>"
    let ?k1 = "k\<lparr>k_world := ?w1\<rparr>"
    have r: "Receive ?w ch = (Got e, ?w1)" using Cons by (simp add: Receive_def Let_def recv_def)
    have w1: "world_inv ?w1" using Receive_inv [OF inv ch] r by simp
    have sub: "subseq (evs @ e # es) ps" using f Cons by (simp add: fed_def)
    have rest: "subseq (evs @ es) ps"
      by (rule subseq_order.trans [OF _ sub]) (simp add: subseq_append' list_emb_Cons)
    show ?thesis
    proof (cases "ok \<and> \<not> k_broken k \<and> \<not> k_closed k")
      case True
      then have "pump_step cd ok k = ?k1\<lparr>k_sent := k_sent k @ [eventEnvelope cd e]\<rparr>"
        using \<open>k_pump k\<close> k r by (simp add: pump_step_def send_def)
      moreover have "fed cd ch ps (evs @ [e]) (?k1\<lparr>k_sent := k_sent k @ [eventEnvelope cd e]\<rparr>)"
        using f w1 Cons ch by (simp add: fed_def)
      ultimately show ?thesis by auto
    next
      case False
      then have "pump_step cd ok k = ?k1\<lparr>k_broken := True, k_stopped := True, k_pump := False\<rparr>"
        using \<open>k_pump k\<close> k r by (auto simp: pump_step_def send_def)
      moreover have "fed cd ch ps evs (?k1\<lparr>k_broken := True, k_stopped := True, k_pump := False\<rparr>)"
        using f w1 ch rest by (simp add: fed_def)
      ultimately show ?thesis by auto
    qed
  qed
qed

lemma fed_return:
  assumes f: "fed cd ch ps evs k"
    and o: "\<not> k_closed k"
  shows "\<exists>k'. conn_return k = Inr k' \<and> fed cd ch ps evs k' \<and> grows 0 k k'"
proof -
  have k: "k_sub k = Some ch" "ch < length (w_chans (k_world k))" "world_inv (k_world k)"
    using f by (auto simp: fed_def)
  obtain w where w: "Unsubscribe (k_world k) ch = Inr w" "world_inv w"
      "length (w_chans w) = length (w_chans (k_world k))"
      "buf (w_chans w ! ch) = buf (w_chans (k_world k) ! ch)"
  proof (cases "ch \<in> sub_ch ` set (subs (w_store (k_world k)))")
    case True
    from Unsubscribe_present [OF k(3) True] show ?thesis using that k(2) by auto
  next
    case False
    from Unsubscribe_absent [OF False] show ?thesis using that k(3) by auto
  qed
  then show ?thesis using f k o by (simp add: conn_return_def fed_def grows_def live_def)
qed

lemma pump_step_grows: "grows 0 k (pump_step cd ok k)"
  by (auto simp: pump_step_def grows_def live_def send_def split: option.split prod.split received.split)

lemma fed_loop_top:
  "fed cd ch ps evs k \<Longrightarrow> \<not> k_closed k \<Longrightarrow> \<exists>k'. loop_top k = Inr k' \<and> fed cd ch ps evs k' \<and> grows 0 k k'"
  using fed_return by (auto simp: loop_top_def)

text \<open>The reply to a message, by which the loop goes on or the handler returns.\<close>

lemma fed_reply:
  assumes f: "fed cd ch ps evs k" and o: "\<not> k_closed k" and env: "events_of [env] = []"
  shows "\<exists>k'. (let (sent, k1) = send env ok k in if sent then loop_top k1 else conn_return k1) = Inr k'
    \<and> fed cd ch ps evs k' \<and> grows 0 k k'"
proof -
  obtain sent k1 where s: "send env ok k = (sent, k1)" by fastforce
  note f1 = fed_send [OF f s env]
  have o1: "\<not> k_closed k1" using s o by (auto simp: send_def split: if_splits)
  have "\<exists>k'. (if sent then loop_top k1 else conn_return k1) = Inr k' \<and> fed cd ch ps evs k' \<and> grows 0 k1 k'"
    using fed_loop_top [OF f1(1) o1] fed_return [OF f1(1) o1] by (cases sent) simp_all
  with grows_trans [OF f1(2)] s show ?thesis by fastforce
qed

lemma fed_tick:
  assumes f: "fed cd ch ps evs k"
  shows "fed cd ch ps evs (tick_step cd opts ok k)" and "grows 0 k (tick_step cd opts ok k)"
proof -
  let ?env = "statsEnvelope cd (o_stats opts (w_store (k_world k)) (k_clients k))"
  obtain sent k1 where s: "send ?env ok k = (sent, k1)" by fastforce
  have f1: "fed cd ch ps evs k1" "grows 0 k k1" by (rule fed_send [OF f s]; simp)+
  have "fed cd ch ps evs (k1\<lparr>k_stopped := True, k_ticker := False\<rparr>)" by (rule fed_change [OF f1(1)]) simp_all
  with f f1 s show "fed cd ch ps evs (tick_step cd opts ok k)" by (auto simp: tick_step_def)
  from f1 s show "grows 0 k (tick_step cd opts ok k)" by (auto simp: tick_step_def grows_def live_def)
qed

lemma fed_read:
  "fed cd ch ps evs k \<Longrightarrow> \<not> k_closed k \<Longrightarrow>
     \<exists>k'. read_step cd opts ty ok k = Inr k' \<and> fed cd ch ps evs k' \<and> grows 0 k k'"
  using fed_reply fed_loop_top by (simp add: read_step_def)

lemma conn_step_fed:
  assumes f: "fed cd ch ps evs k"
  shows "\<exists>k' evs'. conn_step cd opts k act = Inr k' \<and> fed cd ch (ps @ pushed [act]) evs' k'
    \<and> grows (others [act]) k k'"
proof (cases act)
  case (PushEvent e)
  obtain w where "Push (k_world k) e = Inr w" "fed cd ch (ps @ [e]) evs (k\<lparr>k_world := w\<rparr>)"
    using fed_push [OF f] by blast
  with PushEvent show ?thesis by (auto simp: conn_step_def grows_def live_def)
next
  case (OtherClients d)
  have "fed cd ch ps evs (k\<lparr>k_clients := k_clients k + d\<rparr>)" by (rule fed_change [OF f]) simp_all
  with OtherClients show ?thesis by (auto simp: conn_step_def grows_def live_def)
next
  case (Pump ok)
  with fed_pump [OF f] pump_step_grows show ?thesis by (simp add: conn_step_def)
next
  case PumpStops
  have "fed cd ch ps evs (k\<lparr>k_pump := False\<rparr>)" by (rule fed_change [OF f]) simp_all
  with f PumpStops show ?thesis by (auto simp: conn_step_def grows_def live_def)
next
  case (Tick ok)
  with fed_tick [OF f] show ?thesis by (auto simp: conn_step_def)
next
  case TickStops
  have "fed cd ch ps evs (k\<lparr>k_ticker := False\<rparr>)" by (rule fed_change [OF f]) simp_all
  with f TickStops show ?thesis by (auto simp: conn_step_def grows_def live_def)
next
  case LoopTop
  with f fed_loop_top [OF f] show ?thesis by (auto simp: conn_step_def)
next
  case (ReadMessage ty ok)
  obtain k' where "\<not> k_closed k \<Longrightarrow> read_step cd opts ty ok k = Inr k' \<and> fed cd ch ps evs k' \<and> grows 0 k k'"
    using fed_read [OF f] by blast
  with f ReadMessage show ?thesis by (cases "k_closed k") (auto simp: conn_step_def)
next
  case ReadFails
  with f fed_return [OF f] show ?thesis by (auto simp: conn_step_def)
qed

lemma conn_run_fed:
  "fed cd ch ps evs k \<Longrightarrow> \<exists>k' evs'. fold_ok (conn_step cd opts) k acts = Inr k'
     \<and> fed cd ch (ps @ pushed acts) evs' k' \<and> grows (others acts) k k'"
proof (induction acts arbitrary: k ps evs)
  case Nil
  then show ?case by auto
next
  case (Cons act acts)
  obtain k1 evs1 where k1: "conn_step cd opts k act = Inr k1" "fed cd ch (ps @ pushed [act]) evs1 k1"
      "grows (others [act]) k k1"
    using conn_step_fed [OF Cons.prems] by blast
  obtain k2 evs2 where k2: "fold_ok (conn_step cd opts) k1 acts = Inr k2"
      "fed cd ch ((ps @ pushed [act]) @ pushed acts) evs2 k2" "grows (others acts) k1 k2"
    using Cons.IH [OF k1(2)] by blast
  have "pushed (act # acts) = pushed [act] @ pushed acts" "others (act # acts) = others [act] + others acts"
    by (simp_all flip: pushed_append others_append)
  with k1 k2 grows_trans [OF k1(3) k2(3)] show ?case by auto
qed

text \<open>A connection that is refused its greeting or its history stays closed.\<close>

lemma conn_run_refused:
  assumes "k_closed k" "k_sub k = None" "world_inv (k_world k)" "\<not> k_ticker k"
  shows "\<exists>k'. fold_ok (conn_step cd opts) k acts = Inr k' \<and> k_closed k' \<and> k_sent k' = k_sent k
    \<and> k_clients k' = k_clients k + others acts"
  using assms
proof (induction acts arbitrary: k)
  case Nil
  then show ?case by simp
next
  case (Cons act acts)
  have "\<exists>k1. conn_step cd opts k act = Inr k1 \<and> k_closed k1 \<and> k_sub k1 = None \<and> world_inv (k_world k1)
      \<and> \<not> k_ticker k1 \<and> k_sent k1 = k_sent k \<and> k_clients k1 = k_clients k + others [act]"
  proof (cases act)
    case (PushEvent e)
    obtain w where "Push (k_world k) e = Inr w" "world_inv w"
      using feed.push_ok [OF Cons.prems(3), of e] feed.push_keeps [OF Cons.prems(3)] by blast
    with Cons.prems PushEvent show ?thesis by (simp add: conn_step_def)
  qed (use Cons.prems in \<open>simp_all add: conn_step_def pump_step_def tick_step_def\<close>)
  moreover have "others (act # acts) = others [act] + others acts" by (simp flip: others_append)
  ultimately show ?case using Cons.IH by fastforce
qed

text \<open>An accepted connection starts with the history of the store and an empty subscription.\<close>

lemma conn_open_fed:
  assumes "world_inv w"
  shows "\<exists>k ch. conn_open cd opts w n True True between = Inr k \<and> fed cd ch [] [] k
    \<and> k_sent k = [helloEnvelope cd \<lparr>hello_version = o_version opts, hello_db = o_db opts\<rparr>,
                  snapshotEnvelope cd (Snapshot (w_store w))]
    \<and> k_clients k = n + 1 \<and> \<not> k_closed k \<and> k_pump k \<and> \<not> k_broken k
    \<and> capacity (w_store (k_world k)) = capacity (w_store w)
    \<and> Snapshot (w_store (k_world k)) = lastn (capacity (w_store w)) (Snapshot (w_store w) @ between)"
proof -
  obtain w1 where w1: "Push_all w between = Inr w1" "world_inv w1" "capacity (w_store w1) = capacity (w_store w)"
      "Snapshot (w_store w1) = lastn (capacity (w_store w)) (Snapshot (w_store w) @ between)"
    using feed.push_list [OF assms] by (auto simp: Push_all_def)
  obtain ch w2 where s: "SubscribeWithFilter w1 AllowAllFilter = (ch, w2)" by fastforce
  then have "capacity (w_store w2) = capacity (w_store w1)" by (auto simp: SubscribeWithFilter_def Let_def)
  with Subscribe_fresh [OF s] Subscribe_inv [OF w1(2) s] w1 s show ?thesis
    by (auto simp: conn_open_simps send_def fed_def chan_simps)
qed

lemma conn_open_refused:
  assumes "\<not> (ok1 \<and> ok2)"
  shows "\<exists>k. conn_open cd opts w n ok1 ok2 between = Inr k \<and> k_closed k \<and> k_sub k = None
    \<and> k_world k = w \<and> \<not> k_ticker k \<and> events_of (k_sent k) = [] \<and> k_clients k = n"
  using assms by (cases ok1) (auto simp: conn_open_simps send_def conn_return_def)

lemma handleConn_fed:
  assumes "world_inv w"
  shows "\<exists>k ch evs rest. handleConn cd opts w n True True between acts = Inr k \<and> fed cd ch (pushed acts) evs k
    \<and> k_sent k = helloEnvelope cd \<lparr>hello_version = o_version opts, hello_db = o_db opts\<rparr>
        # snapshotEnvelope cd (Snapshot (w_store w)) # rest
    \<and> events_of rest = map (eventEnvelope cd) evs
    \<and> k_clients k = n + others acts + live k"
proof -
  obtain k0 ch where k0: "conn_open cd opts w n True True between = Inr k0" "fed cd ch [] [] k0"
      "k_sent k0 = [helloEnvelope cd \<lparr>hello_version = o_version opts, hello_db = o_db opts\<rparr>,
                    snapshotEnvelope cd (Snapshot (w_store w))]"
      "k_clients k0 = n + 1" "\<not> k_closed k0"
    using conn_open_fed [OF assms] by blast
  obtain k evs where k: "fold_ok (conn_step cd opts) k0 acts = Inr k"
      "fed cd ch (pushed acts) evs k" "grows (others acts) k0 k"
    using conn_run_fed [OF k0(2), of opts acts] by auto
  obtain rest where rest: "k_sent k = k_sent k0 @ rest"
    using k(3) by (auto simp: grows_def prefix_def)
  have "handleConn cd opts w n True True between acts = Inr k" using k(1) k0(1) by (simp add: handleConn_def)
  moreover have "events_of rest = map (eventEnvelope cd) evs" using k(2) rest k0(3) by (simp add: fed_def)
  moreover have "k_clients k = n + others acts + live k" using k(3) k0(4,5) by (simp add: grows_def live_def)
  ultimately show ?thesis using k(2) rest k0(3) by auto
qed

text \<open>The store shows what is pushed; nothing else that happens on a connection touches it.\<close>

definition same_view :: "conn \<Rightarrow> conn \<Rightarrow> bool" where
  "same_view k k' \<longleftrightarrow> same_feed (k_world k) (k_world k')"

lemma same_view_world: "k_world k' = k_world k \<Longrightarrow> same_view k k'"
  by (simp add: same_view_def)

lemma send_world: "send env ok k = (sent, k1) \<Longrightarrow> k_world k1 = k_world k"
  by (auto simp: send_def split: if_splits)

lemma conn_return_view:
  assumes "world_inv (k_world k)" and "conn_return k = Inr k'"
  shows "same_view k k'"
  using assms(2) by (auto simp: conn_return_def same_view_def and_then_Inr_iff dest: Unsubscribe_feed split: option.splits)

lemma loop_top_view: "world_inv (k_world k) \<Longrightarrow> loop_top k = Inr k' \<Longrightarrow> same_view k k'"
  using conn_return_view by (auto simp: loop_top_def same_view_def split: if_splits)

lemma reply_view:
  assumes "world_inv (k_world k)"
    and "(let (sent, k1) = send env ok k in if sent then loop_top k1 else conn_return k1) = Inr k'"
  shows "same_view k k'"
proof -
  obtain sent k1 where s: "send env ok k = (sent, k1)" by fastforce
  then have "same_view k1 k'" "k_world k1 = k_world k"
    using assms loop_top_view [of k1 k'] conn_return_view [of k1 k'] send_world [OF s]
    by (auto split: if_splits)
  then show ?thesis by (simp add: same_view_def)
qed

lemma conn_step_view:
  assumes inv: "world_inv (k_world k)" and step: "conn_step cd opts k act = Inr k'" and "pushed [act] = []"
  shows "same_view k k'"
proof (cases act)
  case (Pump ok)
  then show ?thesis using step
    by (auto simp: conn_step_def pump_step_def same_view_def same_feed_def Receive_def Let_def send_def split: option.splits prod.splits
      received.splits)
next
  case (Tick ok)
  then show ?thesis using step
    by (auto simp: conn_step_def tick_step_def send_def intro!: same_view_world)
next
  case (ReadMessage ty ok)
  then show ?thesis using step inv
    by (auto simp: conn_step_def read_step_def same_view_world split: if_splits
      intro: reply_view loop_top_view)
qed (use assms in \<open>auto simp: conn_step_def same_view_world split: if_splits intro: conn_return_view loop_top_view\<close>)

lemma conn_step_store:
  assumes inv: "world_inv (k_world k)" and step: "conn_step cd opts k act = Inr k'"
  shows "Snapshot (w_store (k_world k')) = lastn (capacity (w_store (k_world k))) (Snapshot (w_store (k_world k)) @ pushed [act])"
    and "capacity (w_store (k_world k')) = capacity (w_store (k_world k))"
proof -
  have "(\<exists>e. act = PushEvent e) \<or> pushed [act] = []" by (cases act) simp_all
  then have "Snapshot (w_store (k_world k')) = lastn (capacity (w_store (k_world k))) (Snapshot (w_store (k_world k)) @ pushed [act])
    \<and> capacity (w_store (k_world k')) = capacity (w_store (k_world k))"
    using conn_step_view [OF inv step] feed.recent_bound [OF inv] step
      feed.push_recent [OF inv] feed.push_bound [OF inv]
    by (auto simp: same_view_def same_feed_def conn_step_def and_then_Inr_iff)
  then show "Snapshot (w_store (k_world k')) = lastn (capacity (w_store (k_world k))) (Snapshot (w_store (k_world k)) @ pushed [act])"
    and "capacity (w_store (k_world k')) = capacity (w_store (k_world k))" by simp_all
qed

lemma conn_run_store:
  "fed cd ch ps evs k \<Longrightarrow> fold_ok (conn_step cd opts) k acts = Inr k' \<Longrightarrow>
     Snapshot (w_store (k_world k')) = lastn (capacity (w_store (k_world k))) (Snapshot (w_store (k_world k)) @ pushed acts)"
proof (induction acts arbitrary: k ps evs)
  case Nil
  then have "world_inv (k_world k)" by (simp add: fed_def)
  from feed.recent_bound [OF this] Nil show ?case by simp
next
  case (Cons act acts)
  obtain k1 evs1 where k1: "conn_step cd opts k act = Inr k1" "fed cd ch (ps @ pushed [act]) evs1 k1"
    using conn_step_fed [OF Cons.prems(1)] by blast
  have inv: "world_inv (k_world k)" using Cons.prems(1) by (simp add: fed_def)
  have "pushed (act # acts) = pushed [act] @ pushed acts" by (simp flip: pushed_append)
  moreover have "fold_ok (conn_step cd opts) k1 acts = Inr k'" using Cons.prems(2) k1(1) by simp
  ultimately show ?case
    using Cons.IH [OF k1(2)] conn_step_store [OF inv k1(1)] by (simp add: lastn_lastn_append)
qed

lemma handleConn_store:
  assumes "world_inv w" and "handleConn cd opts w n True True between acts = Inr k"
  shows "Snapshot (w_store (k_world k)) = lastn (capacity (w_store w)) (Snapshot (w_store w) @ between @ pushed acts)"
proof -
  obtain k0 ch where k0: "conn_open cd opts w n True True between = Inr k0" "fed cd ch [] [] k0"
    "capacity (w_store (k_world k0)) = capacity (w_store w)"
    "Snapshot (w_store (k_world k0)) = lastn (capacity (w_store w)) (Snapshot (w_store w) @ between)"
    using conn_open_fed [OF assms(1)] by blast
  with conn_run_store [OF k0(2)] assms(2) show ?thesis
    by (auto simp: handleConn_def lastn_lastn_append)
qed

section \<open>Lemmas on the client\<close>

text \<open>The events the reading loop sees until the stream or a payload fails.\<close>

fun seen :: "codec \<Rightarrow> decoded list \<Rightarrow> event list" where
  "seen cd [] = []"
| "seen cd (Inl e # ds) = []"
| "seen cd (Inr env # ds) =
     (if env_type env = TypeEvent then
        (case dec_event cd (env_data env) of Inl e \<Rightarrow> [] | Inr e \<Rightarrow> e # seen cd ds)
      else seen cd ds)"

text \<open>
  What was taken and what waits, against what was seen: in order, with every loss counted, and
  without loss up to the capacity of the channel.
\<close>

definition client_inv :: "event list \<Rightarrow> client \<times> event list \<Rightarrow> bool" where
  "client_inv es s \<longleftrightarrow>
     subseq (snd s @ buf (cl_events (fst s))) es
     \<and> of_nat (length (snd s @ buf (cl_events (fst s)))) + cl_dropped (fst s) = of_nat (length es)
     \<and> ccap (cl_events (fst s)) = eventChanCap
     \<and> (length es \<le> eventChanCap \<longrightarrow> snd s @ buf (cl_events (fst s)) = es)"

lemma client_inv_offer:
  assumes "client_inv es (c, taken)"
  shows "client_inv (es @ [e]) (offer_event e c, taken)"
proof -
  let ?b = "buf (cl_events c)"
  have s: "subseq (taken @ ?b) es" using assms by (simp add: client_inv_def)
  have exact: "length (es @ [e]) \<le> eventChanCap \<Longrightarrow> length ?b < ccap (cl_events c)"
  proof -
    assume l: "length (es @ [e]) \<le> eventChanCap"
    then have "taken @ ?b = es" using assms by (simp add: client_inv_def)
    then have "length ?b \<le> length es" by (simp flip: \<open>taken @ ?b = es\<close>)
    with l assms show "length ?b < ccap (cl_events c)" by (simp add: client_inv_def)
  qed
  show ?thesis
    using assms exact subseq_snoc [OF s, of e] subseq_snoc_same [OF s, of e]
    by (auto simp: client_inv_def offer_event_def algebra_simps)
qed

lemma client_turn_inv:
  assumes "client_inv es (c, taken)"
  shows "\<exists>es'. client_inv (es @ es') (client_turn cd c d, taken)
    \<and> (cl_closed c \<longrightarrow> es' = [] \<and> cl_closed (client_turn cd c d))
    \<and> (\<forall>ds. \<not> cl_closed c \<longrightarrow> seen cd (d # ds) = es' @ (if cl_closed (client_turn cd c d) then [] else seen cd ds))"
proof (cases "cl_closed c")
  case True
  with assms show ?thesis by (auto simp: client_turn_def)
next
  case False
  show ?thesis
  proof (cases d)
    case (Inl e)
    with assms False show ?thesis
      by (intro exI [of _ "[]"]) (simp add: client_turn_def client_fail_def client_inv_def)
  next
    case (Inr env)
    show ?thesis
    proof (cases "\<exists>e. env_type env = TypeEvent \<and> dec_event cd (env_data env) = Inr e")
      case True
      then obtain e where e: "env_type env = TypeEvent" "dec_event cd (env_data env) = Inr e" by blast
      have "cl_closed (offer_event e c) = cl_closed c" by (simp add: offer_event_def)
      with client_inv_offer [OF assms, of e] e Inr False show ?thesis
        by (intro exI [of _ "[e]"]) (simp add: client_turn_def)
    next
      case no: False
      with assms False Inr show ?thesis
        by (intro exI [of _ "[]"])
           (auto simp: client_turn_def client_fail_def client_inv_def offer_stats_def split: sum.splits)
    qed
  qed
qed

lemma client_take_inv:
  "client_inv es (c, taken) \<Longrightarrow> recv (cl_events c) = (Got e, ch) \<Longrightarrow>
     client_inv es (c\<lparr>cl_events := ch\<rparr>, taken @ [e])"
  by (auto simp: client_inv_def recv_def ac_simps split: list.splits if_splits)

lemma client_start_inv:
  "cl_events c = make_chan eventChanCap \<Longrightarrow> cl_dropped c = 0 \<Longrightarrow> client_inv [] (c, [])"
  by (simp add: client_inv_def chan_simps)

section \<open>From the store of the daemon to the attached viewer\<close>

text \<open>
  What \<open>encoding/json\<close> is relied on for: the greeting, the history and the events at hand are
  read back as they were written.
\<close>

definition round_trips :: "codec \<Rightarrow> hello_data \<Rightarrow> event list \<Rightarrow> event list \<Rightarrow> bool" where
  "round_trips cd h history es \<longleftrightarrow>
     (\<exists>s. enc_hello cd h = Some s \<and> dec_hello cd s = Inr h)
     \<and> (\<exists>s. s \<noteq> [] \<and> enc_events cd history = Some s \<and> dec_events cd s = Inr history)
     \<and> (\<forall>e \<in> set es. \<exists>s. enc_event cd e = Some s \<and> dec_event cd s = Inr e)"

lemma handshake_ok:
  assumes "round_trips cd h history es"
  shows "\<exists>c. readHandshake uni cd (Inr (helloEnvelope cd h)) (Inr (snapshotEnvelope cd history)) = Inr c
    \<and> cl_hello c = h \<and> cl_snapshot c = history
    \<and> cl_events c = make_chan eventChanCap \<and> cl_dropped c = 0 \<and> \<not> cl_closed c"
proof -
  obtain s1 s2 where s: "enc_hello cd h = Some s1" "dec_hello cd s1 = Inr h" "s2 \<noteq> []"
      "enc_events cd history = Some s2" "dec_events cd s2 = Inr history"
    using assms by (auto simp: round_trips_def)
  then have "expect_hello uni cd (Inr (helloEnvelope cd h)) = Inr h"
    "expect_snapshot uni cd (Inr (snapshotEnvelope cd history)) = Inr history"
    by (simp_all add: expect_hello_def expect_snapshot_def envelope_defs mustMarshal_def)
  then show ?thesis by (simp add: readHandshake_def)
qed

lemma seen_sent:
  assumes "events_of envs = map (eventEnvelope cd) evs"
    and "\<forall>e \<in> set evs. \<exists>s. enc_event cd e = Some s \<and> dec_event cd s = Inr e"
  shows "seen cd (map Inr envs) = evs"
  using assms
proof (induction envs arbitrary: evs)
  case Nil
  then show ?case by simp
next
  case (Cons env envs)
  show ?case
  proof (cases "env_type env = TypeEvent")
    case False
    with Cons.prems have "events_of envs = map (eventEnvelope cd) evs" by (simp add: events_of_def)
    with Cons.IH Cons.prems(2) False show ?thesis by simp
  next
    case True
    with Cons.prems(1) obtain e es where e: "evs = e # es" "env = eventEnvelope cd e"
        "events_of envs = map (eventEnvelope cd) es"
      by (auto simp: events_of_def Cons_eq_map_conv)
    with Cons.IH [OF e(3)] Cons.prems(2) True show ?thesis
      by (auto simp: eventEnvelope_def mustMarshal_def)
  qed
qed

lemma connection_facts:
  assumes w: "world_inv w" and run: "handleConn cd opts w n True True between acts = Inr k"
    and wire: "prefix (e1 # e2 # envs) (k_sent k)"
    and rt: "round_trips cd \<lparr>hello_version = o_version opts, hello_db = o_db opts\<rparr> (Snapshot (w_store w)) (pushed acts)"
  obtains c ch evs where "readHandshake uni cd (Inr e1) (Inr e2) = Inr c" "cl_snapshot c = Snapshot (w_store w)"
    "cl_events c = make_chan eventChanCap" "cl_dropped c = 0" "\<not> cl_closed c"
    "fed cd ch (pushed acts) evs k" "prefix (seen cd (map Inr envs)) evs"
    "length (seen cd (map Inr envs)) = length (events_of envs)"
    "k_sent k = e1 # e2 # envs \<longrightarrow> seen cd (map Inr envs) = evs"
proof -
  let ?h = "\<lparr>hello_version = o_version opts, hello_db = o_db opts\<rparr>"
  obtain ch evs rest where k: "fed cd ch (pushed acts) evs k"
      "k_sent k = helloEnvelope cd ?h # snapshotEnvelope cd (Snapshot (w_store w)) # rest"
      "events_of rest = map (eventEnvelope cd) evs"
    using handleConn_fed [OF w, of cd opts n between acts] run by auto
  have e: "e1 = helloEnvelope cd ?h" "e2 = snapshotEnvelope cd (Snapshot (w_store w))" "prefix envs rest"
    using wire k(2) by simp_all
  from handshake_ok [OF rt, of uni] obtain c where c: "readHandshake uni cd (Inr e1) (Inr e2) = Inr c"
      "cl_snapshot c = Snapshot (w_store w)" "cl_events c = make_chan eventChanCap" "cl_dropped c = 0"
      "\<not> cl_closed c"
    unfolding e by blast
  obtain more where more: "rest = envs @ more" using e(3) by (auto simp: prefix_def)
  then have split: "map (eventEnvelope cd) evs = events_of envs @ events_of more" using k(3) by simp
  then obtain read later where r: "evs = read @ later" "events_of envs = map (eventEnvelope cd) read"
      "events_of more = map (eventEnvelope cd) later"
    by (auto simp: map_eq_append_conv)
  have "subseq (evs @ buf (w_chans (k_world k) ! ch)) (pushed acts)" using k(1) by (simp add: fed_def)
  then have "e \<in> set (pushed acts)" if "e \<in> set evs" for e
    using that by (auto elim!: list_emb_set [where x = e])
  then have read: "seen cd (map Inr envs) = read"
    using rt r by (intro seen_sent) (auto simp: round_trips_def)
  have "read = evs" if "k_sent k = e1 # e2 # envs"
    using that k(2) more r by simp
  moreover have "length read = length (events_of envs)" "prefix read evs" using r by simp_all
  ultimately show ?thesis by (intro that [OF c k(1)]) (simp_all add: read)
qed

text \<open>A small run, on which the theorems are applied below.\<close>

definition demo_codec :: codec where
  "demo_codec = \<lparr>enc_hello = (\<lambda>_. Some ''h''), dec_hello = (\<lambda>_. Inr \<lparr>hello_version = ''1'', hello_db = ''d''\<rparr>),
     enc_events = (\<lambda>_. Some ''[]''), dec_events = (\<lambda>_. Inr []),
     enc_event = (\<lambda>e. Some (if ev_id e = 1 then ''1'' else ''2'')),
     dec_event = (\<lambda>s. Inr (zero_event\<lparr>ev_id := if s = ''1'' then 1 else 2\<rparr>)),
     enc_stats = (\<lambda>_. None), dec_stats = (\<lambda>_. Inl [])\<rparr>"

definition demo_opts :: server_opts where
  "demo_opts = \<lparr>o_version = ''1'', o_db = ''d'', o_stats = (\<lambda>_ n. \<lparr>sd_uptime = 0, sd_received = 0, sd_clients = n,
     sd_last_lsn = [], sd_buffered = 0, sd_capacity = 0, sd_ratio = (0, 1)\<rparr>)\<rparr>"

definition demo_acts :: "action list" where
  "demo_acts = [PushEvent (zero_event\<lparr>ev_id := 1\<rparr>), Pump True, PushEvent (zero_event\<lparr>ev_id := 2\<rparr>), Pump True]"

lemma demo_run:
  obtains s k where "New 2 = Inr s"
    and "handleConn demo_codec demo_opts (new_world s) 0 True True [] demo_acts = Inr k"
    and "k_sent k = [helloEnvelope demo_codec \<lparr>hello_version = ''1'', hello_db = ''d''\<rparr>,
         snapshotEnvelope demo_codec [], eventEnvelope demo_codec (zero_event\<lparr>ev_id := 1\<rparr>),
         eventEnvelope demo_codec (zero_event\<lparr>ev_id := 2\<rparr>)]"
    and "\<not> k_closed k" and "\<not> k_broken k" and "k_sub k = Some 0" and "buf (w_chans (k_world k) ! 0) = []"
    and "world_inv (new_world s)" and "Snapshot (w_store (new_world s)) = []" and "capacity s = 2"
proof -
  obtain s where s: "New 2 = Inr s" by (simp add: New_def)
  have "\<exists>k. handleConn demo_codec demo_opts (new_world s) 0 True True [] demo_acts = Inr k
    \<and> k_sent k = [helloEnvelope demo_codec \<lparr>hello_version = ''1'', hello_db = ''d''\<rparr>,
         snapshotEnvelope demo_codec [], eventEnvelope demo_codec (zero_event\<lparr>ev_id := 1\<rparr>),
         eventEnvelope demo_codec (zero_event\<lparr>ev_id := 2\<rparr>)]
    \<and> \<not> k_closed k \<and> \<not> k_broken k \<and> k_sub k = Some 0 \<and> buf (w_chans (k_world k) ! 0) = []"
    using s
    by (auto simp: New_def handleConn_def conn_open_simps Push_all_def Snapshot_def new_world_def
      SubscribeWithFilter_def demo_acts_def conn_step_def Push_def push_ring_def numeral_2_eq_2 make_chan_def
      try_send_def defaultSubChanCap_def send_def pump_step_def Receive_def recv_def demo_opts_def Let_def)
  moreover have "world_inv (new_world s)" "Snapshot (w_store (new_world s)) = []" "capacity s = 2"
    using new_world_inv [OF _ s] New_ring_inv [OF _ s] by (simp_all add: new_world_def)
  ultimately show ?thesis using s that by blast
qed

lemma demo_facts: "pushed demo_acts = [zero_event\<lparr>ev_id := 1\<rparr>, zero_event\<lparr>ev_id := 2\<rparr>]"
  "round_trips demo_codec \<lparr>hello_version = o_version demo_opts, hello_db = o_db demo_opts\<rparr> [] (pushed demo_acts)"
  by (simp_all add: demo_acts_def round_trips_def demo_codec_def demo_opts_def)

text \<open>Turns of the pump empty the channel when the writes succeed.\<close>

lemma pump_drains:
  assumes "k_sub k = Some ch" "k_pump k" "\<not> k_broken k" "\<not> k_closed k" "ch < length (w_chans (k_world k))"
    and "buf (w_chans (k_world k) ! ch) = es"
  shows "\<exists>k'. fold_ok (conn_step cd opts) k (replicate (length es) (Pump True)) = Inr k'
    \<and> k_sent k' = k_sent k @ map (eventEnvelope cd) es"
  using assms
proof (induction es arbitrary: k)
  case Nil
  then show ?case by simp
next
  case (Cons e es)
  let ?c = "w_chans (k_world k) ! ch"
  let ?k = "k\<lparr>k_world := (k_world k)\<lparr>w_chans := (w_chans (k_world k))[ch := ?c\<lparr>buf := es\<rparr>]\<rparr>,
      k_sent := k_sent k @ [eventEnvelope cd e]\<rparr>"
  have step: "conn_step cd opts k (Pump True) = Inr ?k"
    using Cons.prems by (simp add: conn_step_def pump_step_def Receive_def Let_def recv_def send_def)
  have "buf (w_chans (k_world ?k) ! ch) = es" using Cons.prems(5) by simp
  with Cons.IH [of ?k] Cons.prems(1-5) obtain k' where
      "fold_ok (conn_step cd opts) ?k (replicate (length es) (Pump True)) = Inr k'"
      "k_sent k' = k_sent ?k @ map (eventEnvelope cd) es"
    by auto
  with step show ?case by simp
qed

text \<open>Pushes alone change neither the handler nor the socket.\<close>

lemma pushes_only:
  assumes "fed cd ch ps evs k"
  shows "\<exists>k'. fold_ok (conn_step cd opts) k (map PushEvent es) = Inr k'
    \<and> k' = k\<lparr>k_world := k_world k'\<rparr>"
  using assms
proof (induction es arbitrary: k ps)
  case Nil
  then show ?case by simp
next
  case (Cons e es)
  obtain w where w: "Push (k_world k) e = Inr w" "fed cd ch (ps @ [e]) evs (k\<lparr>k_world := w\<rparr>)"
    using fed_push [OF Cons.prems] by blast
  obtain k' where k': "fold_ok (conn_step cd opts) (k\<lparr>k_world := w\<rparr>) (map PushEvent es) = Inr k'"
      "k' = k\<lparr>k_world := w\<rparr>\<lparr>k_world := k_world k'\<rparr>"
    using Cons.IH [OF w(2)] by blast
  have "conn_step cd opts k (PushEvent e) = Inr (k\<lparr>k_world := w\<rparr>)" using w(1) by (simp add: conn_step_def)
  with k' show ?case by (intro exI [of _ k']) simp
qed

lemma pushed_map [simp]: "pushed (map PushEvent es) = es"
  by (induction es) simp_all

section \<open>Properties\<close>

text \<open>
  C15. A connection of the daemon, whatever its goroutines, the other producers and the client
  do: the handler never panics, the event messages on the socket are, in order and without
  repetition, a selection of the events pushed since the subscription, and the counter of
  clients is restored when the handler returns.
\<close>

theorem daemon_streams_in_order:
  assumes "world_inv w"
  shows "\<exists>k evs. handleConn cd opts w n ok1 ok2 between acts = Inr k
    \<and> [env \<leftarrow> k_sent k. env_type env = TypeEvent] = map (eventEnvelope cd) evs
    \<and> subseq evs (pushed acts)
    \<and> k_clients k = n + others acts + (if k_closed k then 0 else 1)"
proof (cases "ok1 \<and> ok2")
  case True
  obtain k ch evs rest where k: "handleConn cd opts w n True True between acts = Inr k"
      "fed cd ch (pushed acts) evs k" "k_clients k = n + others acts + live k"
    using handleConn_fed [OF assms] by blast
  have "subseq (evs @ buf (w_chans (k_world k) ! ch)) (pushed acts)" using k(2) by (simp add: fed_def)
  then have "subseq evs (pushed acts)" by (rule subseq_left)
  with k True show ?thesis by (auto simp: fed_def events_of_def live_def)
next
  case False
  obtain k where k: "conn_open cd opts w n ok1 ok2 between = Inr k" "k_closed k" "k_sub k = None"
      "k_world k = w" "\<not> k_ticker k" "events_of (k_sent k) = []" "k_clients k = n"
    using conn_open_refused [OF False] by blast
  with conn_run_refused [of k cd opts acts] assms show ?thesis
    by (auto simp: handleConn_def events_of_def)
qed

theorem daemon_streams_in_order_witness:
  "\<exists>s k. New 2 = Inr s \<and> handleConn demo_codec demo_opts (new_world s) 0 True False [] demo_acts = Inr k
    \<and> k_closed k \<and> k_clients k = 0"
proof -
  obtain s where s: "New 2 = Inr s" by (simp add: New_def)
  have w: "world_inv (new_world s)" by (rule new_world_inv [OF _ s]) simp
  obtain k where k: "handleConn demo_codec demo_opts (new_world s) 0 True False [] demo_acts = Inr k"
      "k_clients k = others demo_acts + (if k_closed k then 0 else 1)"
    using daemon_streams_in_order [OF w, of demo_codec demo_opts 0 True False "[]" demo_acts] by auto
  obtain k0 where k0: "conn_open demo_codec demo_opts (new_world s) 0 True False [] = Inr k0"
      "k_closed k0" "k_sub k0 = None" "k_world k0 = new_world s" "\<not> k_ticker k0"
    using conn_open_refused [of True False] by blast
  have "k_closed k"
    using conn_run_refused [of k0 demo_codec demo_opts demo_acts] k0 k(1) w by (auto simp: handleConn_def)
  with s k show ?thesis by (simp add: demo_acts_def)
qed

text \<open>
  C16. Liveness of a connection: whatever at most 100 events are pushed after a client was
  accepted, as many turns of the pump put all of them on the socket, in order, behind the
  greeting and the history.
\<close>

theorem pump_delivers_all:
  assumes "world_inv w" and "length es \<le> 100"
  shows "\<exists>k. handleConn cd opts w n True True between
      (map PushEvent es @ replicate (length es) (Pump True)) = Inr k
    \<and> k_sent k = helloEnvelope cd \<lparr>hello_version = o_version opts, hello_db = o_db opts\<rparr>
        # snapshotEnvelope cd (Snapshot (w_store w)) # map (eventEnvelope cd) es"
proof -
  obtain k0 ch where k0: "conn_open cd opts w n True True between = Inr k0" "fed cd ch [] [] k0"
      "k_sent k0 = [helloEnvelope cd \<lparr>hello_version = o_version opts, hello_db = o_db opts\<rparr>,
                    snapshotEnvelope cd (Snapshot (w_store w))]"
      "\<not> k_closed k0" "k_pump k0" "\<not> k_broken k0"
    using conn_open_fed [OF assms(1)] by blast
  obtain k1 where k1: "fold_ok (conn_step cd opts) k0 (map PushEvent es) = Inr k1"
      "k1 = k0\<lparr>k_world := k_world k1\<rparr>"
    using pushes_only [OF k0(2)] by blast
  obtain evs where f: "fed cd ch es evs k1"
    using conn_run_fed [OF k0(2), of opts "map PushEvent es"] k1(1) by auto
  have same: "k_sent k1 = k_sent k0" "k_closed k1 = k_closed k0" "k_pump k1 = k_pump k0" "k_broken k1 = k_broken k0"
    by (subst k1(2), simp)+
  have "evs = []" using f same k0(3) by (simp add: fed_def)
  then have "buf (w_chans (k_world k1) ! ch) = es" "k_sub k1 = Some ch" "ch < length (w_chans (k_world k1))"
    using f same k0(4,6) assms(2) by (auto simp: fed_def defaultSubChanCap_def)
  with pump_drains [of k1 ch es cd opts] same k0 k1(1) show ?thesis
    by (auto simp: handleConn_def fold_ok_append)
qed

theorem pump_delivers_all_witness:
  "\<exists>s k. New 2 = Inr s
    \<and> handleConn demo_codec demo_opts (new_world s) 0 True True []
        [PushEvent zero_event, PushEvent zero_event, PushEvent zero_event, Pump True, Pump True, Pump True] = Inr k
    \<and> length (k_sent k) = 5"
proof -
  obtain s where s: "New 2 = Inr s" by (simp add: New_def)
  have w: "world_inv (new_world s)" by (rule new_world_inv [OF _ s]) simp
  from pump_delivers_all [OF w, of "[zero_event, zero_event, zero_event]" demo_codec demo_opts 0 "[]"] s
  show ?thesis by (auto simp: numeral_3_eq_3)
qed

end
