(* ===== verification/Attach.thy ===== *)
theory Attach
  imports Ipc Tail_Modes
begin

text \<open>
  \<open>runAttach\<close> of \<open>cmd/dbwatch/main.go\<close>: the local store of an attached viewer, filled with the
  history of the daemon and then by a goroutine that reads the channels of the client.
\<close>

section \<open>The command\<close>

record attach_state =
  a_world :: feed_world
  a_client :: client
  a_source :: "string option option"

text \<open>The store is filled with the history before anything else can see it.\<close>

definition attach_open :: "int \<Rightarrow> client \<Rightarrow> go_panic + attach_state" where
  "attach_open bufferSize c =
    and_then (New bufferSize) (\<lambda>s.
    and_then (Push_all (new_world s) (cl_snapshot c)) (\<lambda>w.
      Inr \<lparr>a_world = w, a_client = c, a_source = None\<rparr>))"

text \<open>
  The goroutine: a branch of its \<open>select\<close>, or the reading loop of the client. The outer option
  of \<open>a_source\<close> is whether the goroutine has sent its result and returned. A branch that is
  not ready changes nothing.
\<close>

datatype attach_action = Wire decoded | EventsReady | ErrsReady | CtxDone

definition attach_step :: "codec \<Rightarrow> attach_state \<Rightarrow> attach_action \<Rightarrow> go_panic + attach_state" where
  "attach_step cd st act =
    (let c = a_client st in
     case act of
       Wire d \<Rightarrow> Inr (st\<lparr>a_client := client_turn cd c d\<rparr>)
     | CtxDone \<Rightarrow> Inr (if a_source st = None then st\<lparr>a_source := Some None\<rparr> else st)
     | EventsReady \<Rightarrow>
         if a_source st \<noteq> None then Inr st
         else (case recv (cl_events c) of
             (Got e, ch) \<Rightarrow> and_then (Push (a_world st) e) (\<lambda>w.
                Inr (st\<lparr>a_world := w, a_client := c\<lparr>cl_events := ch\<rparr>\<rparr>))
           | (EndOfChan, ch) \<Rightarrow> Inr (st\<lparr>a_source := Some (Some ''EOF'')\<rparr>)
           | (WouldBlock, ch) \<Rightarrow> Inr st)
     | ErrsReady \<Rightarrow>
         if a_source st \<noteq> None then Inr st
         else (case cl_errs c of
             e # es \<Rightarrow> Inr (st\<lparr>a_client := c\<lparr>cl_errs := es\<rparr>, a_source := Some (Some e)\<rparr>)
           | [] \<Rightarrow> Inr (if cl_closed c then st\<lparr>a_source := Some (Some ''EOF'')\<rparr> else st)))"

definition attach_run :: "codec \<Rightarrow> int \<Rightarrow> client \<Rightarrow> attach_action list \<Rightarrow> go_panic + attach_state" where
  "attach_run cd bufferSize c acts =
    and_then (attach_open bufferSize c) (\<lambda>st. fold_ok (attach_step cd) st acts)"

text \<open>What the viewer shows as its target.\<close>

definition attach_target :: "client \<Rightarrow> string \<Rightarrow> string" where
  "attach_target c name =
    (if hello_db (cl_hello c) = [] then ''daemon:'' @ name else hello_db (cl_hello c))"

section \<open>Lemmas\<close>

fun wires :: "attach_action list \<Rightarrow> decoded list" where
  "wires [] = []"
| "wires (Wire d # as) = d # wires as"
| "wires (_ # as) = wires as"

text \<open>
  The invariant of the command: the local store shows the newest of the history and of what
  the goroutine took, which the client accounts for.
\<close>

definition attached :: "event list \<Rightarrow> event list \<Rightarrow> event list \<Rightarrow> attach_state \<Rightarrow> bool" where
  "attached history es got st \<longleftrightarrow> world_inv (a_world st)
     \<and> Snapshot (w_store (a_world st)) = lastn (capacity (w_store (a_world st))) (history @ got)
     \<and> w_log (a_world st) = history @ got \<and> client_inv es (a_client st, got)"

lemma attached_take:
  assumes a: "attached history es got st" and r: "recv (cl_events (a_client st)) = (Got e, ch)"
  shows "\<exists>w. Push (a_world st) e = Inr w \<and> capacity (w_store w) = capacity (w_store (a_world st))
    \<and> attached history es (got @ [e]) (st\<lparr>a_world := w, a_client := (a_client st)\<lparr>cl_events := ch\<rparr>\<rparr>)"
proof -
  have inv: "world_inv (a_world st)" using a by (simp add: attached_def)
  obtain w where w: "Push (a_world st) e = Inr w" using feed.push_ok [OF inv] by blast
  note facts = feed.push_keeps [OF inv w] feed.push_bound [OF inv w] feed.push_recent [OF inv w] Push_log [OF w]
  have "client_inv es ((a_client st)\<lparr>cl_events := ch\<rparr>, got @ [e])"
    using a r client_take_inv by (auto simp: attached_def)
  with facts a have "attached history es (got @ [e]) (st\<lparr>a_world := w, a_client := (a_client st)\<lparr>cl_events := ch\<rparr>\<rparr>)"
    by (simp add: attached_def lastn_lastn_append)
  with w facts show ?thesis by blast
qed

text \<open>
  One step: \<open>es\<close> grows by what the wire brings while the reading loop runs.
\<close>

definition wire_part :: "codec \<Rightarrow> attach_state \<Rightarrow> decoded list \<Rightarrow> event list" where
  "wire_part cd st ds = (if cl_closed (a_client st) then [] else seen cd ds)"

lemma wires_append [simp]: "wires (as @ bs) = wires as @ wires bs"
  by (induction as rule: wires.induct) simp_all

text \<open>A step that moves no event.\<close>

definition quiet :: "attach_state \<Rightarrow> attach_state \<Rightarrow> bool" where
  "quiet st st' \<longleftrightarrow> a_world st' = a_world st \<and> cl_events (a_client st') = cl_events (a_client st)
     \<and> cl_dropped (a_client st') = cl_dropped (a_client st) \<and> cl_closed (a_client st') = cl_closed (a_client st)"

lemma quiet_attached:
  "attached history es got st \<Longrightarrow> quiet st st' \<Longrightarrow> wires [act] = [] \<Longrightarrow>
     \<exists>es' ps. attached history (es @ es') (got @ ps) st' \<and> fold_ok Push (a_world st) ps = Inr (a_world st')
       \<and> capacity (w_store (a_world st')) = capacity (w_store (a_world st))
       \<and> (\<forall>as. wire_part cd st (wires (act # as)) = es' @ wire_part cd st' (wires as))"
proof (intro exI [of _ "[]"] conjI allI)
  assume q: "attached history es got st" "quiet st st'" "wires [act] = []"
  then show "attached history (es @ []) (got @ []) st'" "fold_ok Push (a_world st) [] = Inr (a_world st')"
    "capacity (w_store (a_world st')) = capacity (w_store (a_world st))"
    by (simp_all add: attached_def quiet_def client_inv_def)
  have "wires (act # as) = wires as" for as using wires_append [of "[act]" as] q(3) by simp
  with q(2) show "wire_part cd st (wires (act # as)) = [] @ wire_part cd st' (wires as)" for as
    by (simp add: quiet_def wire_part_def)
qed

lemma attach_step_attached:
  assumes a: "attached history es got st"
  shows "\<exists>st' es' ps. attach_step cd st act = Inr st' \<and> attached history (es @ es') (got @ ps) st'
    \<and> fold_ok Push (a_world st) ps = Inr (a_world st')
    \<and> capacity (w_store (a_world st')) = capacity (w_store (a_world st))
    \<and> (\<forall>as. wire_part cd st (wires (act # as)) = es' @ wire_part cd st' (wires as))"
proof (cases act)
  case (Wire d)
  have c: "client_inv es (a_client st, got)" using a by (simp add: attached_def)
  obtain es' where t: "client_inv (es @ es') (client_turn cd (a_client st) d, got)"
      "cl_closed (a_client st) \<longrightarrow> es' = [] \<and> cl_closed (client_turn cd (a_client st) d)"
      "\<forall>ds. \<not> cl_closed (a_client st) \<longrightarrow>
         seen cd (d # ds) = es' @ (if cl_closed (client_turn cd (a_client st) d) then [] else seen cd ds)"
    using client_turn_inv [OF c, of cd d] by blast
  with a Wire show ?thesis
    by (intro exI [of _ "st\<lparr>a_client := client_turn cd (a_client st) d\<rparr>"] exI [of _ es'] exI [of _ "[]"])
       (auto simp: attach_step_def attached_def wire_part_def)
next
  case EventsReady
  show ?thesis
  proof (cases "a_source st = None \<and> (\<exists>e ch. recv (cl_events (a_client st)) = (Got e, ch))")
    case True
    then obtain e ch where r: "a_source st = None" "recv (cl_events (a_client st)) = (Got e, ch)" by blast
    obtain w where w: "Push (a_world st) e = Inr w" "capacity (w_store w) = capacity (w_store (a_world st))"
      "attached history es (got @ [e]) (st\<lparr>a_world := w, a_client := (a_client st)\<lparr>cl_events := ch\<rparr>\<rparr>)"
      using attached_take [OF a r(2)] by blast
    then show ?thesis using r EventsReady
      by (intro exI [of _ "st\<lparr>a_world := w, a_client := (a_client st)\<lparr>cl_events := ch\<rparr>\<rparr>"]
            exI [of _ "[]"] exI [of _ "[e]"])
         (simp add: attach_step_def wire_part_def)
  next
    case False
    then have "\<exists>st'. attach_step cd st EventsReady = Inr st' \<and> quiet st st'"
      by (auto simp: attach_step_def quiet_def Let_def split: prod.split received.split)
    then obtain st' where "attach_step cd st EventsReady = Inr st'" "quiet st st'" by blast
    with quiet_attached [OF a this(2), of EventsReady cd] EventsReady show ?thesis by (intro exI [of _ st']) simp
  qed
next
  case ErrsReady
  have "\<exists>st'. attach_step cd st ErrsReady = Inr st' \<and> quiet st st'"
    by (auto simp: attach_step_def quiet_def Let_def split: list.split)
  then obtain st' where "attach_step cd st ErrsReady = Inr st'" "quiet st st'" by blast
    with quiet_attached [OF a this(2), of ErrsReady cd] ErrsReady show ?thesis by (intro exI [of _ st']) simp
next
  case CtxDone
  have "\<exists>st'. attach_step cd st CtxDone = Inr st' \<and> quiet st st'"
    by (auto simp: attach_step_def quiet_def)
  then obtain st' where "attach_step cd st CtxDone = Inr st'" "quiet st st'" by blast
    with quiet_attached [OF a this(2), of CtxDone cd] CtxDone show ?thesis by (intro exI [of _ st']) simp
qed

lemma attach_fold_pushes:
  assumes "attached history es got st"
  shows "\<exists>st' es' ps. fold_ok (attach_step cd) st acts = Inr st' \<and> attached history (es @ es') (got @ ps) st'
    \<and> fold_ok Push (a_world st) ps = Inr (a_world st')
    \<and> capacity (w_store (a_world st')) = capacity (w_store (a_world st))
    \<and> (\<forall>bs. wire_part cd st (wires (acts @ bs)) = es' @ wire_part cd st' (wires bs))"
  using assms
proof (induction acts arbitrary: es got st)
  case Nil
  then show ?case by (intro exI [of _ st] exI [of _ "[]"]) simp
next
  case (Cons act acts)
  obtain st1 es1 ps1 where 1: "attach_step cd st act = Inr st1" "attached history (es @ es1) (got @ ps1) st1"
      "fold_ok Push (a_world st) ps1 = Inr (a_world st1)"
      "capacity (w_store (a_world st1)) = capacity (w_store (a_world st))"
      "\<forall>as. wire_part cd st (wires (act # as)) = es1 @ wire_part cd st1 (wires as)"
    using attach_step_attached [OF Cons.prems] by blast
  from Cons.IH [OF 1(2)] obtain st2 es2 ps2 where 2: "fold_ok (attach_step cd) st1 acts = Inr st2"
      "attached history ((es @ es1) @ es2) ((got @ ps1) @ ps2) st2" "fold_ok Push (a_world st1) ps2 = Inr (a_world st2)"
      "capacity (w_store (a_world st2)) = capacity (w_store (a_world st1))"
      "\<forall>bs. wire_part cd st1 (wires (acts @ bs)) = es2 @ wire_part cd st2 (wires bs)" by blast
  have "fold_ok Push (a_world st) (ps1 @ ps2) = Inr (a_world st2)" using 1(3) 2(3) by (simp add: fold_ok_append)
  moreover have "wire_part cd st (wires ((act # acts) @ bs)) = (es1 @ es2) @ wire_part cd st2 (wires bs)" for bs
    using 1(5) 2(5) by (simp only: append_Cons append_assoc)
  ultimately show ?case using 1(1,4) 2(1,2,4)
    by (intro exI [of _ st2] exI [of _ "es1 @ es2"] exI [of _ "ps1 @ ps2"]) (simp del: wires_append)
qed

lemma attach_open_attached:
  assumes "0 < bufferSize" and c: "cl_events c = make_chan eventChanCap" "cl_dropped c = 0"
  shows "\<exists>st. attach_open bufferSize c = Inr st \<and> attached (cl_snapshot c) [] [] st
    \<and> capacity (w_store (a_world st)) = nat bufferSize \<and> a_client st = c"
proof -
  obtain s where s: "New bufferSize = Inr s" using assms(1) by (simp add: New_def)
  note n = New_ring_inv [OF assms(1) s]
  obtain w where w: "Push_all (new_world s) (cl_snapshot c) = Inr w" "world_inv w"
      "capacity (w_store w) = nat bufferSize" "Snapshot (w_store w) = lastn (nat bufferSize) (cl_snapshot c)"
      "w_log w = cl_snapshot c"
    using pushes_log [of "new_world s" "cl_snapshot c"] feed.push_list [OF new_world_inv [OF assms(1) s], of "cl_snapshot c"] n
    by (auto simp: Push_all_def new_world_def)
  have "attached (cl_snapshot c) [] [] \<lparr>a_world = w, a_client = c, a_source = None\<rparr>"
    using w client_start_inv [OF c] by (simp add: attached_def)
  with w s show ?thesis by (simp add: attach_open_def)
qed

lemma attach_run_attached:
  assumes "0 < bufferSize" and c: "cl_events c = make_chan eventChanCap" "cl_dropped c = 0" "\<not> cl_closed c"
  shows "\<exists>st got. attach_run cd bufferSize c acts = Inr st
    \<and> attached (cl_snapshot c) (seen cd (wires acts)) got st \<and> capacity (w_store (a_world st)) = nat bufferSize"
proof -
  from attach_open_attached [OF assms(1-3)] obtain st0 where o: "attach_open bufferSize c = Inr st0"
    "attached (cl_snapshot c) [] [] st0" "capacity (w_store (a_world st0)) = nat bufferSize" "a_client st0 = c" by blast
  from attach_fold_pushes [OF o(2), of cd acts] obtain st es ps where f:
    "fold_ok (attach_step cd) st0 acts = Inr st" "attached (cl_snapshot c) es ps st"
    "capacity (w_store (a_world st)) = nat bufferSize"
    "\<forall>bs. wire_part cd st0 (wires (acts @ bs)) = es @ wire_part cd st (wires bs)" using o(3) by auto
  from f(4) [rule_format, of "[]"] have "seen cd (wires acts) = es" using o(4) c(3) by (simp add: wire_part_def)
  with o(1) f show ?thesis by (auto simp: attach_run_def)
qed

section \<open>Properties\<close>

text \<open>
  From the daemon to the attached viewer: whatever part of the stream the client has read,
  and at whatever pace its goroutine runs, its store shows the newest of the history the daemon
  had when it accepted the connection and of a selection, in order, of the events pushed since;
  taken, waiting and dropped events add up to those read.
\<close>

theorem attach_in_order:
  assumes "world_inv w" and "handleConn cd opts w n True True between acts = Inr k"
    and "prefix (e1 # e2 # envs) (k_sent k)" and "wires as = map Inr envs" and "0 < bufferSize"
    and "round_trips cd \<lparr>hello_version = o_version opts, hello_db = o_db opts\<rparr> (Snapshot (w_store w)) (pushed acts)"
  shows "\<exists>c st got. readHandshake uni cd (Inr e1) (Inr e2) = Inr c \<and> attach_run cd bufferSize c as = Inr st
    \<and> Snapshot (w_store (a_world st)) = lastn (nat bufferSize) (Snapshot (w_store w) @ got)
    \<and> subseq got (pushed acts)
    \<and> of_nat (length got + length (buf (cl_events (a_client st)))) + cl_dropped (a_client st)
        = of_nat (length [env \<leftarrow> envs. env_type env = TypeEvent])"
proof -
  obtain c ch evs where c: "readHandshake uni cd (Inr e1) (Inr e2) = Inr c" "cl_snapshot c = Snapshot (w_store w)"
    "cl_events c = make_chan eventChanCap" "cl_dropped c = 0" "\<not> cl_closed c"
    "fed cd ch (pushed acts) evs k" "prefix (seen cd (map Inr envs)) evs"
    "length (seen cd (map Inr envs)) = length (events_of envs)"
    by (rule connection_facts [OF assms(1-3,6)])
  obtain st got where st: "attach_run cd bufferSize c as = Inr st"
    "attached (Snapshot (w_store w)) (seen cd (map Inr envs)) got st" "capacity (w_store (a_world st)) = nat bufferSize"
    using attach_run_attached [OF assms(5) c(3-5), of cd as] c(2) assms(4) by auto
  have i: "client_inv (seen cd (map Inr envs)) (a_client st, got)" using st(2) by (simp add: attached_def)
  have "subseq got (seen cd (map Inr envs))" using i by (auto simp: client_inv_def intro: subseq_left)
  moreover have "subseq (seen cd (map Inr envs)) evs" using c(7) by (rule prefix_imp_subseq)
  moreover have "subseq evs (pushed acts)" using c(6) by (auto simp: fed_def intro: subseq_left)
  ultimately have "subseq got (pushed acts)" using subseq_order.trans by blast
  with c(1) st i c(8) show ?thesis by (auto simp: attached_def client_inv_def events_of_def)
qed

text \<open>A run that takes both events of \<open>demo_run\<close>.\<close>

definition demo_envs :: "envelope list" where
  "demo_envs = [eventEnvelope demo_codec (zero_event\<lparr>ev_id := 1\<rparr>), eventEnvelope demo_codec (zero_event\<lparr>ev_id := 2\<rparr>)]"

definition demo_attach :: "attach_action list" where
  "demo_attach = [EventsReady, Wire (Inr (demo_envs ! 0)), Wire (Inr (demo_envs ! 1)), EventsReady, EventsReady]"

lemma demo_attach_facts: "wires demo_attach = map Inr demo_envs"
  "readHandshake (\<lambda>_. True) demo_codec (Inr (helloEnvelope demo_codec \<lparr>hello_version = ''1'', hello_db = ''d''\<rparr>))
     (Inr (snapshotEnvelope demo_codec [])) = Inr c \<Longrightarrow> attach_run demo_codec 2 c demo_attach = Inr st
   \<Longrightarrow> buf (cl_events (a_client st)) = [] \<and> cl_dropped (a_client st) = 0 \<and> map ev_id (Snapshot (w_store (a_world st))) = [1, 2]"
proof -
  show "wires demo_attach = map Inr demo_envs" by (simp add: demo_attach_def demo_envs_def)
  assume "readHandshake (\<lambda>_. True) demo_codec (Inr (helloEnvelope demo_codec \<lparr>hello_version = ''1'', hello_db = ''d''\<rparr>))
     (Inr (snapshotEnvelope demo_codec [])) = Inr c" and "attach_run demo_codec 2 c demo_attach = Inr st"
  then show "buf (cl_events (a_client st)) = [] \<and> cl_dropped (a_client st) = 0 \<and> map ev_id (Snapshot (w_store (a_world st))) = [1, 2]"
    by (auto simp: readHandshake_def expect_hello_def expect_snapshot_def envelope_defs type_defs mustMarshal_def
      demo_codec_def attach_run_def attach_open_def New_def Push_all_def new_world_def demo_attach_def demo_envs_def
      attach_step_def client_turn_def offer_event_def make_chan_def eventChanCap_def recv_def Push_def push_ring_def
      numeral_2_eq_2 Snapshot_def)
qed

theorem attach_in_order_witness:
  "\<exists>s k c st. New 2 = Inr s \<and> handleConn demo_codec demo_opts (new_world s) 0 True True [] demo_acts = Inr k
    \<and> attach_run demo_codec 2 c demo_attach = Inr st \<and> cl_dropped (a_client st) = 0
    \<and> map ev_id (Snapshot (w_store (a_world st))) = [1, 2]"
proof -
  obtain s k where s: "New 2 = Inr s"
      and k: "handleConn demo_codec demo_opts (new_world s) 0 True True [] demo_acts = Inr k"
      "k_sent k = [helloEnvelope demo_codec \<lparr>hello_version = ''1'', hello_db = ''d''\<rparr>,
         snapshotEnvelope demo_codec [], eventEnvelope demo_codec (zero_event\<lparr>ev_id := 1\<rparr>),
         eventEnvelope demo_codec (zero_event\<lparr>ev_id := 2\<rparr>)]"
      and w: "world_inv (new_world s)" and h: "Snapshot (w_store (new_world s)) = []"
    by (rule demo_run)
  have wire: "prefix (helloEnvelope demo_codec \<lparr>hello_version = ''1'', hello_db = ''d''\<rparr>
      # snapshotEnvelope demo_codec [] # demo_envs) (k_sent k)" by (simp add: k(2) demo_envs_def)
  have rt: "round_trips demo_codec \<lparr>hello_version = o_version demo_opts, hello_db = o_db demo_opts\<rparr>
      (Snapshot (w_store (new_world s))) (pushed demo_acts)"
    unfolding h by (rule demo_facts)
  obtain c st got where c: "readHandshake (\<lambda>_. True) demo_codec
        (Inr (helloEnvelope demo_codec \<lparr>hello_version = ''1'', hello_db = ''d''\<rparr>))
        (Inr (snapshotEnvelope demo_codec [])) = Inr c" "attach_run demo_codec 2 c demo_attach = Inr st"
      "Snapshot (w_store (a_world st)) = lastn (nat 2) (Snapshot (w_store (new_world s)) @ got)"
      "of_nat (length got + length (buf (cl_events (a_client st)))) + cl_dropped (a_client st)
        = of_nat (length [env \<leftarrow> demo_envs. env_type env = TypeEvent])"
    using attach_in_order [OF w k(1) wire demo_attach_facts(1) _ rt, of 2 "\<lambda>_. True"] by auto
  note run = demo_attach_facts(2) [OF c(1,2)]
  show ?thesis by (intro exI conjI, rule s, rule k(1), rule c(2)) (use run in simp_all)
qed

text \<open>
  C14. An attached viewer mirrors the daemon, if its own buffer has the capacity of
  the daemon's, which is positive (with another \<open>--buffer\<close> it shows more or less). Nothing is pushed while the
  connection opens, at most 100 events are pushed afterwards, both initial writes succeed, the connection is
  neither closed nor broken, the JSON encoding gives back the values sent, and the client
  reads all that was sent. Then the handshake and the client succeed, and once no event waits in
  the daemon's or the client's channel, the local store shows exactly what the daemon's store shows.
\<close>

theorem attach_mirrors_daemon:
  assumes "world_inv w" and "handleConn cd opts w n True True [] acts = Inr k"
    and "k_sent k = e1 # e2 # envs" and "wires as = map Inr envs" and "0 < bufferSize"
    and "round_trips cd \<lparr>hello_version = o_version opts, hello_db = o_db opts\<rparr> (Snapshot (w_store w)) (pushed acts)"
    and "\<not> k_closed k" and "\<not> k_broken k" and "length (pushed acts) \<le> 100"
    and "capacity (w_store w) = nat bufferSize"
  shows "\<exists>c st ch. readHandshake uni cd (Inr e1) (Inr e2) = Inr c \<and> attach_run cd bufferSize c as = Inr st
    \<and> k_sub k = Some ch
    \<and> (buf (w_chans (k_world k) ! ch) = [] \<and> buf (cl_events (a_client st)) = []
        \<longrightarrow> Snapshot (w_store (a_world st)) = Snapshot (w_store (k_world k)))"
proof -
  have "prefix (e1 # e2 # envs) (k_sent k)" using assms(3) by simp
  from connection_facts [OF assms(1,2) this assms(6)]
  obtain c ch evs where c: "readHandshake uni cd (Inr e1) (Inr e2) = Inr c" "cl_snapshot c = Snapshot (w_store w)"
    "cl_events c = make_chan eventChanCap" "cl_dropped c = 0" "\<not> cl_closed c"
    "fed cd ch (pushed acts) evs k" "k_sent k = e1 # e2 # envs \<longrightarrow> seen cd (map Inr envs) = evs"
    by blast
  have evs: "seen cd (map Inr envs) = evs" using c(7) assms(3) by blast
  obtain st got where st: "attach_run cd bufferSize c as = Inr st"
    "attached (Snapshot (w_store w)) evs got st" "capacity (w_store (a_world st)) = nat bufferSize"
    using attach_run_attached [OF assms(5) c(3-5), of cd as] c(2) assms(4) evs by auto
  have f: "k_sub k = Some ch" "evs @ buf (w_chans (k_world k) ! ch) = pushed acts"
    using c(6) assms(7-9) by (auto simp: fed_def defaultSubChanCap_def)
  then have "length evs \<le> eventChanCap" using assms(9) by (simp add: eventChanCap_def flip: f(2))
  with st(2) have g: "got @ buf (cl_events (a_client st)) = evs" by (simp add: attached_def client_inv_def)
  have "Snapshot (w_store (k_world k)) = lastn (capacity (w_store w)) (Snapshot (w_store w) @ pushed acts)"
    using handleConn_store [OF assms(1,2)] by simp
  with st f g assms(10) c(1) show ?thesis by (auto simp: attached_def)
qed

theorem attach_mirrors_daemon_witness:
  "\<exists>s k c st. New 2 = Inr s \<and> handleConn demo_codec demo_opts (new_world s) 0 True True [] demo_acts = Inr k
    \<and> attach_run demo_codec 2 c demo_attach = Inr st
    \<and> Snapshot (w_store (a_world st)) = Snapshot (w_store (k_world k))
    \<and> map ev_id (Snapshot (w_store (k_world k))) = [1, 2]"
proof -
  obtain s k where s: "New 2 = Inr s"
      and k: "handleConn demo_codec demo_opts (new_world s) 0 True True [] demo_acts = Inr k"
      "k_sent k = [helloEnvelope demo_codec \<lparr>hello_version = ''1'', hello_db = ''d''\<rparr>,
         snapshotEnvelope demo_codec [], eventEnvelope demo_codec (zero_event\<lparr>ev_id := 1\<rparr>),
         eventEnvelope demo_codec (zero_event\<lparr>ev_id := 2\<rparr>)]"
      "\<not> k_closed k" "\<not> k_broken k" "k_sub k = Some 0" "buf (w_chans (k_world k) ! 0) = []"
      and w: "world_inv (new_world s)" and h: "Snapshot (w_store (new_world s)) = []" "capacity s = 2"
    by (rule demo_run)
  have wire: "k_sent k = helloEnvelope demo_codec \<lparr>hello_version = ''1'', hello_db = ''d''\<rparr>
      # snapshotEnvelope demo_codec [] # demo_envs" by (simp add: k(2) demo_envs_def)
  have rt: "round_trips demo_codec \<lparr>hello_version = o_version demo_opts, hello_db = o_db demo_opts\<rparr>
      (Snapshot (w_store (new_world s))) (pushed demo_acts)"
    unfolding h by (rule demo_facts)
  have few: "length (pushed demo_acts) \<le> 100" and cap: "capacity (w_store (new_world s)) = nat 2"
    using h by (simp_all add: demo_facts new_world_def)
  obtain c st where c: "readHandshake (\<lambda>_. True) demo_codec
        (Inr (helloEnvelope demo_codec \<lparr>hello_version = ''1'', hello_db = ''d''\<rparr>))
        (Inr (snapshotEnvelope demo_codec [])) = Inr c" "attach_run demo_codec 2 c demo_attach = Inr st"
      "buf (cl_events (a_client st)) = [] \<longrightarrow> Snapshot (w_store (a_world st)) = Snapshot (w_store (k_world k))"
    using attach_mirrors_daemon [OF w k(1) wire demo_attach_facts(1) _ rt k(3,4) few cap, of "\<lambda>_. True"] k(5,6)
    by auto
  note run = demo_attach_facts(2) [OF c(1,2)]
  then have "Snapshot (w_store (a_world st)) = Snapshot (w_store (k_world k))" using c(3) by simp
  moreover from this run have "map ev_id (Snapshot (w_store (k_world k))) = [1, 2]" by simp
  ultimately show ?thesis by - (intro exI conjI, rule s, rule k(1), rule c(2))
qed

text \<open>
  Events lost with the connection: when the stream of the daemon ends, the goroutine may
  take the error before the events that still wait in the client's channel; whatever happens
  then, none of these reaches the local store.
\<close>

theorem ended_stream_loses_waiting:
  assumes "attach_run cd bufferSize c as = Inr st" and "a_source st = None" and "\<not> cl_closed (a_client st)"
    and "cl_errs (a_client st) = []"
  shows "\<exists>st'. attach_run cd bufferSize c (as @ [Wire (Inl err), ErrsReady] @ later) = Inr st'
    \<and> a_source st' = Some (Some (''read daemon stream: '' @ err)) \<and> a_world st' = a_world st
    \<and> buf (cl_events (a_client st')) = buf (cl_events (a_client st))"
proof -
  let ?st = "st\<lparr>a_client := (client_fail (''read daemon stream: '' @ err) (a_client st))\<lparr>cl_errs := []\<rparr>,
      a_source := Some (Some (''read daemon stream: '' @ err))\<rparr>"
  have step: "fold_ok (attach_step cd) st [Wire (Inl err), ErrsReady] = Inr ?st"
    using assms(2-4) by (simp add: attach_step_def client_turn_def client_fail_def Let_def)
  have "\<exists>st'. fold_ok (attach_step cd) s later = Inr st' \<and> a_source st' = a_source s \<and> a_world st' = a_world s
      \<and> buf (cl_events (a_client st')) = buf (cl_events (a_client s))"
    if "a_source s \<noteq> None" "cl_closed (a_client s)" for s
    using that
  proof (induction later arbitrary: s)
    case Nil
    then show ?case by simp
  next
    case (Cons act later)
    have "\<exists>s1. attach_step cd s act = Inr s1 \<and> a_source s1 = a_source s \<and> a_world s1 = a_world s
        \<and> a_client s1 = a_client s"
      using Cons.prems by (cases act) (auto simp: attach_step_def client_turn_def)
    then obtain s1 where s1: "attach_step cd s act = Inr s1" "a_source s1 = a_source s" "a_world s1 = a_world s"
        "a_client s1 = a_client s" by blast
    with Cons.IH [of s1] Cons.prems show ?case by auto
  qed
  from this [of ?st] obtain st' where "fold_ok (attach_step cd) ?st later = Inr st'" "a_source st' = a_source ?st"
      "a_world st' = a_world ?st" "buf (cl_events (a_client st')) = buf (cl_events (a_client ?st))"
    by (auto simp: client_fail_def)
  moreover have "attach_run cd bufferSize c (as @ [Wire (Inl err), ErrsReady] @ later)
      = fold_ok (attach_step cd) st ([Wire (Inl err), ErrsReady] @ later)"
    using assms(1) by (auto simp: attach_run_def and_then_Inr_iff fold_ok_append [of _ _ as])
  moreover have "\<dots> = fold_ok (attach_step cd) ?st later"
    unfolding fold_ok_append step by simp
  ultimately show ?thesis by (simp add: client_fail_def)
qed

theorem ended_stream_loses_waiting_witness:
  "\<exists>c st'. attach_run demo_codec 2 c [Wire (Inr (demo_envs ! 0)), Wire (Inl ''EOF''), ErrsReady, EventsReady] = Inr st'
    \<and> Snapshot (w_store (a_world st')) = [] \<and> length (buf (cl_events (a_client st'))) = 1"
proof -
  let ?c = "\<lparr>cl_hello = \<lparr>hello_version = [], hello_db = []\<rparr>, cl_snapshot = [], cl_events = make_chan eventChanCap,
      cl_stats = make_chan statsChanCap, cl_errs = [], cl_closed = False, cl_dropped = 0\<rparr>"
  have "\<exists>st. attach_run demo_codec 2 ?c [Wire (Inr (demo_envs ! 0))] = Inr st \<and> a_source st = None
      \<and> \<not> cl_closed (a_client st) \<and> cl_errs (a_client st) = [] \<and> Snapshot (w_store (a_world st)) = []
      \<and> length (buf (cl_events (a_client st))) = 1"
    by (simp add: attach_run_def attach_open_def New_def Push_all_def new_world_def attach_step_def client_turn_def
      demo_envs_def eventEnvelope_def type_defs demo_codec_def mustMarshal_def offer_event_def make_chan_def
      eventChanCap_def Snapshot_def)
  then obtain st where st: "attach_run demo_codec 2 ?c [Wire (Inr (demo_envs ! 0))] = Inr st" "a_source st = None"
      "\<not> cl_closed (a_client st)" "cl_errs (a_client st) = []" "Snapshot (w_store (a_world st)) = []"
      "length (buf (cl_events (a_client st))) = 1" by blast
  from ended_stream_loses_waiting [OF st(1-4), of "''EOF''" "[EventsReady]"] st(5,6)
  show ?thesis by (intro exI [of _ ?c]) auto
qed

end
