(* ===== verification/Go_Path.thy ===== *)
theory Go_Path
  imports Go_Strings
begin

text \<open>
  What the source uses of \<open>path/filepath\<close>, \<open>strconv.Atoi\<close> and the suffix functions of package
  strings, on a Unix system. \<open>Clean\<close> works on the elements between slashes, from the front,
  with the elements kept so far in reverse.
\<close>

section \<open>Suffixes\<close>

definition has_suffix :: "string \<Rightarrow> string \<Rightarrow> bool" where
  "has_suffix s suf = has_prefix (rev s) (rev suf)"

definition trim_suffix :: "string \<Rightarrow> string \<Rightarrow> string" where
  "trim_suffix s suf = (if has_suffix s suf then take (length s - length suf) s else s)"

lemma has_suffix_append [simp]: "has_suffix (s @ suf) suf"
  by (simp add: has_suffix_def has_prefix_iff)

lemma trim_suffix_append [simp]: "trim_suffix (s @ suf) suf = s"
  by (simp add: trim_suffix_def)

lemma has_suffix_iff: "has_suffix s suf \<longleftrightarrow> (\<exists>p. s = p @ suf)"
proof
  assume "has_suffix s suf"
  then have "suffix suf s" by (simp add: has_suffix_def has_prefix_iff suffix_to_prefix)
  then show "\<exists>p. s = p @ suf" by (auto simp: suffix_def)
qed auto

section \<open>filepath.Clean and filepath.Join\<close>

text \<open>The elements of a path: what stands between its slashes.\<close>

fun path_elems :: "string \<Rightarrow> string list" where
  "path_elems [] = [[]]"
| "path_elems (c # s) =
     (if c = CHR ''/'' then [] # path_elems s
      else (case path_elems s of e # es \<Rightarrow> (c # e) # es | [] \<Rightarrow> [[c]]))"

fun clean_elems :: "bool \<Rightarrow> string list \<Rightarrow> string list \<Rightarrow> string list" where
  "clean_elems rooted kept [] = rev kept"
| "clean_elems rooted kept (e # es) =
     (if e = [] \<or> e = ''.'' then clean_elems rooted kept es
      else if e = ''..'' then
        (case kept of
           [] \<Rightarrow> if rooted then clean_elems rooted [] es else clean_elems rooted [''..''] es
         | k # ks \<Rightarrow> if k = ''..'' then clean_elems rooted (''..'' # kept) es else clean_elems rooted ks es)
      else clean_elems rooted (e # kept) es)"

definition is_rooted :: "string \<Rightarrow> bool" where
  "is_rooted path \<longleftrightarrow> path \<noteq> [] \<and> hd path = CHR ''/''"

definition path_Clean :: "string \<Rightarrow> string" where
  "path_Clean path =
    (let s = join ''/'' (clean_elems (is_rooted path) [] (path_elems path))
     in if is_rooted path then ''/'' @ s else if s = [] then ''.'' else s)"

definition path_Join :: "string \<Rightarrow> string \<Rightarrow> string" where
  "path_Join a b =
    (if a = [] then (if b = [] then [] else path_Clean b)
     else path_Clean (if b = [] then a else a @ ''/'' @ b))"

definition path_Dir :: "string \<Rightarrow> string" where
  "path_Dir path = path_Clean (rev (dropWhile (\<lambda>c. c \<noteq> CHR ''/'') (rev path)))"

text \<open>An ordinary file name: one element that \<open>Clean\<close> keeps.\<close>

definition plain_name :: "string \<Rightarrow> bool" where
  "plain_name f \<longleftrightarrow> f \<noteq> [] \<and> f \<noteq> ''.'' \<and> f \<noteq> ''..'' \<and> CHR ''/'' \<notin> set f"

lemma path_elems_nonempty [simp]: "path_elems s \<noteq> []"
  by (induction s) (auto split: list.split)

lemma path_elems_plain: "CHR ''/'' \<notin> set f \<Longrightarrow> path_elems f = [f]"
  by (induction f) auto

lemma path_elems_append_slash: "path_elems (a @ CHR ''/'' # b) = path_elems a @ path_elems b"
  by (induction a) (auto split: list.split)

lemma path_elems_no_slash: "e \<in> set (path_elems s) \<Longrightarrow> CHR ''/'' \<notin> set e"
  by (induction s arbitrary: e) (auto split: list.splits if_splits)

lemma clean_elems_snoc:
  "plain_name f \<Longrightarrow> clean_elems r kept (es @ [f]) = clean_elems r kept es @ [f]"
  by (induction r kept es rule: clean_elems.induct) (auto simp: plain_name_def split: list.split)

lemma clean_elems_no_slash:
  "(\<And>e. e \<in> set kept \<union> set es \<Longrightarrow> CHR ''/'' \<notin> set e) \<Longrightarrow> e \<in> set (clean_elems r kept es) \<Longrightarrow> CHR ''/'' \<notin> set e"
  by (induction r kept es rule: clean_elems.induct) (auto split: list.splits if_splits)

lemma join_snoc: "xs \<noteq> [] \<Longrightarrow> join sep (xs @ [y]) = join sep xs @ sep @ y"
  by (induction sep xs rule: join.induct) auto

text \<open>Joining a directory with an ordinary name: the cleaned directory, a slash where it needs one, the name.\<close>

lemma path_Join_plain:
  assumes "plain_name f"
  shows "\<exists>dir. path_Join d f = dir @ f \<and> (dir = [] \<or> last dir = CHR ''/'')
    \<and> (\<forall>g. plain_name g \<longrightarrow> path_Join d g = dir @ g)"
proof -
  let ?es = "clean_elems (is_rooted d) [] (path_elems d)"
  let ?dir = "if d = [] then [] else (if is_rooted d then ''/'' else []) @ (if ?es = [] then [] else join ''/'' ?es @ ''/'')"
  have "path_Join d g = ?dir @ g" if g: "plain_name g" for g
  proof (cases "d = []")
    case True
    with g show ?thesis
      by (cases g) (auto simp: path_Join_def path_Clean_def path_elems_plain is_rooted_def plain_name_def)
  next
    case False
    have "g \<noteq> []" and j: "join ''/'' (?es @ [g]) = (if ?es = [] then [] else join ''/'' ?es @ ''/'') @ g"
      using g join_snoc [of ?es "''/''" g] by (auto simp: plain_name_def)
    moreover have "is_rooted (d @ ''/'' @ g) = is_rooted d" using False by (simp add: is_rooted_def)
    moreover have "path_elems (d @ ''/'' @ g) = path_elems d @ [g]"
      using g by (simp add: path_elems_append_slash path_elems_plain plain_name_def)
    ultimately show ?thesis
      using False clean_elems_snoc [OF g, of "is_rooted d" "[]" "path_elems d"]
      by (simp add: path_Join_def path_Clean_def)
  qed
  moreover have "?dir = [] \<or> last ?dir = CHR ''/''" by auto
  ultimately show ?thesis using assms by blast
qed

section \<open>strconv.Atoi\<close>

definition is_digit :: "char \<Rightarrow> bool" where
  "is_digit c \<longleftrightarrow> 48 \<le> byte c \<and> byte c \<le> 57"

text \<open>The result on a 64-bit platform; the error text names the function and quotes the input.\<close>

definition Atoi :: "(nat \<Rightarrow> bool) \<Rightarrow> string \<Rightarrow> string + int" where
  "Atoi uni s =
    (let neg = (s \<noteq> [] \<and> hd s = CHR ''-'');
         ds = (if s \<noteq> [] \<and> (hd s = CHR ''-'' \<or> hd s = CHR ''+'') then tl s else s);
         i = (if neg then - int (digits_value ds) else int (digits_value ds))
     in if ds = [] \<or> \<not> list_all is_digit ds then
          Inl (''strconv.Atoi: parsing '' @ quote uni s @ '': invalid syntax'')
        else if i < - (2 ^ 63) \<or> 2 ^ 63 \<le> i then
          Inl (''strconv.Atoi: parsing '' @ quote uni s @ '': value out of range'')
        else Inr i)"

lemma nat_str_all_digits: "list_all is_digit (nat_str n)"
  using nat_str_digits by (auto simp: list_all_iff is_digit_def)

lemma nat_str_hd_digit: "is_digit (hd (nat_str n))"
  using nat_str_all_digits [of n] by (cases "nat_str n") auto

text \<open>Reading back what \<open>strconv.Itoa\<close> wrote.\<close>

lemma Atoi_itoa: "- (2 ^ 63) \<le> i \<Longrightarrow> i < 2 ^ 63 \<Longrightarrow> Atoi uni (itoa i) = Inr i"
proof -
  have plus: "hd (nat_str n) \<noteq> CHR ''+''" for n
    using nat_str_hd_digit [of n] by (auto simp: is_digit_def byte_def)
  assume "- (2 ^ 63) \<le> i" "i < 2 ^ 63"
  then show ?thesis
    by (cases "i < 0") (simp_all add: Atoi_def itoa_def Let_def nat_str_hd plus nat_str_all_digits)
qed

end
