(* ===== verification/Daemon.thy ===== *)
theory Daemon
  imports Go_Path Prelude
begin

text \<open>
  \<open>internal/daemon\<close>, \<open>internal/ipc/socket_path.go\<close> and the process management of
  \<open>cmd/dbwatch/main.go\<close>: the files of a daemon, and how it is started, stopped and looked at.
  The file system is a map from paths to files; what the operating system refuses besides (a
  missing permission, a full disk) is the argument \<open>fault\<close>, by operation and path. What a
  process does while it is waited for is an argument as well: its state at each probe.
\<close>

section \<open>Files\<close>

datatype file_node = Regular string | Socket | Directory

datatype os_error = NotExist string | OsError string

fun os_text :: "os_error \<Rightarrow> string" where
  "os_text (NotExist e) = e"
| "os_text (OsError e) = e"

type_synonym files = "string \<Rightarrow> file_node option"
type_synonym faults = "string \<Rightarrow> string \<Rightarrow> string option"

definition no_file :: "string \<Rightarrow> string \<Rightarrow> os_error" where
  "no_file op path = NotExist (op @ '' '' @ path @ '': no such file or directory'')"

text \<open>Opening a file to write to it, which creates it.\<close>

definition open_refused :: "faults \<Rightarrow> string \<Rightarrow> files \<Rightarrow> os_error option" where
  "open_refused fault path fs =
    (case fault ''open'' path of
       Some e \<Rightarrow> Some (OsError e)
     | None \<Rightarrow> (case fs path of
         Some Socket \<Rightarrow> Some (OsError (''open '' @ path @ '': no such device or address''))
       | Some Directory \<Rightarrow> Some (OsError (''open '' @ path @ '': is a directory''))
       | _ \<Rightarrow> None))"

text \<open>
  \<open>os.WriteFile\<close> empties the file, writes and closes it: a refused write leaves it empty (a
  write that breaks off in the middle is not modelled), a failing close leaves what was written.
\<close>

definition os_WriteFile :: "faults \<Rightarrow> string \<Rightarrow> string \<Rightarrow> files \<Rightarrow> os_error option \<times> files" where
  "os_WriteFile fault path b fs =
    (case open_refused fault path fs of
       Some e \<Rightarrow> (Some e, fs)
     | None \<Rightarrow> (case fault ''write'' path of
         Some e \<Rightarrow> (Some (OsError e), fs(path \<mapsto> Regular []))
       | None \<Rightarrow> (map_option OsError (fault ''close'' path), fs(path \<mapsto> Regular b))))"

definition os_ReadFile :: "faults \<Rightarrow> string \<Rightarrow> files \<Rightarrow> os_error + string" where
  "os_ReadFile fault path fs =
    (case fault ''open'' path of
       Some e \<Rightarrow> Inl (OsError e)
     | None \<Rightarrow> (case fs path of
         Some (Regular b) \<Rightarrow> Inr b
       | Some Socket \<Rightarrow> Inl (OsError (''open '' @ path @ '': no such device or address''))
       | Some Directory \<Rightarrow> Inl (OsError (''read '' @ path @ '': is a directory''))
       | None \<Rightarrow> Inl (no_file ''open'' path)))"

definition os_Remove :: "faults \<Rightarrow> string \<Rightarrow> files \<Rightarrow> os_error + files" where
  "os_Remove fault path fs =
    (case fault ''remove'' path of
       Some e \<Rightarrow> Inl (OsError e)
     | None \<Rightarrow> if fs path = None then Inl (no_file ''remove'' path) else Inr (fs(path := None)))"

definition os_Stat :: "faults \<Rightarrow> string \<Rightarrow> files \<Rightarrow> os_error + file_node" where
  "os_Stat fault path fs =
    (case fault ''stat'' path of
       Some e \<Rightarrow> Inl (OsError e)
     | None \<Rightarrow> (case fs path of None \<Rightarrow> Inl (no_file ''stat'' path) | Some n \<Rightarrow> Inr n))"

definition os_Truncate :: "faults \<Rightarrow> string \<Rightarrow> files \<Rightarrow> os_error + files" where
  "os_Truncate fault path fs =
    (case fault ''truncate'' path of
       Some e \<Rightarrow> Inl (OsError e)
     | None \<Rightarrow> (case fs path of
         Some (Regular b) \<Rightarrow> Inr (fs(path \<mapsto> Regular []))
       | Some n \<Rightarrow> Inl (OsError (''truncate '' @ path @ '': invalid argument''))
       | None \<Rightarrow> Inl (no_file ''truncate'' path)))"

section \<open>PID and log files (internal/daemon/lifecycle.go, status.go)\<close>

definition WritePIDFile :: "faults \<Rightarrow> string \<Rightarrow> int \<Rightarrow> files \<Rightarrow> os_error option \<times> files" where
  "WritePIDFile fault path pid fs = os_WriteFile fault path (itoa pid @ nl) fs"

definition ReadPIDFile :: "(nat \<Rightarrow> bool) \<Rightarrow> faults \<Rightarrow> string \<Rightarrow> files \<Rightarrow> os_error + int" where
  "ReadPIDFile uni fault path fs =
    and_then (os_ReadFile fault path fs) (\<lambda>b.
      case Atoi uni (trim_space b) of
        Inl e \<Rightarrow> Inl (OsError (''invalid pid file '' @ quote uni path @ '': '' @ e))
      | Inr pid \<Rightarrow> Inr pid)"

definition TruncateIfLarge :: "faults \<Rightarrow> string \<Rightarrow> int \<Rightarrow> files \<Rightarrow> os_error + files" where
  "TruncateIfLarge fault path maxBytes fs =
    (case os_Stat fault path fs of
       Inl (NotExist e) \<Rightarrow> Inr fs
     | Inl e \<Rightarrow> Inl e
     | Inr n \<Rightarrow>
         if int (case n of Regular b \<Rightarrow> length b | _ \<Rightarrow> 0) \<le> maxBytes then Inr fs
         else os_Truncate fault path fs)"

definition RemoveFileIfExists :: "(nat \<Rightarrow> bool) \<Rightarrow> faults \<Rightarrow> string \<Rightarrow> files \<Rightarrow> string option \<times> files" where
  "RemoveFileIfExists uni fault path fs =
    (case os_Remove fault path fs of
       Inr fs' \<Rightarrow> (None, fs')
     | Inl (NotExist e) \<Rightarrow> (None, fs)
     | Inl (OsError e) \<Rightarrow> (Some (''remove '' @ quote uni path @ '': '' @ e), fs))"

section \<open>Processes (internal/daemon/lifecycle_unix.go)\<close>

text \<open>A process that does not exist, one that may be signalled, and one of another user.\<close>

datatype proc_status = Gone | Mine | Foreign

datatype errno = ESRCH | EPERM

fun errno_text :: "errno \<Rightarrow> string" where
  "errno_text ESRCH = ''no such process''"
| "errno_text EPERM = ''operation not permitted''"

text \<open>The result of \<open>syscall.Kill\<close>, with any signal.\<close>

fun syscall_Kill :: "proc_status \<Rightarrow> errno option" where
  "syscall_Kill Gone = Some ESRCH"
| "syscall_Kill Mine = None"
| "syscall_Kill Foreign = Some EPERM"

definition IsProcessRunning :: "int \<Rightarrow> proc_status \<Rightarrow> bool" where
  "IsProcessRunning pid st =
    (if pid \<le> 0 then False else syscall_Kill st = None \<or> syscall_Kill st = Some EPERM)"

text \<open>The stubs of the Windows build; there a PID file counts as stale.\<close>

datatype platform = Posix | Windows

definition ErrUnsupportedPlatform :: string where
  "ErrUnsupportedPlatform = ''daemon process management is not supported on Windows; use 'dbwatch tail' instead''"

definition Windows_IsProcessRunning :: "int \<Rightarrow> bool" where
  "Windows_IsProcessRunning pid = False"

definition Windows_StopProcess :: "int \<Rightarrow> int \<Rightarrow> string option" where
  "Windows_StopProcess pid timeout = Some ErrUnsupportedPlatform"

lemma Windows_as_gone: "Windows_IsProcessRunning pid \<longleftrightarrow> IsProcessRunning pid Gone"
  by (simp add: Windows_IsProcessRunning_def IsProcessRunning_def)

text \<open>
  The loop \<open>for time.Now().Before(deadline)\<close> that polls and sleeps: \<open>now i\<close> is the clock at the
  \<open>i\<close>-th turn, \<open>check i\<close> what the poll finds then. Nothing bounds the number of turns but the
  clock.
\<close>

partial_function (option) poll_until :: "(nat \<Rightarrow> int) \<Rightarrow> (nat \<Rightarrow> bool) \<Rightarrow> int \<Rightarrow> nat \<Rightarrow> bool option" where
  "poll_until now check deadline i =
    (if now i < deadline then
       if check i then Some True else poll_until now check deadline (Suc i)
     else Some False)"

datatype signal = SIGTERM | SIGKILL

text \<open>What \<open>StopProcess\<close> meets: the process at the first look, at the signals and at each poll, and
  the clock when the deadline is set and at each poll.\<close>

record proc_run =
  pr_first :: proc_status
  pr_start :: int
  pr_term :: proc_status
  pr_poll :: "nat \<Rightarrow> proc_status"
  pr_kill :: proc_status
  pr_clock :: "nat \<Rightarrow> int"

definition send_signal :: "signal \<Rightarrow> string \<Rightarrow> proc_status \<Rightarrow> string option" where
  "send_signal sig name st =
    (case syscall_Kill st of
       None \<Rightarrow> None
     | Some err \<Rightarrow> if err = ESRCH then None else Some (''send '' @ name @ '': '' @ errno_text err))"

text \<open>The error, if any, and the signals that were sent; \<open>None\<close> if it does not return.\<close>

definition StopProcess :: "int \<Rightarrow> int \<Rightarrow> proc_run \<Rightarrow> (string option \<times> signal list) option" where
  "StopProcess pid timeout r =
    (if pid \<le> 0 then Some (Some ''invalid pid'', [])
     else if \<not> IsProcessRunning pid (pr_first r) then Some (None, [])
     else (case send_signal SIGTERM ''SIGTERM'' (pr_term r) of
         Some e \<Rightarrow> Some (Some e, [SIGTERM])
       | None \<Rightarrow>
           (case poll_until (pr_clock r) (\<lambda>i. \<not> IsProcessRunning pid (pr_poll r i)) (pr_start r + timeout) 0 of
              None \<Rightarrow> None
            | Some True \<Rightarrow> Some (None, [SIGTERM])
            | Some False \<Rightarrow> Some (send_signal SIGKILL ''SIGKILL'' (pr_kill r), [SIGTERM, SIGKILL]))))"

section \<open>Paths (internal/ipc/socket_path.go)\<close>

definition defaultDaemonName :: string where
  "defaultDaemonName = ''default''"

definition normalizeDaemonName :: "string \<Rightarrow> string" where
  "normalizeDaemonName name = (if name = [] then defaultDaemonName else name)"

text \<open>
  \<open>mkdir\<close> is the outcome of \<open>os.MkdirAll\<close>, \<open>home\<close> that of \<open>os.UserHomeDir\<close>. Directories are not
  among the modelled files.
\<close>

record path_env =
  pe_env :: "string \<Rightarrow> string"
  pe_home :: "string + string"
  pe_mkdir :: "string \<Rightarrow> string option"

definition ResolveRuntimeDir :: "path_env \<Rightarrow> string + string" where
  "ResolveRuntimeDir pe =
    (let custom = pe_env pe ''DBWATCH_SOCKET_DIR''; xdg = pe_env pe ''XDG_RUNTIME_DIR'' in
     if custom \<noteq> [] then
       (case pe_mkdir pe custom of Some e \<Rightarrow> Inl (''create socket dir: '' @ e) | None \<Rightarrow> Inr custom)
     else if xdg \<noteq> [] then
       (let dir = path_Join xdg ''dbwatch'' in
        case pe_mkdir pe dir of Some e \<Rightarrow> Inl (''create runtime dir: '' @ e) | None \<Rightarrow> Inr dir)
     else
       (case pe_home pe of
          Inl e \<Rightarrow> Inl (''resolve home directory: '' @ e)
        | Inr home \<Rightarrow>
            (let dir = path_Join home ''.dbwatch'' in
             case pe_mkdir pe dir of Some e \<Rightarrow> Inl (''create fallback runtime dir: '' @ e) | None \<Rightarrow> Inr dir)))"

definition ResolveSocketPath :: "path_env \<Rightarrow> string \<Rightarrow> string + string" where
  "ResolveSocketPath pe name =
    and_then (ResolveRuntimeDir pe) (\<lambda>dir. Inr (path_Join dir (normalizeDaemonName name @ ''.sock'')))"

definition ResolvePIDPath :: "path_env \<Rightarrow> string \<Rightarrow> string + string" where
  "ResolvePIDPath pe name =
    and_then (ResolveRuntimeDir pe) (\<lambda>dir. Inr (path_Join dir (normalizeDaemonName name @ ''.pid'')))"

definition ResolveLogPath :: "path_env \<Rightarrow> string \<Rightarrow> string + string" where
  "ResolveLogPath pe name =
    and_then (ResolveRuntimeDir pe) (\<lambda>dir. Inr (path_Join dir (normalizeDaemonName name @ ''.log'')))"

section \<open>Lemmas\<close>

text \<open>Trimming white space off ASCII text.\<close>

lemma trim_space_word:
  assumes "w \<noteq> []" and "\<And>c. c \<in> set w \<Longrightarrow> byte c < 128 \<and> \<not> is_space (byte c)"
  shows "trim_space (w @ nl) = w"
proof -
  have r: "runes (w @ nl) = map (\<lambda>c. (byte c, [c])) (w @ nl)"
    using assms(2) by (intro runes_ascii_list) (auto simp: nl_def byte_def)
  have d: "dropWhile (\<lambda>p. is_space (fst p)) (map (\<lambda>c. (byte c, [c])) (w @ nl)) = map (\<lambda>c. (byte c, [c])) (w @ nl)"
    using assms by (cases w) simp_all
  have e: "dropWhile (\<lambda>p. is_space (fst p)) (map (\<lambda>c. (byte c, [c])) (rev w)) = map (\<lambda>c. (byte c, [c])) (rev w)"
    using assms by (cases w rule: rev_cases) simp_all
  have "strip (\<lambda>p. is_space (fst p)) (map (\<lambda>c. (byte c, [c])) (w @ nl)) = map (\<lambda>c. (byte c, [c])) w"
    unfolding strip_def d using e by (simp add: nl_def is_space_def byte_def rev_map)
  then show ?thesis by (simp add: trim_space_def r comp_def)
qed

lemma itoa_chars: "c \<in> set (itoa i) \<Longrightarrow> byte c < 128 \<and> \<not> is_space (byte c)"
  using nat_str_digits by (fastforce simp: itoa_def is_space_def byte_def split: if_splits)

lemma trim_space_itoa: "trim_space (itoa i @ nl) = itoa i"
  by (rule trim_space_word) (use itoa_chars in \<open>auto simp: itoa_def\<close>)

text \<open>The polling loop: it returns as soon as the check succeeds, and at the latest when the clock is past the deadline.\<close>

lemma poll_until_returns:
  "\<exists>i \<ge> k. deadline \<le> now i \<or> check i \<Longrightarrow> \<exists>b. poll_until now check deadline k = Some b"
proof -
  assume "\<exists>i \<ge> k. deadline \<le> now i \<or> check i"
  then obtain n where "deadline \<le> now (k + n) \<or> check (k + n)" using le_Suc_ex by blast
  then show ?thesis
  proof (induction n arbitrary: k)
    case 0
    then show ?case by (subst poll_until.simps) auto
  next
    case (Suc n)
    then have "deadline \<le> now (Suc k + n) \<or> check (Suc k + n)" by simp
    from Suc.IH [OF this] show ?case by (subst poll_until.simps) auto
  qed
qed

lemma poll_until_result:
  assumes "poll_until now check deadline k = Some b"
  shows "if b then \<exists>i \<ge> k. check i \<and> now i < deadline else \<exists>i \<ge> k. deadline \<le> now i \<and> (\<forall>j \<in> {k..<i}. \<not> check j)"
proof (rule poll_until.raw_induct [OF _ assms, where P = "\<lambda>now check deadline k b.
    if b then \<exists>i \<ge> k. check i \<and> now i < deadline else \<exists>i \<ge> k. deadline \<le> now i \<and> (\<forall>j \<in> {k..<i}. \<not> check j)"])
  fix f and now' :: "nat \<Rightarrow> int" and check' :: "nat \<Rightarrow> bool" and deadline' :: int and k' :: nat and b'
  assume IH: "\<And>now check deadline k b. f now check deadline k = Some b \<Longrightarrow>
      if b then \<exists>i \<ge> k. check i \<and> now i < deadline else \<exists>i \<ge> k. deadline \<le> now i \<and> (\<forall>j \<in> {k..<i}. \<not> check j)"
    and step: "(if now' k' < deadline' then if check' k' then Some True else f now' check' deadline' (Suc k')
      else Some False) = Some b'"
  show "if b' then \<exists>i \<ge> k'. check' i \<and> now' i < deadline' else \<exists>i \<ge> k'. deadline' \<le> now' i \<and> (\<forall>j \<in> {k'..<i}. \<not> check' j)"
  proof (cases "now' k' < deadline' \<and> \<not> check' k'")
    case False
    with step show ?thesis by (auto split: if_splits)
  next
    case True
    with step have "f now' check' deadline' (Suc k') = Some b'" by simp
    from IH [OF this] show ?thesis
    proof (cases b')
      case True
      with IH [OF \<open>f now' check' deadline' (Suc k') = Some b'\<close>] show ?thesis by (auto dest: Suc_leD)
    next
      case b: False
      with IH [OF \<open>f now' check' deadline' (Suc k') = Some b'\<close>] obtain i where
        i: "Suc k' \<le> i" "deadline' \<le> now' i" "\<forall>j \<in> {Suc k'..<i}. \<not> check' j" by auto
      then have "\<forall>j \<in> {k'..<i}. \<not> check' j"
        using True by (metis Suc_leI atLeastLessThan_iff le_neq_implies_less)
      with i b show ?thesis by (auto intro: exI [of _ i])
    qed
  qed
qed

text \<open>A clock that advances by the length of the sleep reaches every deadline.\<close>

lemma clock_reaches:
  assumes "\<And>i. now i + 100000000 \<le> now (Suc i)"
  shows "\<exists>i. (d :: int) \<le> now i"
proof -
  have "now 0 + int i * 100000000 \<le> now i" for i
  proof (induction i)
    case (Suc i)
    with assms [of i] show ?case by (simp add: algebra_simps)
  qed simp
  from this [of "nat (d - now 0)"] show ?thesis
    by (intro exI [of _ "nat (d - now 0)"]) (cases "d \<le> now 0"; simp)
qed

text \<open>Under a clock that does not go back, the loop looks for a success before the deadline.\<close>

lemma poll_until_value:
  assumes "deadline \<le> now n" and mono: "\<And>i. now i \<le> now (Suc i)"
  shows "poll_until now check deadline 0 = Some (\<exists>i. now i < deadline \<and> check i)"
proof -
  obtain b where b: "poll_until now check deadline 0 = Some b"
    using poll_until_returns [of 0 deadline now check] assms(1) by blast
  have "\<not> (now i < deadline \<and> check i)" if "deadline \<le> now k" "\<forall>j \<in> {0..<k}. \<not> check j" for i k
  proof (cases "i < k")
    case False
    then have "now k \<le> now i" using lift_Suc_mono_le [of now, OF mono] by simp
    with that(1) show ?thesis by simp
  qed (use that(2) in simp)
  with poll_until_result [OF b] b show ?thesis by (cases b) auto
qed

section \<open>Properties\<close>

text \<open>
  The PID file: what \<open>WritePIDFile\<close> writes, \<open>ReadPIDFile\<close> reads back, whatever the number
  and whatever file stood at the path before.
\<close>

theorem pid_file_roundtrip:
  assumes "fault ''open'' path = None" and "fault ''write'' path = None" and "fault ''close'' path = None" and "fs path \<noteq> Some Socket" and "fs path \<noteq> Some Directory"
    and "- (2 ^ 63) \<le> pid" and "pid < 2 ^ 63"
  shows "\<exists>fs'. WritePIDFile fault path pid fs = (None, fs') \<and> ReadPIDFile uni fault path fs' = Inr pid"
proof -
  have "WritePIDFile fault path pid fs = (None, fs(path \<mapsto> Regular (itoa pid @ nl)))"
    using assms(1-5) by (auto simp: WritePIDFile_def os_WriteFile_def open_refused_def split: option.split file_node.split)
  moreover have "ReadPIDFile uni fault path (fs(path \<mapsto> Regular (itoa pid @ nl))) = Inr pid"
    using assms(1,6,7) by (simp add: ReadPIDFile_def os_ReadFile_def trim_space_itoa Atoi_itoa)
  ultimately show ?thesis by blast
qed

theorem pid_file_roundtrip_witness:
  "\<exists>fs'. WritePIDFile (\<lambda>_ _. None) ''/run/a.pid'' 4711 Map.empty = (None, fs')
    \<and> ReadPIDFile (\<lambda>_. True) (\<lambda>_ _. None) ''/run/a.pid'' fs' = Inr 4711"
  using pid_file_roundtrip [of "\<lambda>_ _. None" "''/run/a.pid''" Map.empty 4711 "\<lambda>_. True"] by simp

text \<open>\<open>StopProcess\<close> under such a clock.\<close>

lemma StopProcess_value:
  assumes "\<And>i. pr_clock r i + 100000000 \<le> pr_clock r (Suc i)"
  shows "StopProcess pid timeout r =
    Some (if pid \<le> 0 then (Some ''invalid pid'', [])
          else if pr_first r = Gone then (None, [])
          else if pr_term r = Foreign then (Some ''send SIGTERM: operation not permitted'', [SIGTERM])
          else if \<exists>i. pr_clock r i < pr_start r + timeout \<and> pr_poll r i = Gone then (None, [SIGTERM])
          else if pr_kill r = Foreign then (Some ''send SIGKILL: operation not permitted'', [SIGTERM, SIGKILL])
          else (None, [SIGTERM, SIGKILL]))"
proof -
  have run: "IsProcessRunning pid st \<longleftrightarrow> st \<noteq> Gone" if "0 < pid" for st
    using that by (cases st) (simp_all add: IsProcessRunning_def)
  have sig: "send_signal sg nm st = (if st = Foreign then Some (''send '' @ nm @ '': operation not permitted'') else None)" for sg nm st
    by (cases st) (simp_all add: send_signal_def)
  obtain n where n: "pr_start r + timeout \<le> pr_clock r n" using clock_reaches [of "pr_clock r"] assms by blast
  have mono: "pr_clock r i \<le> pr_clock r (Suc i)" for i using assms [of i] by simp
  define gone where "gone = (\<exists>i. pr_clock r i < pr_start r + timeout \<and> pr_poll r i = Gone)"
  have poll: "poll_until (pr_clock r) (\<lambda>i. pr_poll r i = Gone) (pr_start r + timeout) 0 = Some gone"
    unfolding gone_def by (rule poll_until_value [OF n mono])
  show ?thesis unfolding gone_def [symmetric]
  proof (cases "pid \<le> 0")
    case False
    then show "StopProcess pid timeout r = Some (if pid \<le> 0 then (Some ''invalid pid'', [])
        else if pr_first r = Gone then (None, [])
        else if pr_term r = Foreign then (Some ''send SIGTERM: operation not permitted'', [SIGTERM])
        else if gone then (None, [SIGTERM])
        else if pr_kill r = Foreign then (Some ''send SIGKILL: operation not permitted'', [SIGTERM, SIGKILL])
        else (None, [SIGTERM, SIGKILL]))"
      by (cases gone) (simp_all add: StopProcess_def poll run sig)
  qed (simp add: StopProcess_def)
qed

text \<open>
  C22. Stopping a process, under a clock that advances by the length of the sleep:
  \<open>StopProcess\<close> returns whatever the process does. A process id that is not positive is an error, and a
  process that is gone at the first look a success, both without a signal. Otherwise it sends SIGTERM, whose
  refusal (another user's process) is the error. If the process is found gone at a poll
  before the deadline, it succeeds without killing; if not, it sends SIGKILL, and only the
  refusal of that is an error: it does not look again.
\<close>

theorem StopProcess_returns:
  assumes "\<And>i. pr_clock r i + 100000000 \<le> pr_clock r (Suc i)"
  shows "StopProcess pid timeout r =
    Some (if pid \<le> 0 then (Some ''invalid pid'', [])
          else if pr_first r = Gone then (None, [])
          else if pr_term r = Foreign then (Some ''send SIGTERM: operation not permitted'', [SIGTERM])
          else if \<exists>i. pr_clock r i < pr_start r + timeout \<and> pr_poll r i = Gone then (None, [SIGTERM])
          else if pr_kill r = Foreign then (Some ''send SIGKILL: operation not permitted'', [SIGTERM, SIGKILL])
          else (None, [SIGTERM, SIGKILL]))"
  by (rule StopProcess_value) (rule assms)

text \<open>A process that is gone at the fourth poll.\<close>

definition demo_run :: proc_run where
  "demo_run = \<lparr>pr_first = Mine, pr_start = 0, pr_term = Mine, pr_poll = (\<lambda>i. if i < 3 then Mine else Gone), pr_kill = Mine,
     pr_clock = (\<lambda>i. int i * 100000000)\<rparr>"

theorem StopProcess_returns_witness:
  "StopProcess 17 5000000000 demo_run = Some (None, [SIGTERM]) \<and> StopProcess 17 300000000 demo_run = Some (None, [SIGTERM, SIGKILL])"
proof -
  have "\<exists>i. pr_clock demo_run i < pr_start demo_run + 5000000000 \<and> pr_poll demo_run i = Gone"
    by (rule exI [of _ 3]) (simp add: demo_run_def)
  moreover have "\<not> (\<exists>i. pr_clock demo_run i < pr_start demo_run + 300000000 \<and> pr_poll demo_run i = Gone)"
    by (auto simp: demo_run_def)
  ultimately show ?thesis
    using StopProcess_returns [of demo_run 17 5000000000] StopProcess_returns [of demo_run 17 300000000]
    by (simp add: demo_run_def)
qed

text \<open>
  Daemons do not share files: in one environment, the socket, PID and log paths of two
  daemons with different ordinary names are all different.
\<close>

theorem daemon_paths_distinct:
  assumes "ResolveRuntimeDir pe = Inr dir" and "CHR ''/'' \<notin> set n" and "CHR ''/'' \<notin> set m"
    and "normalizeDaemonName n \<noteq> normalizeDaemonName m"
  shows "\<exists>sn pn ln sm pm lm. ResolveSocketPath pe n = Inr sn \<and> ResolvePIDPath pe n = Inr pn \<and> ResolveLogPath pe n = Inr ln
    \<and> ResolveSocketPath pe m = Inr sm \<and> ResolvePIDPath pe m = Inr pm \<and> ResolveLogPath pe m = Inr lm
    \<and> distinct [sn, pn, ln, sm, pm, lm]"
proof -
  let ?n = "normalizeDaemonName n" and ?m = "normalizeDaemonName m"
  have slash: "CHR ''/'' \<notin> set ?n" "CHR ''/'' \<notin> set ?m"
    using assms(2,3) by (simp_all add: normalizeDaemonName_def defaultDaemonName_def)
  have plain: "plain_name (x @ suf)" if "x \<in> {?n, ?m}" "suf \<in> {''.sock'', ''.pid'', ''.log''}" for x suf
    using that slash by (auto simp: plain_name_def append_eq_Cons_conv)
  obtain pre where pre: "\<And>g. plain_name g \<Longrightarrow> path_Join dir g = pre @ g"
    using path_Join_plain [OF plain [of ?n "''.sock''"]] by auto
  have d: "distinct [?n @ ''.sock'', ?n @ ''.pid'', ?n @ ''.log'', ?m @ ''.sock'', ?m @ ''.pid'', ?m @ ''.log'']"
  proof -
    have "x @ ''.sock'' \<noteq> y @ ''.pid''" "x @ ''.sock'' \<noteq> y @ ''.log''" "x @ ''.pid'' \<noteq> y @ ''.log''" for x y :: string
      by (auto dest!: arg_cong [of _ _ last])
    with assms(4) show ?thesis by auto
  qed
  have "distinct (map (path_Join dir) [?n @ ''.sock'', ?n @ ''.pid'', ?n @ ''.log'', ?m @ ''.sock'', ?m @ ''.pid'', ?m @ ''.log''])"
    using d plain pre by simp
  with assms(1) show ?thesis
    by (simp add: ResolveSocketPath_def ResolvePIDPath_def ResolveLogPath_def)
qed

theorem daemon_paths_distinct_witness:
  "\<exists>p q. ResolvePIDPath \<lparr>pe_env = (\<lambda>_. []), pe_home = Inr ''/home/u'', pe_mkdir = (\<lambda>_. None)\<rparr> [] = Inr p
    \<and> ResolvePIDPath \<lparr>pe_env = (\<lambda>_. []), pe_home = Inr ''/home/u'', pe_mkdir = (\<lambda>_. None)\<rparr> ''b'' = Inr q \<and> p \<noteq> q"
  using daemon_paths_distinct [of "\<lparr>pe_env = (\<lambda>_. []), pe_home = Inr ''/home/u'', pe_mkdir = (\<lambda>_. None)\<rparr>"
      "path_Join ''/home/u'' ''.dbwatch''" "[]" "''b''"]
  by (auto simp: ResolveRuntimeDir_def normalizeDaemonName_def defaultDaemonName_def)

end
