(* ===== verification/Daemon_Cmd.thy ===== *)
theory Daemon_Cmd
  imports Daemon Ipc Config Tail_Modes
begin

text \<open>
  The commands \<open>daemon start\<close>, \<open>stop\<close>, \<open>status\<close>, \<open>list\<close> and \<open>logs\<close> of \<open>cmd/dbwatch/main.go\<close>,
  over the files and processes of theory \<open>Daemon\<close>. A command yields its error, what it prints
  and the files after it; an outer \<open>None\<close> is a command that does not return.
\<close>

type_synonym outcome = "string option \<times> string \<times> files"

section \<open>daemon start\<close>

definition resolveDaemonPaths :: "path_env \<Rightarrow> string \<Rightarrow> string + (string \<times> string \<times> string)" where
  "resolveDaemonPaths pe name =
    and_then (ResolveSocketPath pe name) (\<lambda>socketPath.
    and_then (ResolvePIDPath pe name) (\<lambda>pidPath.
    and_then (ResolveLogPath pe name) (\<lambda>logPath. Inr (socketPath, pidPath, logPath))))"

text \<open>\<open>procs\<close> is the process table at this moment.\<close>

definition prepareDaemonStart :: "(nat \<Rightarrow> bool) \<Rightarrow> faults \<Rightarrow> (int \<Rightarrow> proc_status) \<Rightarrow> string \<Rightarrow> string \<Rightarrow> string
    \<Rightarrow> files \<Rightarrow> string option \<times> files" where
  "prepareDaemonStart uni fault procs pidPath socketPath name fs =
    (let existing = (case ReadPIDFile uni fault pidPath fs of
           Inr pid \<Rightarrow> if IsProcessRunning pid (procs pid) then Some pid else None
         | Inl e \<Rightarrow> None)
     in case existing of
       Some pid \<Rightarrow>
         (Some (''daemon '' @ quote uni name @ '' is already running (pid '' @ itoa pid @ '')''), fs)
     | None \<Rightarrow>
         (let fs1 = snd (RemoveFileIfExists uni fault pidPath fs)
          in if os_Stat fault socketPath fs1 = Inr Socket then
               (case os_Remove fault socketPath fs1 of
                  Inl e \<Rightarrow> (Some (''remove stale socket '' @ quote uni socketPath @ '': '' @ os_text e), fs1)
                | Inr fs2 \<Rightarrow> (None, fs2))
             else (None, fs1)))"

text \<open>
  The operating system's part of a detached start: the working directory (\<open>os.Getwd\<close>) and the
  program's own path, the child process that is started in a directory, and then, at each poll,
  the clock and the files, which the child changes.
\<close>

record child_run =
  cr_platform :: platform
  cr_wd :: "string + string"
  cr_arg0 :: string
  cr_start :: "string \<Rightarrow> string list \<Rightarrow> string + int"
  cr_begin :: int
  cr_clock :: "nat \<Rightarrow> int"
  cr_files :: "nat \<Rightarrow> files"

text \<open>\<open>os.OpenFile\<close> with \<open>O_CREATE\<close> and \<open>O_APPEND\<close> leaves an existing file as it is.\<close>

definition os_OpenAppend :: "faults \<Rightarrow> string \<Rightarrow> files \<Rightarrow> os_error + files" where
  "os_OpenAppend fault path fs =
    (case open_refused fault path fs of
       Some e \<Rightarrow> Inl e
     | None \<Rightarrow> Inr (if fs path = None then fs(path \<mapsto> Regular []) else fs))"

definition currentWorkingDir :: "string + string \<Rightarrow> string \<Rightarrow> string" where
  "currentWorkingDir wd arg0 = (case wd of Inl e \<Rightarrow> path_Dir arg0 | Inr d \<Rightarrow> d)"

text \<open>The process attributes that POSIX sets are the system's business.\<close>

definition applyDetachAttrs :: "platform \<Rightarrow> string option" where
  "applyDetachAttrs pf = (case pf of Posix \<Rightarrow> None | Windows \<Rightarrow> Some ErrUnsupportedPlatform)"

definition startDetachedDaemon :: "faults \<Rightarrow> config \<Rightarrow> string \<Rightarrow> (int \<times> string) option \<Rightarrow> string \<Rightarrow> child_run
    \<Rightarrow> files \<Rightarrow> (string + int) \<times> files" where
  "startDetachedDaemon fault cfg name marker logPath child fs =
    (case os_OpenAppend fault logPath fs of
       Inl e \<Rightarrow> (Inl (''open daemon log file: '' @ os_text e), fs)
     | Inr fs1 \<Rightarrow>
         (case applyDetachAttrs (cr_platform child) of
            Some e \<Rightarrow> (Inl e, fs1)
          | None \<Rightarrow>
              (case cr_start child (currentWorkingDir (cr_wd child) (cr_arg0 child)) (detached_args cfg name marker) of
                 Inl e \<Rightarrow> (Inl (''start detached daemon: '' @ e), fs1)
               | Inr pid \<Rightarrow> (Inr pid, fs1))))"

text \<open>The duration is printed as whole seconds, as the one caller passes four seconds.\<close>

definition waitForDaemonReady :: "faults \<Rightarrow> string \<Rightarrow> string \<Rightarrow> int \<Rightarrow> child_run \<Rightarrow> string option option" where
  "waitForDaemonReady fault pidPath socketPath timeout child =
    (case poll_until (cr_clock child)
            (\<lambda>i. is_ok (os_Stat fault pidPath (cr_files child i)) \<and> is_ok (os_Stat fault socketPath (cr_files child i)))
            (cr_begin child + timeout) 0 of
       None \<Rightarrow> None
     | Some True \<Rightarrow> Some None
     | Some False \<Rightarrow> Some (Some (''daemon did not become ready in '' @ itoa (timeout div 1000000000) @ ''s'')))"

definition started_line :: "(nat \<Rightarrow> bool) \<Rightarrow> string \<Rightarrow> int \<Rightarrow> string \<Rightarrow> string" where
  "started_line uni name pid socketPath =
    ''daemon '' @ quote uni name @ '' started (pid '' @ itoa pid @ '', socket '' @ socketPath @ '')'' @ nl"

definition runDaemonDetached :: "(nat \<Rightarrow> bool) \<Rightarrow> faults \<Rightarrow> config \<Rightarrow> string \<Rightarrow> (int \<times> string) option
    \<Rightarrow> string \<Rightarrow> string \<Rightarrow> string \<Rightarrow> child_run \<Rightarrow> files \<Rightarrow> outcome option" where
  "runDaemonDetached uni fault cfg name marker pidPath socketPath logPath child fs =
    (case TruncateIfLarge fault logPath (10 * 1024 * 1024) fs of
       Inl e \<Rightarrow> Some (Some (''prepare daemon log file: '' @ os_text e), [], fs)
     | Inr fs1 \<Rightarrow>
         (case startDetachedDaemon fault cfg name marker logPath child fs1 of
            (Inl e, fs2) \<Rightarrow> Some (Some e, [], fs2)
          | (Inr pid, fs2) \<Rightarrow>
              (case waitForDaemonReady fault pidPath socketPath 4000000000 child of
                 None \<Rightarrow> None
               | Some (Some e) \<Rightarrow> Some (Some e, [], fs2)
               | Some None \<Rightarrow> Some (None, started_line uni name pid socketPath, fs2))))"

text \<open>
  The daemon itself. Its main loop waits for the end of its parts: what the \<open>select\<close> finds ready,
  one after the other. Only a marker server that ends without error lets the loop go on.
\<close>

datatype daemon_end =
    SignalReceived
  | CoreEnds "string option"
  | IpcEnds "string option"
  | MarkerEnds "string option"

fun foreground_wait :: "daemon_end list \<Rightarrow> string option option" where
  "foreground_wait [] = None"
| "foreground_wait (SignalReceived # es) = Some None"
| "foreground_wait (CoreEnds err # es) = Some (wrapNamedError ''listener'' err)"
| "foreground_wait (IpcEnds err # es) = Some (wrapNamedError ''ipc server'' err)"
| "foreground_wait (MarkerEnds err # es) =
     (if err \<noteq> None then Some (wrapNamedError ''marker api'' err) else foreground_wait es)"

text \<open>\<open>later\<close> is what happens to the files while the daemon runs.\<close>

definition runDaemonForeground :: "(nat \<Rightarrow> bool) \<Rightarrow> faults \<Rightarrow> int \<Rightarrow> string \<Rightarrow> string \<Rightarrow> string \<Rightarrow> bool
    \<Rightarrow> (int \<times> string) option \<Rightarrow> daemon_end list \<Rightarrow> (files \<Rightarrow> files) \<Rightarrow> files \<Rightarrow> outcome option" where
  "runDaemonForeground uni fault ownPid name pidPath socketPath isChild marker ends later fs =
    (case WritePIDFile fault pidPath ownPid fs of
       (Some e, fs1) \<Rightarrow> Some (Some (''write pid file: '' @ os_text e), [], fs1)
     | (None, fs1) \<Rightarrow>
         (let out = (if isChild then []
                     else started_line uni name ownPid socketPath
                       @ (case marker of None \<Rightarrow> []
                          | Some (port, bind) \<Rightarrow> ''marker api listening on '' @ bind @ '':'' @ itoa port @ nl))
          in case foreground_wait ends of
               None \<Rightarrow> None
             | Some err \<Rightarrow> Some (err, out, snd (RemoveFileIfExists uni fault pidPath (later fs1)))))"

text \<open>The statistics a client is shown; \<open>sd_ratio\<close> is a quotient of the two numbers.\<close>

definition daemon_stats :: "config \<Rightarrow> int \<Rightarrow> string \<Rightarrow> store \<Rightarrow> int \<Rightarrow> stats_data" where
  "daemon_stats cfg uptime lastLSN st clients =
    (let s = Stats st in
     \<lparr>sd_uptime = uptime, sd_received = Total s, sd_clients = clients, sd_last_lsn = lastLSN,
      sd_buffered = Buffered s, sd_capacity = BufferSize cfg,
      sd_ratio = (if BufferSize cfg > 0 then (int (Buffered s), BufferSize cfg) else (0, 1))\<rparr>)"

definition runDaemonStart :: "(nat \<Rightarrow> bool) \<Rightarrow> faults \<Rightarrow> (int \<Rightarrow> proc_status) \<Rightarrow> path_env \<Rightarrow> string + config \<Rightarrow> string
    \<Rightarrow> bool \<Rightarrow> bool \<Rightarrow> (int \<times> string) option \<Rightarrow> child_run \<Rightarrow> int \<Rightarrow> daemon_end list \<Rightarrow> (files \<Rightarrow> files) \<Rightarrow> files
    \<Rightarrow> outcome option" where
  "runDaemonStart uni fault procs pe loaded name detach isChild marker child ownPid ends later fs =
    (case loaded of
       Inl e \<Rightarrow> Some (Some e, [], fs)
     | Inr cfg \<Rightarrow>
         (case resolveDaemonPaths pe name of
            Inl e \<Rightarrow> Some (Some e, [], fs)
          | Inr (socketPath, pidPath, logPath) \<Rightarrow>
              (case prepareDaemonStart uni fault procs pidPath socketPath name fs of
                 (Some e, fs1) \<Rightarrow> Some (Some e, [], fs1)
               | (None, fs1) \<Rightarrow>
                   if detach \<and> \<not> isChild then
                     runDaemonDetached uni fault cfg name marker pidPath socketPath logPath child fs1
                   else runDaemonForeground uni fault ownPid name pidPath socketPath isChild marker ends later fs1)))"

section \<open>daemon stop\<close>

definition runDaemonStop :: "(nat \<Rightarrow> bool) \<Rightarrow> faults \<Rightarrow> path_env \<Rightarrow> (int \<Rightarrow> proc_run) \<Rightarrow> string \<Rightarrow> files \<Rightarrow> outcome option" where
  "runDaemonStop uni fault pe runs name fs =
    (case ResolvePIDPath pe name of
       Inl e \<Rightarrow> Some (Some e, [], fs)
     | Inr pidPath \<Rightarrow>
    (case ResolveSocketPath pe name of
       Inl e \<Rightarrow> Some (Some e, [], fs)
     | Inr socketPath \<Rightarrow>
    (case ReadPIDFile uni fault pidPath fs of
       Inl (NotExist e) \<Rightarrow>
         Some (None, ''daemon '' @ quote uni name @ '' is not running'' @ nl,
               snd (RemoveFileIfExists uni fault socketPath fs))
     | Inl (OsError e) \<Rightarrow> Some (Some (''read pid file: '' @ e), [], fs)
     | Inr pid \<Rightarrow>
         (case StopProcess pid 5000000000 (runs pid) of
            None \<Rightarrow> None
          | Some (Some e, _) \<Rightarrow> Some (Some e, [], fs)
          | Some (None, _) \<Rightarrow>
              Some (None, ''daemon '' @ quote uni name @ '' stopped'' @ nl,
                    snd (RemoveFileIfExists uni fault socketPath
                      (snd (RemoveFileIfExists uni fault pidPath fs))))))))"

section \<open>daemon status and list\<close>

definition daemonStatus :: "(nat \<Rightarrow> bool) \<Rightarrow> faults \<Rightarrow> path_env \<Rightarrow> (int \<Rightarrow> proc_status)
    \<Rightarrow> (string \<Rightarrow> string + client) \<Rightarrow> (client \<Rightarrow> string + stats_data) \<Rightarrow> string \<Rightarrow> files \<Rightarrow> string + string" where
  "daemonStatus uni fault pe procs dial request name fs =
    and_then (ResolvePIDPath pe name) (\<lambda>pidPath.
    and_then (ResolveSocketPath pe name) (\<lambda>socketPath.
      case ReadPIDFile uni fault pidPath fs of
        Inl e \<Rightarrow> Inr ''not running''
      | Inr pid \<Rightarrow>
          if \<not> IsProcessRunning pid (procs pid) then Inr ''not running''
          else (case dial socketPath of
            Inl e \<Rightarrow> Inr (''running (pid '' @ itoa pid @ '', socket unreachable)'')
          | Inr c \<Rightarrow>
              (case request c of
                 Inl e \<Rightarrow> Inr (''running (pid '' @ itoa pid @ '', stats unavailable)'')
               | Inr s \<Rightarrow> Inr (''running   '' @ itoa pid @ ''   '' @ formatUptime (sd_uptime s) @ ''   ''
                   @ nat_str (unat (sd_received s)) @ ''   '' @ itoa (sd_clients s))))))"

definition runDaemonStatus :: "(nat \<Rightarrow> bool) \<Rightarrow> faults \<Rightarrow> path_env \<Rightarrow> (int \<Rightarrow> proc_status)
    \<Rightarrow> (string \<Rightarrow> string + client) \<Rightarrow> (client \<Rightarrow> string + stats_data) \<Rightarrow> string \<Rightarrow> files \<Rightarrow> string + string" where
  "runDaemonStatus uni fault pe procs dial request name fs =
    (case daemonStatus uni fault pe procs dial request name fs of Inl e \<Rightarrow> Inl e | Inr status \<Rightarrow> Inr (status @ nl))"

text \<open>\<open>entries\<close> is the outcome of reading the directory.\<close>

definition daemon_names :: "string list \<Rightarrow> string list" where
  "daemon_names entries = map (\<lambda>e. trim_suffix e ''.pid'') [e \<leftarrow> entries. has_suffix e ''.pid'']"

definition list_line :: "(string \<Rightarrow> string + string) \<Rightarrow> string \<Rightarrow> string" where
  "list_line status name =
    (case status name of
       Inl e \<Rightarrow> pad_right 9 name @ '' error     -      -        -        -'' @ nl
     | Inr line \<Rightarrow> pad_right 9 name @ '' '' @ line @ nl)"

definition runDaemonList :: "path_env \<Rightarrow> (string \<Rightarrow> string + string list) \<Rightarrow> (string \<Rightarrow> string + string) \<Rightarrow> string + string" where
  "runDaemonList pe entries status =
    and_then (ResolveRuntimeDir pe) (\<lambda>dir.
      case entries dir of
        Inl e \<Rightarrow> Inl (''read runtime dir: '' @ e)
      | Inr es \<Rightarrow>
          (let names = daemon_names es in
           if names = [] then Inr (''no daemons found'' @ nl)
           else Inr (''NAME      STATUS    PID    UPTIME   EVENTS   CLIENTS'' @ nl
                  @ concat (map (list_line status) names))))"

section \<open>daemon logs\<close>

text \<open>\<open>ReadString('\<bsol>n')\<close>: the line with its newline and the rest, or none when the input ends first.\<close>

fun read_line :: "string \<Rightarrow> (string \<times> string) option" where
  "read_line [] = None"
| "read_line (c # s) =
     (if c = CHR 0x0A then Some ([c], s)
      else (case read_line s of None \<Rightarrow> None | Some (l, rest) \<Rightarrow> Some (c # l, rest)))"

lemma read_line_shorter: "read_line s = Some (l, rest) \<Longrightarrow> s = l @ rest \<and> l \<noteq> []"
  by (induction s arbitrary: l rest) (auto split: if_splits option.splits)

text \<open>
  What the loop of \<open>--follow\<close> prints: each element is what has been appended to the file when the
  reader reaches its end. There \<open>ReadString\<close> hands out the unfinished line with the error, and
  the loop goes on without printing it.
\<close>

function follow_logs :: "string list \<Rightarrow> string" where
  "follow_logs [] = []"
| "follow_logs (chunk # chunks) =
     (case read_line chunk of
        None \<Rightarrow> follow_logs chunks
      | Some (line, rest) \<Rightarrow> line @ follow_logs (rest # chunks))"
  by pat_completeness auto
termination
  by (relation "measure (\<lambda>cs. length cs + length (concat cs))") (auto dest: read_line_shorter)

definition runDaemonLogs :: "path_env \<Rightarrow> faults \<Rightarrow> string \<Rightarrow> bool \<Rightarrow> string list \<Rightarrow> files \<Rightarrow> string + string" where
  "runDaemonLogs pe fault name follow appended fs =
    and_then (ResolveLogPath pe name) (\<lambda>logPath.
      case os_ReadFile fault logPath fs of
        Inl e \<Rightarrow> Inl ((if fault ''open'' logPath = None \<and> fs logPath = Some Directory then ''print daemon log: ''
                       else ''open daemon log: '') @ os_text e)
      | Inr b \<Rightarrow> Inr (b @ (if follow then follow_logs appended else [])))"

section \<open>Lemmas\<close>

abbreviation no_faults :: faults where
  "no_faults \<equiv> \<lambda>_ _. None"

lemma RemoveFileIfExists_ok: "RemoveFileIfExists uni no_faults path fs = (None, fs(path := None))"
  by (simp add: RemoveFileIfExists_def os_Remove_def no_file_def fun_upd_idem)

lemma RemoveFileIfExists_files:
  "snd (RemoveFileIfExists uni fault path fs) = (if fault ''remove'' path = None then fs(path := None) else fs)"
  by (auto simp: RemoveFileIfExists_def os_Remove_def no_file_def fun_upd_idem split: option.split)

lemma WritePIDFile_ok:
  "WritePIDFile fault path pid fs = (None, fs') \<Longrightarrow> fs' = fs(path \<mapsto> Regular (itoa pid @ nl)) \<and> fault ''open'' path = None"
  by (auto simp: WritePIDFile_def os_WriteFile_def open_refused_def split: option.splits file_node.splits)

lemma ReadPIDFile_written:
  "fault ''open'' path = None \<Longrightarrow> fs path = Some (Regular (itoa pid @ nl)) \<Longrightarrow> - (2 ^ 63) \<le> pid \<Longrightarrow> pid < 2 ^ 63
     \<Longrightarrow> ReadPIDFile uni fault path fs = Inr pid"
  by (simp add: ReadPIDFile_def os_ReadFile_def trim_space_itoa Atoi_itoa)

lemma prepare_running:
  "ReadPIDFile uni fault pidPath fs = Inr pid \<Longrightarrow> IsProcessRunning pid (procs pid) \<Longrightarrow>
     prepareDaemonStart uni fault procs pidPath socketPath name fs
       = (Some (''daemon '' @ quote uni name @ '' is already running (pid '' @ itoa pid @ '')''), fs)"
  by (simp add: prepareDaemonStart_def)

lemma prepare_stale:
  assumes "\<And>pid. ReadPIDFile uni no_faults pidPath fs = Inr pid \<Longrightarrow> \<not> IsProcessRunning pid (procs pid)"
    and "pidPath \<noteq> socketPath"
  shows "prepareDaemonStart uni no_faults procs pidPath socketPath name fs
    = (None, fs(pidPath := None, socketPath := if fs socketPath = Some Socket then None else fs socketPath))"
proof -
  have e: "(case ReadPIDFile uni no_faults pidPath fs of
      Inr pid \<Rightarrow> if IsProcessRunning pid (procs pid) then Some pid else None | Inl e \<Rightarrow> None) = None"
    using assms(1) by (auto split: sum.split)
  have s: "os_Stat no_faults socketPath (fs(pidPath := None)) = Inr Socket \<longleftrightarrow> fs socketPath = Some Socket"
    using assms(2) by (simp add: os_Stat_def split: option.split)
  show ?thesis
    unfolding prepareDaemonStart_def Let_def e using s assms(2)
    by (auto simp: RemoveFileIfExists_ok os_Remove_def fun_upd_idem)
qed

text \<open>
  On Windows the check never finds a running daemon: a second start passes and removes the PID file
  of the first. A detached start fails there before a child exists.
\<close>

lemma Windows_start_forgets:
  assumes "\<And>pid. procs pid \<noteq> Gone \<Longrightarrow> Windows_IsProcessRunning pid" and "pidPath \<noteq> socketPath"
  shows "fst (prepareDaemonStart uni no_faults procs pidPath socketPath name fs) = None"
    and "snd (prepareDaemonStart uni no_faults procs pidPath socketPath name fs) pidPath = None"
proof -
  have "procs pid = Gone" for pid using assms(1) [of pid] by (auto simp: Windows_IsProcessRunning_def)
  then have "\<not> IsProcessRunning pid (procs pid)" for pid by (simp flip: Windows_as_gone add: Windows_IsProcessRunning_def)
  from prepare_stale [OF this assms(2)] assms(2)
  show "fst (prepareDaemonStart uni no_faults procs pidPath socketPath name fs) = None"
    "snd (prepareDaemonStart uni no_faults procs pidPath socketPath name fs) pidPath = None" by simp_all
qed

lemma Windows_detached_fails:
  "cr_platform child = Windows \<Longrightarrow> startDetachedDaemon fault cfg name marker logPath child fs = (Inr pid, fs1) \<Longrightarrow> False"
  by (auto simp: startDetachedDaemon_def applyDetachAttrs_def split: sum.splits)

lemma pid_socket_differ:
  assumes "ResolvePIDPath pe name = Inr p" "ResolveSocketPath pe name = Inr s" "CHR ''/'' \<notin> set name"
  shows "p \<noteq> s"
proof -
  let ?n = "normalizeDaemonName name"
  obtain dir where dir: "p = path_Join dir (?n @ ''.pid'')" "s = path_Join dir (?n @ ''.sock'')"
    using assms(1,2) by (auto simp: ResolvePIDPath_def ResolveSocketPath_def and_then_Inr_iff)
  have "CHR ''/'' \<notin> set ?n" using assms(3) by (simp add: normalizeDaemonName_def defaultDaemonName_def)
  then have "plain_name (?n @ ''.pid'')" "plain_name (?n @ ''.sock'')"
    by (auto simp: plain_name_def append_eq_Cons_conv)
  with path_Join_plain [of "?n @ ''.pid''" dir] obtain pre where
    "path_Join dir (?n @ ''.pid'') = pre @ ?n @ ''.pid''" "path_Join dir (?n @ ''.sock'') = pre @ ?n @ ''.sock''"
    by auto
  with dir show ?thesis by (auto dest!: arg_cong [of _ _ last])
qed

section \<open>Properties\<close>

text \<open>
  C20. One daemon per name, on POSIX, over a file system that refuses nothing, for a name without a
  slash and a positive process id below \<open>2 ^ 63\<close>: once a daemon has written its PID file, as long
  as a process has that id (even another user's), every further check of a start under that
  name refuses, names the process and touches no file. When no process has it, the check passes
  without a message: it removes the PID file and, if it is a socket, the socket file of
  that name, and no other file. (\<open>TESTING.md\<close> expects the next start after a SIGKILL to report the
  stale socket. A PID file that cannot be read is not refused either.)
\<close>

theorem one_daemon_per_name:
  assumes "resolveDaemonPaths pe name = Inr (socketPath, pidPath, logPath)" and "CHR ''/'' \<notin> set name"
    and "WritePIDFile no_faults pidPath pid fs = (None, fs1)" and "0 < pid" and "pid < 2 ^ 63"
  shows "prepareDaemonStart uni no_faults procs pidPath socketPath name fs1
    = (if procs pid \<noteq> Gone
       then (Some (''daemon '' @ quote uni name @ '' is already running (pid '' @ itoa pid @ '')''), fs1)
       else (None, fs1(pidPath := None, socketPath := if fs1 socketPath = Some Socket then None else fs1 socketPath)))"
proof -
  have paths: "ResolvePIDPath pe name = Inr pidPath" "ResolveSocketPath pe name = Inr socketPath"
    using assms(1) by (auto simp: resolveDaemonPaths_def and_then_Inr_iff)
  have read: "ReadPIDFile uni no_faults pidPath fs1 = Inr pid"
    using WritePIDFile_ok [OF assms(3)] assms(4,5) by (intro ReadPIDFile_written) auto
  show ?thesis
  proof (cases "procs pid = Gone")
    case True
    then show ?thesis
      using read prepare_stale [of uni pidPath fs1 procs socketPath name] pid_socket_differ [OF paths assms(2)]
      by (simp add: IsProcessRunning_def)
  next
    case False
    then have "IsProcessRunning pid (procs pid)" using assms(4) by (cases "procs pid") (simp_all add: IsProcessRunning_def)
    with prepare_running [OF read, of procs socketPath name] False show ?thesis by simp
  qed
qed

definition demo_paths :: path_env where
  "demo_paths = \<lparr>pe_env = (\<lambda>v. if v = ''DBWATCH_SOCKET_DIR'' then ''/run'' else []), pe_home = Inl [], pe_mkdir = (\<lambda>_. None)\<rparr>"

lemma demo_paths_resolve:
  "resolveDaemonPaths demo_paths ''a'' = Inr (''/run/a.sock'', ''/run/a.pid'', ''/run/a.log'')"
  by (simp add: resolveDaemonPaths_def ResolveSocketPath_def ResolvePIDPath_def ResolveLogPath_def ResolveRuntimeDir_def
      demo_paths_def normalizeDaemonName_def path_Join_def path_Clean_def is_rooted_def)

theorem one_daemon_per_name_witness:
  "\<exists>fs1. WritePIDFile no_faults ''/run/a.pid'' 42 Map.empty = (None, fs1)
    \<and> snd (prepareDaemonStart (\<lambda>_. True) no_faults (\<lambda>_. Mine) ''/run/a.pid'' ''/run/a.sock'' ''a'' fs1) = fs1"
proof -
  obtain fs1 where w: "WritePIDFile no_faults ''/run/a.pid'' 42 Map.empty = (None, fs1)"
    by (simp add: WritePIDFile_def os_WriteFile_def open_refused_def)
  from one_daemon_per_name [OF demo_paths_resolve _ w, of "\<lambda>_. True" "\<lambda>_. Mine"] w show ?thesis by simp
qed

text \<open>
  C23. \<open>daemon stop\<close>, whatever the operating system refuses: if it fails it changes no file; if it
  succeeds, the PID file and the socket of the daemon are gone, each unless its removal was refused
  (the command discards that error), and every other file is as it was. It always returns if the
  clock advances by the length of the sleep.
\<close>

theorem stop_cleans_up:
  assumes "resolveDaemonPaths pe name = Inr (socketPath, pidPath, logPath)"
    and "\<And>pid i. pr_clock (runs pid) i + 100000000 \<le> pr_clock (runs pid) (Suc i)"
  shows "\<exists>err out fs'. runDaemonStop uni fault pe runs name fs = Some (err, out, fs')
    \<and> (if err = None then \<forall>p. fs' p = (if p \<in> {pidPath, socketPath} \<and> fault ''remove'' p = None then None else fs p) else fs' = fs)"
proof -
  have paths: "ResolvePIDPath pe name = Inr pidPath" "ResolveSocketPath pe name = Inr socketPath"
    using assms(1) by (auto simp: resolveDaemonPaths_def and_then_Inr_iff)
  show ?thesis
  proof (cases "ReadPIDFile uni fault pidPath fs")
    case (Inl e)
    have "fs pidPath = None" if "e = NotExist x" for x
      using Inl that by (auto simp: ReadPIDFile_def os_ReadFile_def no_file_def and_then_def
        split: option.splits file_node.splits sum.splits)
    with Inl paths show ?thesis
      by (cases e) (auto simp: runDaemonStop_def RemoveFileIfExists_files)
  next
    case (Inr pid)
    have "\<exists>err sigs. StopProcess pid 5000000000 (runs pid) = Some (err, sigs)"
      using StopProcess_value [of "runs pid" pid 5000000000] assms(2) by (auto split: if_splits)
    then obtain err sigs where "StopProcess pid 5000000000 (runs pid) = Some (err, sigs)" by blast
    with Inr paths show ?thesis
      by (cases err) (auto simp: runDaemonStop_def RemoveFileIfExists_files)
  qed
qed

theorem stop_cleans_up_witness:
  "\<exists>err out fs'. runDaemonStop (\<lambda>_. True) no_faults demo_paths (\<lambda>_. demo_run) ''a''
      [''/run/a.sock'' \<mapsto> Socket, ''/x'' \<mapsto> Directory] = Some (err, out, fs') \<and> fs' ''/x'' = Some Directory"
  using stop_cleans_up [OF demo_paths_resolve, of "\<lambda>_. demo_run" "\<lambda>_. True" no_faults "[''/run/a.sock'' \<mapsto> Socket, ''/x'' \<mapsto> Directory]"]
  by (auto simp: demo_run_def split: if_splits)

text \<open>The complete lines at the front of a piece of text.\<close>

definition complete_lines :: "string \<Rightarrow> string" where
  "complete_lines s = rev (dropWhile (\<lambda>c. c \<noteq> CHR 0x0A) (rev s))"

lemma read_line_None: "read_line s = None \<longleftrightarrow> CHR 0x0A \<notin> set s"
  by (induction s) (auto split: option.splits)

lemma read_line_last: "read_line s = Some (l, rest) \<Longrightarrow> last l = CHR 0x0A"
  by (induction s arbitrary: l rest) (auto split: if_splits option.splits dest: read_line_shorter)

lemma complete_lines_none: "CHR 0x0A \<notin> set s \<Longrightarrow> complete_lines s = []"
  by (auto simp: complete_lines_def dropWhile_eq_Nil_conv)

lemma complete_lines_append: "l \<noteq> [] \<Longrightarrow> last l = CHR 0x0A \<Longrightarrow> complete_lines (l @ rest) = l @ complete_lines rest"
proof -
  let ?P = "\<lambda>c. c \<noteq> CHR 0x0A"
  assume l: "l \<noteq> []" "last l = CHR 0x0A"
  then have keep: "dropWhile ?P (rev l) = rev l" by (simp add: dropWhile_eq_self_iff hd_rev)
  show ?thesis
  proof (cases "CHR 0x0A \<in> set rest")
    case True
    then have "dropWhile ?P (rev rest @ rev l) = dropWhile ?P (rev rest) @ rev l"
      by (intro dropWhile_append1 [of "CHR 0x0A"]) simp_all
    then show ?thesis by (simp add: complete_lines_def)
  next
    case False
    then have "dropWhile ?P (rev rest @ rev l) = dropWhile ?P (rev l)"
      by (intro dropWhile_append2) auto
    with keep have "complete_lines (l @ rest) = l" by (simp add: complete_lines_def)
    with complete_lines_none [OF False] show ?thesis by simp
  qed
qed

lemma complete_lines_id: "complete_lines s = s \<longleftrightarrow> s = [] \<or> last s = CHR 0x0A"
  by (auto simp: complete_lines_def dropWhile_eq_self_iff hd_rev rev_swap)

text \<open>
  C40. \<open>daemon logs --follow\<close> prints, of every piece that has been appended when the reader
  catches up, the complete lines only: the beginning of a line that is still being written is
  lost, and nothing is lost exactly if every piece that is not empty ends with a newline.
\<close>

theorem follow_prints_complete_lines:
  "follow_logs chunks = concat (map complete_lines chunks)
    \<and> (follow_logs chunks = concat chunks \<longleftrightarrow> (\<forall>c. c \<in> set chunks \<and> c \<noteq> [] \<longrightarrow> last c = CHR 0x0A))"
proof -
  have eq: "follow_logs chunks = concat (map complete_lines chunks)"
  proof (induction chunks rule: follow_logs.induct)
    case 1
    then show ?case by simp
  next
    case (2 chunk chunks)
    show ?case
    proof (cases "read_line chunk")
      case None
      then have "complete_lines chunk = []" by (simp add: read_line_None complete_lines_none)
      moreover have "follow_logs (chunk # chunks) = follow_logs chunks" by (simp add: None)
      ultimately show ?thesis using 2(1) [OF None] by simp
    next
      case (Some p)
      obtain l rest where p: "p = (l, rest)" by fastforce
      with Some have "read_line chunk = Some (l, rest)" by simp
      with 2(2) [OF Some p [symmetric]] read_line_shorter [OF this] read_line_last [OF this] show ?thesis
        by (simp add: complete_lines_append)
    qed
  qed
  have short: "length (complete_lines c) \<le> length c" for c
    using length_dropWhile_le [of _ "rev c"] by (simp add: complete_lines_def)
  have "concat (map complete_lines cs) = concat cs \<longleftrightarrow> (\<forall>c \<in> set cs. complete_lines c = c)" for cs
  proof (induction cs)
    case (Cons c cs)
    have le: "length (concat (map complete_lines cs)) \<le> length (concat cs)"
    proof (induction cs)
      case (Cons d ds)
      with short [of d] show ?case by simp
    qed simp
    have "complete_lines c @ concat (map complete_lines cs) = c @ concat cs
        \<longrightarrow> length (complete_lines c) = length c"
      using short [of c] le by (metis add_le_cancel_right le_antisym length_append nat_add_left_cancel_le)
    with Cons show ?case by auto
  qed simp
  with eq show ?thesis by (auto simp: complete_lines_id)
qed

theorem follow_prints_complete_lines_witness:
  "follow_logs [''ab'', ''c'' @ nl] = ''c'' @ nl \<and> follow_logs [''ab'', ''c'' @ nl] \<noteq> concat [''ab'', ''c'' @ nl]"
  using follow_prints_complete_lines [of "[''ab'', ''c'' @ nl]"] by (auto simp: complete_lines_def nl_def)

end
