(* ===== verification/Ddl_Sql.thy ===== *)
theory Ddl_Sql
  imports Go_Strings
begin

text \<open>
  \<open>internal/ddlwatcher/sql.go\<close>: the names installed into the target database and the SQL text
  that installs, drops and prints them.
\<close>

definition notifyChannel :: string where "notifyChannel = ''dbwatch_ddl''"
definition captureFuncName :: string where "captureFuncName = ''dbwatch_ddl_capture''"
definition dropCaptureFuncName :: string where "dropCaptureFuncName = ''dbwatch_ddl_drop_capture''"
definition endTriggerName :: string where "endTriggerName = ''dbwatch_ddl_watcher''"
definition dropTriggerName :: string where "dropTriggerName = ''dbwatch_ddl_drop_watcher''"

lemmas ddl_names = notifyChannel_def captureFuncName_def dropCaptureFuncName_def endTriggerName_def dropTriggerName_def

text \<open>A literal of SQL, and a text of lines with a newline before the first and after the last.\<close>

definition sql_quoted :: "string \<Rightarrow> string" where
  "sql_quoted s = [CHR 0x27] @ s @ [CHR 0x27]"

definition sql_text :: "string list \<Rightarrow> string" where
  "sql_text ls = nl @ concat (map (\<lambda>l. l @ nl) ls)"

definition json_field :: "string \<Rightarrow> string \<Rightarrow> string" where
  "json_field key expr = sql_quoted key @ '', '' @ expr"

definition installSQL :: string where
  "installSQL = sql_text
    [''CREATE OR REPLACE FUNCTION '' @ captureFuncName @ ''()'',
     ''RETURNS event_trigger AS $dbw$'',
     ''DECLARE'',
     ''  obj record;'',
     ''BEGIN'',
     ''  FOR obj IN SELECT * FROM pg_event_trigger_ddl_commands()'',
     ''  LOOP'',
     ''    PERFORM pg_notify('' @ sql_quoted notifyChannel @ '', json_build_object('',
     ''      '' @ json_field ''command_tag'' ''obj.command_tag,'',
     ''      '' @ json_field ''object_type'' ''obj.object_type,'',
     ''      '' @ json_field ''schema'' ''obj.schema_name,'',
     ''      '' @ json_field ''object_identity'' ''obj.object_identity,'',
     ''      '' @ json_field ''in_extension'' ''obj.in_extension,'',
     ''      '' @ json_field ''timestamp'' ''extract(epoch from now())'',
     ''    )::text);'',
     ''  END LOOP;'',
     ''END;'',
     ''$dbw$ LANGUAGE plpgsql;'',
     [],
     ''CREATE OR REPLACE FUNCTION '' @ dropCaptureFuncName @ ''()'',
     ''RETURNS event_trigger AS $dbw$'',
     ''DECLARE'',
     ''  obj record;'',
     ''BEGIN'',
     ''  FOR obj IN SELECT * FROM pg_event_trigger_dropped_objects()'',
     ''  LOOP'',
     ''    IF obj.original THEN'',
     ''      PERFORM pg_notify('' @ sql_quoted notifyChannel @ '', json_build_object('',
     ''        '' @ json_field ''command_tag'' (sql_quoted ''DROP '' @ '' || upper(obj.object_type),''),
     ''        '' @ json_field ''object_type'' ''obj.object_type,'',
     ''        '' @ json_field ''schema'' ''obj.schema_name,'',
     ''        '' @ json_field ''object_identity'' ''obj.object_identity,'',
     ''        '' @ json_field ''in_extension'' ''obj.is_temporary,'',
     ''        '' @ json_field ''timestamp'' ''extract(epoch from now())'',
     ''      )::text);'',
     ''    END IF;'',
     ''  END LOOP;'',
     ''END;'',
     ''$dbw$ LANGUAGE plpgsql;'']"

definition createTriggersSQL :: string where
  "createTriggersSQL = sql_text
    [''CREATE EVENT TRIGGER '' @ endTriggerName,
     ''  ON ddl_command_end'',
     ''  EXECUTE FUNCTION '' @ captureFuncName @ ''();'',
     [],
     ''CREATE EVENT TRIGGER '' @ dropTriggerName,
     ''  ON sql_drop'',
     ''  EXECUTE FUNCTION '' @ dropCaptureFuncName @ ''();'']"

definition dropTriggersSQL :: string where
  "dropTriggersSQL = sql_text
    [''DROP EVENT TRIGGER IF EXISTS '' @ endTriggerName @ '';'',
     ''DROP EVENT TRIGGER IF EXISTS '' @ dropTriggerName @ '';'']"

definition uninstallSQL :: string where
  "uninstallSQL = dropTriggersSQL @ sql_text
    [''DROP FUNCTION IF EXISTS '' @ captureFuncName @ ''();'',
     ''DROP FUNCTION IF EXISTS '' @ dropCaptureFuncName @ ''();'']"

definition PrintSQL :: string where
  "PrintSQL = installSQL @ dropTriggersSQL @ createTriggersSQL"

section \<open>What the scripts ask for\<close>

text \<open>
  The statements of a script, read off the lines that begin one; the body of a function is
  indented or holds none of these beginnings.
\<close>

datatype sql_stmt =
    CreateFunction string
  | CreateTrigger string string string
  | DropTrigger string
  | DropFunction string

definition sql_name :: "string \<Rightarrow> string" where
  "sql_name s = takeWhile (\<lambda>c. c \<noteq> CHR ''('' \<and> c \<noteq> CHR '';'') s"

definition after :: "string \<Rightarrow> string \<Rightarrow> string" where
  "after p l = drop (length p) l"

definition read_statement :: "string \<Rightarrow> string list \<Rightarrow> sql_stmt list" where
  "read_statement l ls =
    (if has_prefix l ''CREATE OR REPLACE FUNCTION '' then [CreateFunction (sql_name (after ''CREATE OR REPLACE FUNCTION '' l))]
     else if has_prefix l ''CREATE EVENT TRIGGER '' then
       (case ls of ev # ex # _ \<Rightarrow> [CreateTrigger (after ''CREATE EVENT TRIGGER '' l) (after ''  ON '' ev)
           (sql_name (after ''  EXECUTE FUNCTION '' ex))] | _ \<Rightarrow> [])
     else if has_prefix l ''DROP EVENT TRIGGER IF EXISTS '' then [DropTrigger (sql_name (after ''DROP EVENT TRIGGER IF EXISTS '' l))]
     else if has_prefix l ''DROP FUNCTION IF EXISTS '' then [DropFunction (sql_name (after ''DROP FUNCTION IF EXISTS '' l))]
     else [])"

fun read_statements :: "string list \<Rightarrow> sql_stmt list" where
  "read_statements [] = []"
| "read_statements (l # ls) = read_statement l ls @ read_statements ls"

definition statements :: "string \<Rightarrow> sql_stmt list" where
  "statements sql = read_statements (split_on (CHR 0x0A) sql)"

lemma script_statements:
  "statements installSQL = [CreateFunction captureFuncName, CreateFunction dropCaptureFuncName]"
  "statements dropTriggersSQL = [DropTrigger endTriggerName, DropTrigger dropTriggerName]"
  "statements createTriggersSQL = [CreateTrigger endTriggerName ''ddl_command_end'' captureFuncName,
     CreateTrigger dropTriggerName ''sql_drop'' dropCaptureFuncName]"
  "statements uninstallSQL = [DropTrigger endTriggerName, DropTrigger dropTriggerName,
     DropFunction captureFuncName, DropFunction dropCaptureFuncName]"
  by code_simp+

text \<open>
  What Postgres documents of these statements, over the functions of a database and its event
  triggers with the event and the function of each: a trigger's name must be new and its
  function exist, and a function that a trigger uses is not dropped. A script runs as one
  transaction.
\<close>

record ddl_db =
  db_funs :: "string list"
  db_trigs :: "(string \<times> string \<times> string) list"

fun run_statement :: "sql_stmt \<Rightarrow> ddl_db \<Rightarrow> ddl_db option" where
  "run_statement (CreateFunction f) d = Some (if f \<in> set (db_funs d) then d else d\<lparr>db_funs := db_funs d @ [f]\<rparr>)"
| "run_statement (CreateTrigger n ev f) d =
     (if n \<in> set (map fst (db_trigs d)) \<or> f \<notin> set (db_funs d) then None
      else Some (d\<lparr>db_trigs := db_trigs d @ [(n, ev, f)]\<rparr>))"
| "run_statement (DropTrigger n) d = Some (d\<lparr>db_trigs := [t \<leftarrow> db_trigs d. fst t \<noteq> n]\<rparr>)"
| "run_statement (DropFunction f) d =
     (if f \<in> set (map (snd \<circ> snd) (db_trigs d)) then None else Some (d\<lparr>db_funs := [g \<leftarrow> db_funs d. g \<noteq> f]\<rparr>))"

fun run_statements :: "sql_stmt list \<Rightarrow> ddl_db \<Rightarrow> ddl_db option" where
  "run_statements [] d = Some d"
| "run_statements (s # ss) d = (case run_statement s d of None \<Rightarrow> None | Some d1 \<Rightarrow> run_statements ss d1)"

section \<open>The scripts differ\<close>

text \<open>The four scripts are told apart by their first bytes or by their length.\<close>

lemma script_starts:
  "take 2 installSQL = nl @ ''C''" "take 2 createTriggersSQL = nl @ ''C''"
  "take 2 dropTriggersSQL = nl @ ''D''" "take 2 uninstallSQL = nl @ ''D''"
  by (simp_all add: installSQL_def createTriggersSQL_def dropTriggersSQL_def uninstallSQL_def sql_text_def nl_def)

lemma scripts_differ: "installSQL \<noteq> createTriggersSQL" "dropTriggersSQL \<noteq> uninstallSQL"
proof -
  have "take 9 installSQL \<noteq> take 9 createTriggersSQL"
    by (simp add: installSQL_def createTriggersSQL_def sql_text_def nl_def)
  then show "installSQL \<noteq> createTriggersSQL" by metis
  show "dropTriggersSQL \<noteq> uninstallSQL" by (simp add: uninstallSQL_def sql_text_def)
qed

lemma scripts_distinct: "distinct [installSQL, dropTriggersSQL, createTriggersSQL, uninstallSQL]"
  using script_starts scripts_differ by (auto dest: arg_cong [of _ _ "take 2"])

end
