(* ===== verification/Go_Url.thy ===== *)
theory Go_Url
  imports Go_Strings
begin

text \<open>
  What the source uses of package net/url: reading and printing the query of a URL. The cutting
  of a URL into its parts and its printing are the argument record \<open>url_lib\<close>; of the parts only
  the raw query matters here, the others are kept as they are in \<open>url_rest\<close>.
\<close>

section \<open>Escaping in a query\<close>

definition is_hex :: "char \<Rightarrow> bool" where
  "is_hex c \<longleftrightarrow> (48 \<le> byte c \<and> byte c \<le> 57) \<or> (65 \<le> byte c \<and> byte c \<le> 70) \<or> (97 \<le> byte c \<and> byte c \<le> 102)"

definition unhex :: "char \<Rightarrow> nat" where
  "unhex c = (if byte c \<le> 57 then byte c - 48 else if byte c \<le> 70 then byte c - 55 else byte c - 87)"

definition upper_hex :: "nat \<Rightarrow> char" where
  "upper_hex d = (if d < 10 then char_of (48 + d) else char_of (55 + d))"

text \<open>Letters, digits and the marks \<open>-_.~\<close> stand for themselves.\<close>

definition unreserved :: "char \<Rightarrow> bool" where
  "unreserved c \<longleftrightarrow> (97 \<le> byte c \<and> byte c \<le> 122) \<or> (65 \<le> byte c \<and> byte c \<le> 90)
     \<or> (48 \<le> byte c \<and> byte c \<le> 57) \<or> c \<in> {CHR ''-'', CHR ''_'', CHR ''.'', CHR ''~''}"

definition escape_char :: "char \<Rightarrow> string" where
  "escape_char c =
    (if unreserved c then [c]
     else if c = CHR '' '' then ''+''
     else [CHR ''%'', upper_hex (byte c div 16), upper_hex (byte c mod 16)])"

definition QueryEscape :: "string \<Rightarrow> string" where
  "QueryEscape s = concat (map escape_char s)"

fun QueryUnescape :: "string \<Rightarrow> string option" where
  "QueryUnescape [] = Some []"
| "QueryUnescape (c # s) =
     (if c = CHR ''%'' then
        (case s of
           a # b # rest \<Rightarrow>
             if is_hex a \<and> is_hex b then map_option (Cons (char_of (unhex a * 16 + unhex b))) (QueryUnescape rest)
             else None
         | _ \<Rightarrow> None)
      else map_option (Cons (if c = CHR ''+'' then CHR '' '' else c)) (QueryUnescape s))"

lemma byte_less [simp]: "byte c < 256"
proof -
  have "of_char c mod 256 = (of_char c :: nat)" by simp
  then have "(of_char c :: nat) < 256" by (metis mod_less_divisor zero_less_numeral)
  then show ?thesis by (simp add: byte_def)
qed

lemma char_of_byte [simp]: "char_of (byte c) = c"
  by (simp add: byte_def)

lemma upper_hex_digit:
  assumes "d < 16"
  shows "is_hex (upper_hex d)" and "unhex (upper_hex d) = d"
  using assms by (auto simp: upper_hex_def is_hex_def unhex_def)

lemma unescape_char: "QueryUnescape (escape_char c @ s) = map_option (Cons c) (QueryUnescape s)"
proof -
  have "byte c div 16 < 16" using byte_less [of c] by linarith
  moreover have "byte c div 16 * 16 + byte c mod 16 = byte c" by simp
  moreover have "c \<noteq> CHR ''%''" "c \<noteq> CHR ''+''" if "unreserved c"
    using that by (auto simp: unreserved_def byte_def)
  ultimately show ?thesis
    by (auto simp: escape_char_def upper_hex_digit simp del: char_of_byte)
      (simp_all add: char_of_byte)
qed

lemma QueryUnescape_QueryEscape [simp]: "QueryUnescape (QueryEscape s) = Some s"
  by (induction s) (simp_all add: QueryEscape_def unescape_char)

text \<open>The characters that separate pairs are always escaped.\<close>

lemma QueryEscape_chars: "c \<in> set (QueryEscape s) \<Longrightarrow> unreserved c \<or> c = CHR ''+'' \<or> c = CHR ''%''"
proof -
  have u: "unreserved (upper_hex d)" if "d < 16" for d
    using that by (auto simp: upper_hex_def unreserved_def)
  have d: "byte x div 16 < 16" for x using byte_less [of x] by linarith
  assume "c \<in> set (QueryEscape s)"
  then obtain x where "c \<in> set (escape_char x)" by (auto simp: QueryEscape_def)
  with u [OF d [of x]] u [of "byte x mod 16"] show ?thesis by (auto simp: escape_char_def split: if_splits)
qed

lemma QueryEscape_separators: "CHR ''&'' \<notin> set (QueryEscape s)" "CHR ''='' \<notin> set (QueryEscape s)" "CHR '';'' \<notin> set (QueryEscape s)"
  by (auto dest!: QueryEscape_chars simp: unreserved_def byte_def)

section \<open>Values\<close>

type_synonym url_values = "(string, string list) go_map"

definition values_get :: "url_values \<Rightarrow> string \<Rightarrow> string list" where
  "values_get m k = (case map_of m k of None \<Rightarrow> [] | Some vs \<Rightarrow> vs)"

definition values_Add :: "url_values \<Rightarrow> string \<times> string \<Rightarrow> url_values" where
  "values_Add m p = AList.update (fst p) (values_get m (fst p) @ [snd p]) m"

definition values_Del :: "string \<Rightarrow> url_values \<Rightarrow> url_values" where
  "values_Del k m = [p \<leftarrow> m. fst p \<noteq> k]"

text \<open>One piece between two \<open>&\<close>; what is empty, contains a semicolon or a bad escape is skipped.\<close>

definition query_pair :: "string \<Rightarrow> (string \<times> string) option" where
  "query_pair piece =
    (if piece = [] \<or> CHR '';'' \<in> set piece then None
     else (case (QueryUnescape (takeWhile (\<lambda>c. c \<noteq> CHR ''='') piece),
                 QueryUnescape (tl (dropWhile (\<lambda>c. c \<noteq> CHR ''='') piece))) of
       (Some k, Some v) \<Rightarrow> Some (k, v)
     | _ \<Rightarrow> None))"

definition parse_query :: "string \<Rightarrow> url_values" where
  "parse_query raw = foldl values_Add [] (List.map_filter query_pair (split_on (CHR ''&'') raw))"

definition values_pairs :: "url_values \<Rightarrow> (string \<times> string) list" where
  "values_pairs m = concat (map (\<lambda>k. map (Pair k) (values_get m k)) (sort (map fst m)))"

definition values_Encode :: "url_values \<Rightarrow> string" where
  "values_Encode m = join ''&'' (map (\<lambda>p. QueryEscape (fst p) @ ''='' @ QueryEscape (snd p)) (values_pairs m))"

section \<open>Reading what was printed\<close>

lemma query_pair_escaped: "query_pair (QueryEscape k @ ''='' @ QueryEscape v) = Some (k, v)"
proof -
  let ?P = "\<lambda>c. c \<noteq> CHR ''=''"
  have "takeWhile ?P (QueryEscape k @ ''='' @ QueryEscape v) = QueryEscape k"
    "dropWhile ?P (QueryEscape k @ ''='' @ QueryEscape v) = ''='' @ QueryEscape v"
    using QueryEscape_separators(2) [of k]
    by (auto simp: takeWhile_append2 dropWhile_append2 takeWhile_eq_all_conv dropWhile_eq_Nil_conv
        takeWhile_append dropWhile_append)
  then show ?thesis using QueryEscape_separators(3) by (simp add: query_pair_def)
qed

lemma parse_pairs: "List.map_filter query_pair (split_on (CHR ''&'') (values_Encode m)) = values_pairs m"
proof (cases "values_pairs m = []")
  case True
  then show ?thesis by (simp add: values_Encode_def map_filter_def query_pair_def)
next
  case False
  have "split_on (CHR ''&'') (values_Encode m) = map (\<lambda>p. QueryEscape (fst p) @ ''='' @ QueryEscape (snd p)) (values_pairs m)"
    unfolding values_Encode_def using False QueryEscape_separators(1) by (intro split_on_join) auto
  moreover have "List.map_filter query_pair (map (\<lambda>p. QueryEscape (fst p) @ ''='' @ QueryEscape (snd p)) ps) = ps" for ps
    by (induction ps) (simp_all add: map_filter_def query_pair_escaped del: append_Cons append_Nil)
  ultimately show ?thesis by simp
qed

lemma values_get_Add: "values_get (values_Add m p) k = values_get m k @ (if fst p = k then [snd p] else [])"
  by (simp add: values_get_def values_Add_def)

lemma values_get_foldl: "values_get (foldl values_Add m ps) k = values_get m k @ map snd [p \<leftarrow> ps. fst p = k]"
  by (induction ps arbitrary: m) (simp_all add: values_get_Add)

lemma values_get_pairs:
  assumes "wf_map m"
  shows "map snd [p \<leftarrow> values_pairs m. fst p = k] = values_get m k"
proof -
  have *: "map snd [p \<leftarrow> concat (map (\<lambda>k. map (Pair k) (values_get m k)) ks). fst p = k]
      = (if k \<in> set ks then values_get m k else [])" if "distinct ks" for ks
    using that by (induction ks) (auto simp: filter_map comp_def filter_empty_conv)
  show ?thesis
    unfolding values_pairs_def using * [of "sort (map fst m)"] assms
    by (auto simp: values_get_def distinct_map split: option.splits dest: map_of_in_fst)
qed

lemma values_get_Del: "values_get (values_Del r m) k = (if k = r then [] else values_get m k)"
proof -
  have "map_of [p \<leftarrow> m. fst p \<noteq> r] k = (if k = r then None else map_of m k)" by (induction m) auto
  then show ?thesis by (simp add: values_get_def values_Del_def)
qed

text \<open>A map that was read has distinct keys with values; printing looks at nothing else.\<close>

definition values_ok :: "url_values \<Rightarrow> bool" where
  "values_ok m \<longleftrightarrow> wf_map m \<and> (\<forall>k. map_of m k \<noteq> Some [])"

lemma values_ok_Add: "values_ok m \<Longrightarrow> values_ok (values_Add m p)"
  by (auto simp: values_ok_def values_Add_def)

lemma values_ok_parse [simp]: "values_ok (parse_query raw)"
proof -
  have "values_ok m \<Longrightarrow> values_ok (foldl values_Add m ps)" for m ps
    by (induction ps arbitrary: m) (auto intro: values_ok_Add)
  moreover have "values_ok []" by (simp add: values_ok_def)
  ultimately show ?thesis by (simp add: parse_query_def)
qed

lemma values_ok_Del: "values_ok m \<Longrightarrow> values_ok (values_Del k m)"
proof -
  have "map_of [p \<leftarrow> m. fst p \<noteq> k] j = (if j = k then None else map_of m j)" for j by (induction m) auto
  then show "values_ok m \<Longrightarrow> values_ok (values_Del k m)"
    by (simp add: values_ok_def values_Del_def distinct_map_filter del: map_of_None_iff)
qed

lemma values_keys: "values_ok m \<Longrightarrow> k \<in> fst ` set m \<longleftrightarrow> values_get m k \<noteq> []"
proof -
  have "k \<in> fst ` set m \<longleftrightarrow> map_of m k \<noteq> None" by (simp only: map_of_None_iff not_not)
  then show "values_ok m \<Longrightarrow> k \<in> fst ` set m \<longleftrightarrow> values_get m k \<noteq> []"
    by (cases "map_of m k") (auto simp: values_ok_def values_get_def simp del: map_of_None_iff)
qed

lemma values_Encode_cong:
  assumes "values_ok m" "values_ok m'" "values_get m = values_get m'"
  shows "values_Encode m = values_Encode m'"
proof -
  have "fst ` set m = fst ` set m'"
    using values_keys [OF assms(1)] values_keys [OF assms(2)] assms(3) by (metis subsetI subset_antisym)
  then have "sort (map fst m) = sort (map fst m')"
    using assms(1,2) by (intro sorted_distinct_set_unique) (simp_all add: values_ok_def)
  with assms(3) show ?thesis by (simp add: values_Encode_def values_pairs_def)
qed

lemma values_get_parse_Encode: "wf_map m \<Longrightarrow> values_get (parse_query (values_Encode m)) k = values_get m k"
  by (simp add: parse_query_def parse_pairs values_get_foldl values_get_pairs) (simp add: values_get_def)

section \<open>URLs\<close>

record url =
  RawQuery :: string
  url_rest :: string

record url_lib =
  url_Parse :: "string \<Rightarrow> string + url"
  url_String :: "url \<Rightarrow> string"

text \<open>\<open>u.Query()\<close>, and the removal of one parameter as the source writes it.\<close>

definition url_Query :: "url \<Rightarrow> url_values" where
  "url_Query u = parse_query (RawQuery u)"

definition without_param :: "string \<Rightarrow> url \<Rightarrow> url" where
  "without_param k u = u\<lparr>RawQuery := values_Encode (values_Del k (url_Query u))\<rparr>"

lemma without_param_get: "values_get (url_Query (without_param k u)) j = (if j = k then [] else values_get (url_Query u) j)"
proof -
  have "wf_map (values_Del k (url_Query u))"
    using values_ok_Del [OF values_ok_parse, of k "RawQuery u"] by (simp only: url_Query_def values_ok_def)
  then show ?thesis by (simp add: without_param_def url_Query_def values_get_parse_Encode values_get_Del)
qed

lemma without_param_idem: "without_param k (without_param k u) = without_param k u"
proof -
  let ?u = "without_param k u"
  have "values_Encode (values_Del k (url_Query ?u)) = values_Encode (values_Del k (url_Query u))"
    by (rule values_Encode_cong) (auto simp: values_ok_Del url_Query_def [of ?u] url_Query_def [of u]
        values_get_Del without_param_get [unfolded url_Query_def])
  moreover have "without_param k ?u = ?u\<lparr>RawQuery := values_Encode (values_Del k (url_Query ?u))\<rparr>"
    by (simp add: without_param_def [of k ?u])
  ultimately show ?thesis by (simp add: without_param_def [of k u])
qed

lemma without_param_rest [simp]: "url_rest (without_param k u) = url_rest u"
  by (simp add: without_param_def)

end
