(* ===== verification/Ddl_Watcher.thy ===== *)
theory Ddl_Watcher
  imports Complex_Main Ddl_Sql Go_Path Go_Url Feed_Store
begin

text \<open>
  \<open>internal/ddlwatcher/\<close>: installing the event triggers, reading the payloads they send, and the
  listener that turns notifications into items of the feed. The connection is a record of its
  queries over a state of the server; \<open>encoding/json\<close> and floating-point arithmetic are
  arguments.
\<close>

section \<open>Installing (installer.go)\<close>

record 's ddl_conn =
  dc_super :: "'s \<Rightarrow> string + bool"
  dc_count :: "string list \<Rightarrow> 's \<Rightarrow> string + int"
  dc_exec :: "string \<Rightarrow> 's \<Rightarrow> string option \<times> 's"
  dc_show :: "string \<Rightarrow> 's \<Rightarrow> string + string"

datatype ddl_error = ErrInsufficientPrivilege | DdlError string

fun ddl_text :: "ddl_error \<Rightarrow> string" where
  "ddl_text ErrInsufficientPrivilege = ''ddl tracking requires superuser / EVENT TRIGGER privilege''"
| "ddl_text (DdlError e) = e"

definition CheckPrivilege :: "'s ddl_conn \<Rightarrow> 's \<Rightarrow> ddl_error option" where
  "CheckPrivilege c st =
    (case dc_super c st of
       Inl e \<Rightarrow> Some (DdlError (''check superuser privilege: '' @ e))
     | Inr isSuper \<Rightarrow> if \<not> isSuper then Some ErrInsufficientPrivilege else None)"

definition IsInstalled :: "'s ddl_conn \<Rightarrow> 's \<Rightarrow> ddl_error + bool" where
  "IsInstalled c st =
    (case dc_count c [endTriggerName, dropTriggerName] st of
       Inl e \<Rightarrow> Inl (DdlError (''query event triggers: '' @ e))
     | Inr n \<Rightarrow> Inr (n = 2))"

definition Install :: "'s ddl_conn \<Rightarrow> 's \<Rightarrow> ddl_error option \<times> 's" where
  "Install c st =
    (case CheckPrivilege c st of
       Some e \<Rightarrow> (Some e, st)
     | None \<Rightarrow>
    (case dc_exec c installSQL st of
       (Some e, st1) \<Rightarrow> (Some (DdlError (''install ddl capture functions: '' @ e)), st1)
     | (None, st1) \<Rightarrow>
    (case dc_exec c dropTriggersSQL st1 of
       (Some e, st2) \<Rightarrow> (Some (DdlError (''drop existing ddl triggers: '' @ e)), st2)
     | (None, st2) \<Rightarrow>
    (case dc_exec c createTriggersSQL st2 of
       (Some e, st3) \<Rightarrow> (Some (DdlError (''create ddl event triggers: '' @ e)), st3)
     | (None, st3) \<Rightarrow> (None, st3)))))"

definition Uninstall :: "'s ddl_conn \<Rightarrow> 's \<Rightarrow> ddl_error option \<times> 's" where
  "Uninstall c st =
    (case dc_exec c uninstallSQL st of
       (Some e, st1) \<Rightarrow> (Some (DdlError (''uninstall ddl tracking: '' @ e)), st1)
     | (None, st1) \<Rightarrow> (None, st1))"

definition supportsEventTriggers :: "(nat \<Rightarrow> bool) \<Rightarrow> 's ddl_conn \<Rightarrow> 's \<Rightarrow> string + (bool \<times> string)" where
  "supportsEventTriggers uni c st =
    (case dc_show c ''server_version_num'' st of
       Inl e \<Rightarrow> Inl (''read server version: '' @ e)
     | Inr versionNumStr \<Rightarrow>
         (let versionStr = (case dc_show c ''server_version'' st of Inl e \<Rightarrow> [] | Inr v \<Rightarrow> v)
          in case Atoi uni (trim_space versionNumStr) of
               Inl e \<Rightarrow> Inl (''parse server version '' @ quote uni versionNumStr @ '': '' @ e)
             | Inr version \<Rightarrow> Inr (version \<ge> 90300, versionStr)))"

section \<open>Payloads (parser.go)\<close>

text \<open>A \<open>float64\<close> that is a number is a rational.\<close>

record ddl_payload =
  dp_command_tag :: string
  dp_object_type :: string
  dp_schema :: string
  dp_object_identity :: string
  dp_in_extension :: bool
  dp_timestamp :: rat

text \<open>\<open>fl_round\<close> rounds to the nearest double, \<open>fl_int64\<close> converts one to \<open>int64\<close>.\<close>

record ddl_env =
  de_unmarshal :: "string \<Rightarrow> string + ddl_payload"
  fl_round :: "rat \<Rightarrow> rat"
  fl_int64 :: "rat \<Rightarrow> int"
  de_zone :: "int \<Rightarrow> int"
  de_uni :: "nat \<Rightarrow> bool"

definition payload_time :: "ddl_env \<Rightarrow> rat \<Rightarrow> go_time" where
  "payload_time E ts =
    (let sec = fl_int64 E ts;
         nsec = fl_int64 E (fl_round E (fl_round E (ts - of_int sec) * 1000000000));
         ns = sec * ns_per_s + nsec
     in \<lparr>unix_ns = ns, utc_off = de_zone E ns\<rparr>)"

definition parsePayload :: "ddl_env \<Rightarrow> go_time \<Rightarrow> string \<Rightarrow> string + event" where
  "parsePayload E now raw =
    (case de_unmarshal E raw of
       Inl e \<Rightarrow> Inl (''decode ddl payload: '' @ e)
     | Inr p \<Rightarrow>
         (let tag = trim_space (dp_command_tag p) in
          if tag = [] then Inl ''ddl payload has empty command_tag''
          else
            (let identity0 = trim_space (dp_object_identity p);
                 identity = (if identity0 = [] then trim_space (dp_schema p) else identity0);
                 e = NewDDL now tag (trim_space (dp_object_type p)) identity
             in Inr (if dp_timestamp p > 0 then e\<lparr>ev_time := payload_time E (dp_timestamp p)\<rparr> else e))))"

section \<open>The connection string (url.go)\<close>

definition ddl_stripReplicationParam :: "url_lib \<Rightarrow> string \<Rightarrow> string" where
  "ddl_stripReplicationParam L dbURL =
    (case url_Parse L dbURL of
       Inl e \<Rightarrow> dbURL
     | Inr u \<Rightarrow> url_String L (without_param ''replication'' u))"

section \<open>The listener (listener.go)\<close>

text \<open>The limit counts bytes, and the mark of an ellipsis has three more.\<close>

definition ddl_truncate :: "string \<Rightarrow> nat \<Rightarrow> string" where
  "ddl_truncate s limit = (if length s \<le> limit then s else take limit s @ ellipsis)"

text \<open>
  What \<open>WaitForNotification\<close> returns, with the clock at that moment: a payload, or an error with
  whether the context was cancelled.
\<close>

datatype ddl_wait = Notification string | WaitFailed string bool

record ddl_listener =
  dl_url :: string

definition New_ddl :: "url_lib \<Rightarrow> string \<Rightarrow> ddl_listener" where
  "New_ddl L dbURL = \<lparr>dl_url = ddl_stripReplicationParam L dbURL\<rparr>"

datatype ddl_exit = Listening | Stopped "string option"

text \<open>
  The loop, with the warnings it logs. \<open>push\<close> is the sink; a panic in it is the listener's.
\<close>

fun ddl_loop :: "ddl_env \<Rightarrow> ('w \<Rightarrow> event \<Rightarrow> 'p + 'w) \<Rightarrow> (go_time \<times> ddl_wait) list \<Rightarrow> 'w
    \<Rightarrow> 'p + (ddl_exit \<times> string list \<times> 'w)" where
  "ddl_loop E push [] w = Inr (Listening, [], w)"
| "ddl_loop E push ((now, WaitFailed e ctx_done) # ws) w =
     Inr (Stopped (if ctx_done then None else Some (''ddl wait for notification: '' @ e)), [], w)"
| "ddl_loop E push ((now, Notification payload) # ws) w =
     (case parsePayload E now payload of
        Inl perr \<Rightarrow>
          and_then (ddl_loop E push ws w) (\<lambda>(x, warns, w').
            Inr (x, (perr @ '' '' @ ddl_truncate payload 200) # warns, w'))
      | Inr event \<Rightarrow> and_then (push w event) (\<lambda>w1. ddl_loop E push ws w1))"

text \<open>Everything before the loop, with its error.\<close>

definition ddl_open :: "ddl_env \<Rightarrow> (string \<Rightarrow> string + 's ddl_conn) \<Rightarrow> ddl_listener \<Rightarrow> 's \<Rightarrow> string option" where
  "ddl_open E connect l st =
    (case connect (dl_url l) of
       Inl e \<Rightarrow> Some (''ddl listener connect: '' @ e)
     | Inr c \<Rightarrow>
    (case supportsEventTriggers (de_uni E) c st of
       Inl e \<Rightarrow> Some e
     | Inr (ok, ver) \<Rightarrow>
         if \<not> ok then Some (''ddl tracking requires Postgres 9.3+, server is '' @ ver)
         else (case fst (dc_exec c (''LISTEN '' @ notifyChannel) st) of
             Some e \<Rightarrow> Some (''listen '' @ notifyChannel @ '': '' @ e)
           | None \<Rightarrow> None)))"

definition ddl_Start :: "ddl_env \<Rightarrow> (string \<Rightarrow> string + 's ddl_conn) \<Rightarrow> ddl_listener \<Rightarrow> 's
    \<Rightarrow> ('w \<Rightarrow> event \<Rightarrow> 'p + 'w) \<Rightarrow> (go_time \<times> ddl_wait) list \<Rightarrow> 'w \<Rightarrow> 'p + (ddl_exit \<times> string list \<times> 'w)" where
  "ddl_Start E connect l st push ws w =
    (case ddl_open E connect l st of
       Some e \<Rightarrow> Inr (Stopped (Some e), [], w)
     | None \<Rightarrow> ddl_loop E push ws w)"

section \<open>Lemmas on the listener\<close>

text \<open>The events of the notifications before the first failure, those that cannot be read left out.\<close>

fun ddl_events :: "ddl_env \<Rightarrow> (go_time \<times> ddl_wait) list \<Rightarrow> event list" where
  "ddl_events E [] = []"
| "ddl_events E ((now, WaitFailed e ctx_done) # ws) = []"
| "ddl_events E ((now, Notification payload) # ws) =
     (case parsePayload E now payload of Inl perr \<Rightarrow> [] | Inr event \<Rightarrow> [event]) @ ddl_events E ws"

fun ddl_exit_of :: "(go_time \<times> ddl_wait) list \<Rightarrow> ddl_exit" where
  "ddl_exit_of [] = Listening"
| "ddl_exit_of ((now, WaitFailed e ctx_done) # ws) =
     Stopped (if ctx_done then None else Some (''ddl wait for notification: '' @ e))"
| "ddl_exit_of ((now, Notification payload) # ws) = ddl_exit_of ws"

context pusher
begin

lemma ddl_loop_feeds:
  "ok w \<Longrightarrow> \<exists>warns w'. ddl_loop E push ws w = Inr (ddl_exit_of ws, warns, w')
     \<and> fold_ok push w (ddl_events E ws) = Inr w' \<and> ok w' \<and> bound w' = bound w
     \<and> recent w' = lastn (bound w) (recent w @ ddl_events E ws)"
proof (induction ws arbitrary: w)
  case Nil
  then show ?case by (simp add: recent_bound)
next
  case (Cons p ws)
  obtain now x where p: "p = (now, x)" by fastforce
  show ?case
  proof (cases x)
    case (WaitFailed e d)
    with p Cons.prems show ?thesis by (simp add: recent_bound)
  next
    case (Notification payload)
    show ?thesis
    proof (cases "parsePayload E now payload")
      case (Inl perr)
      with p Notification Cons.IH [OF Cons.prems] show ?thesis by auto
    next
      case (Inr e)
      obtain w1 where w1: "push w e = Inr w1" using push_ok [OF Cons.prems] by blast
      with Cons.prems have "ok w1" "bound w1 = bound w" "recent w1 = lastn (bound w) (recent w @ [e])"
        using push_keeps push_bound push_recent by blast+
      with Cons.IH [of w1] p Notification Inr w1 show ?thesis by (auto simp: lastn_lastn_append)
    qed
  qed
qed

end

section \<open>Lemmas on the triggers\<close>

abbreviation dbwatch_triggers :: "string set" where
  "dbwatch_triggers \<equiv> {endTriggerName, dropTriggerName}"

abbreviation dbwatch_functions :: "string set" where
  "dbwatch_functions \<equiv> {captureFuncName, dropCaptureFuncName}"

text \<open>
  What the code relies on of Postgres: \<open>funs\<close> and \<open>trigs\<close> are the functions and event triggers
  of a state of the server. A script that fails has no effect, as a query of several statements
  is one transaction.
\<close>

definition event_trigger_server :: "'s ddl_conn \<Rightarrow> ('s \<Rightarrow> string set) \<Rightarrow> ('s \<Rightarrow> string set) \<Rightarrow> bool" where
  "event_trigger_server c funs trigs \<longleftrightarrow>
     (\<forall>names st n. dc_count c names st = Inr n \<longrightarrow> n = int (card (set names \<inter> trigs st)))
   \<and> (\<forall>sql st e st'. dc_exec c sql st = (Some e, st') \<longrightarrow> funs st' = funs st \<and> trigs st' = trigs st)
   \<and> (\<forall>st st'. dc_exec c installSQL st = (None, st') \<longrightarrow> funs st' = funs st \<union> dbwatch_functions \<and> trigs st' = trigs st)
   \<and> (\<forall>st st'. dc_exec c dropTriggersSQL st = (None, st') \<longrightarrow> funs st' = funs st \<and> trigs st' = trigs st - dbwatch_triggers)
   \<and> (\<forall>st st'. dc_exec c createTriggersSQL st = (None, st') \<longrightarrow> funs st' = funs st \<and> trigs st' = trigs st \<union> dbwatch_triggers)
   \<and> (\<forall>st st'. dc_exec c uninstallSQL st = (None, st') \<longrightarrow>
        funs st' = funs st - dbwatch_functions \<and> trigs st' = trigs st - dbwatch_triggers)"

lemma trigger_names_differ: "endTriggerName \<noteq> dropTriggerName"
  by (simp add: ddl_names)

lemma IsInstalled_iff:
  assumes "event_trigger_server c funs trigs" and "IsInstalled c st = Inr b"
  shows "b \<longleftrightarrow> dbwatch_triggers \<subseteq> trigs st"
proof -
  have "int (card (dbwatch_triggers \<inter> trigs st)) = 2 \<longleftrightarrow> dbwatch_triggers \<subseteq> trigs st"
    using trigger_names_differ by (auto simp: Int_insert_left)
  moreover obtain n where n: "dc_count c [endTriggerName, dropTriggerName] st = Inr n" "b \<longleftrightarrow> n = 2"
    using assms(2) by (auto simp: IsInstalled_def split: sum.splits)
  moreover have "n = int (card (set [endTriggerName, dropTriggerName] \<inter> trigs st))"
    using assms(1) n(1) by (simp only: event_trigger_server_def)
  ultimately show ?thesis by simp
qed

lemma exec_effect:
  assumes "event_trigger_server c funs trigs"
  shows "dc_exec c sql st = (Some e, st') \<Longrightarrow> funs st' = funs st \<and> trigs st' = trigs st"
    and "dc_exec c installSQL st = (None, st') \<Longrightarrow> funs st' = funs st \<union> dbwatch_functions \<and> trigs st' = trigs st"
    and "dc_exec c dropTriggersSQL st = (None, st') \<Longrightarrow> funs st' = funs st \<and> trigs st' = trigs st - dbwatch_triggers"
    and "dc_exec c createTriggersSQL st = (None, st') \<Longrightarrow> funs st' = funs st \<and> trigs st' = trigs st \<union> dbwatch_triggers"
    and "dc_exec c uninstallSQL st = (None, st') \<Longrightarrow>
        funs st' = funs st - dbwatch_functions \<and> trigs st' = trigs st - dbwatch_triggers"
  using assms by (simp_all add: event_trigger_server_def)

lemma Install_effect:
  assumes "event_trigger_server c funs trigs" and "Install c st = (err, st')"
  shows "case err of
      None \<Rightarrow> funs st' = funs st \<union> dbwatch_functions \<and> trigs st' = trigs st \<union> dbwatch_triggers
    | Some e \<Rightarrow> (trigs st' = trigs st \<or> trigs st' = trigs st - dbwatch_triggers)
        \<and> (e = ErrInsufficientPrivilege \<longrightarrow> st' = st)"
proof (cases "CheckPrivilege c st")
  case (Some e)
  with assms(2) have "err = Some e" "st' = st" by (simp_all add: Install_def)
  then show ?thesis by simp
next
  case None
  obtain e1 s1 where x1: "dc_exec c installSQL st = (e1, s1)" by fastforce
  obtain e2 s2 where x2: "dc_exec c dropTriggersSQL s1 = (e2, s2)" by fastforce
  obtain e3 s3 where x3: "dc_exec c createTriggersSQL s2 = (e3, s3)" by fastforce
  note f = exec_effect [OF assms(1)]
  show ?thesis
  proof (cases e1)
    case (Some a)
    with assms(2) None x1 f(1) [of installSQL st a s1] show ?thesis by (auto simp: Install_def)
  next
    case e1: None
    with x1 f(2) [of st s1] have s1: "funs s1 = funs st \<union> dbwatch_functions" "trigs s1 = trigs st" by simp_all
    show ?thesis
    proof (cases e2)
      case (Some a)
      with assms(2) None x1 e1 x2 s1 f(1) [of dropTriggersSQL s1 a s2] show ?thesis by (auto simp: Install_def)
    next
      case e2: None
      with x2 f(3) [of s1 s2] s1 have s2: "funs s2 = funs st \<union> dbwatch_functions" "trigs s2 = trigs st - dbwatch_triggers" by simp_all
      from assms(2) None x1 e1 x2 e2 x3 s2 f(1) [of createTriggersSQL s2 _ s3] f(4) [of s2 s3]
      show ?thesis by (cases e3) (auto simp: Install_def)
    qed
  qed
qed

text \<open>
  Closer to the text of the scripts: a server that runs their statements, and is a server in the
  sense above, and a connection that does not break and whose user is a superuser. \<open>db\<close> is the
  database of a state.
\<close>

definition ddl_scripts :: "string list" where
  "ddl_scripts = [installSQL, dropTriggersSQL, createTriggersSQL, uninstallSQL]"

definition script_server :: "'s ddl_conn \<Rightarrow> ('s \<Rightarrow> ddl_db) \<Rightarrow> bool" where
  "script_server c db \<longleftrightarrow>
     (\<forall>names st n. dc_count c names st = Inr n \<longrightarrow> n = int (card (set names \<inter> fst ` set (db_trigs (db st)))))
   \<and> (\<forall>sql st e st'. dc_exec c sql st = (Some e, st') \<longrightarrow> db st' = db st)
   \<and> (\<forall>sql \<in> set ddl_scripts. \<forall>st st'. dc_exec c sql st = (None, st') \<longrightarrow> run_statements (statements sql) (db st) = Some (db st'))"

definition always_answers :: "'s ddl_conn \<Rightarrow> ('s \<Rightarrow> ddl_db) \<Rightarrow> bool" where
  "always_answers c db \<longleftrightarrow>
     (\<forall>st. dc_super c st = Inr True) \<and> (\<forall>names st. \<exists>n. dc_count c names st = Inr n)
   \<and> (\<forall>sql \<in> set ddl_scripts. \<forall>st e st'. dc_exec c sql st = (Some e, st') \<longrightarrow> run_statements (statements sql) (db st) = None)"

definition kept_triggers :: "ddl_db \<Rightarrow> (string \<times> string \<times> string) set" where
  "kept_triggers d = {t \<in> set (db_trigs d). fst t \<notin> dbwatch_triggers}"

abbreviation dbwatch_objects :: "(string \<times> string \<times> string) set" where
  "dbwatch_objects \<equiv> {(endTriggerName, ''ddl_command_end'', captureFuncName), (dropTriggerName, ''sql_drop'', dropCaptureFuncName)}"

lemma script_runs:
  assumes "script_server c db" "always_answers c db" "sql \<in> set ddl_scripts" "run_statements (statements sql) (db st) = Some d"
  shows "\<exists>st'. dc_exec c sql st = (None, st') \<and> db st' = d"
proof -
  obtain e st' where x: "dc_exec c sql st = (e, st')" by fastforce
  have "e = None"
  proof (rule ccontr)
    assume "e \<noteq> None"
    then obtain m where "e = Some m" by blast
    with x assms(2,3) have "run_statements (statements sql) (db st) = None" unfolding always_answers_def by blast
    with assms(4) show False by simp
  qed
  with x assms(1,3) have "run_statements (statements sql) (db st) = Some (db st')" unfolding script_server_def by blast
  with x \<open>e = None\<close> assms(4) show ?thesis by simp
qed

text \<open>The four scripts, on any database.\<close>

lemma run_install_scripts:
  "\<exists>d1 d2 d3. run_statements (statements installSQL) d = Some d1 \<and> run_statements (statements dropTriggersSQL) d1 = Some d2
    \<and> run_statements (statements createTriggersSQL) d2 = Some d3
    \<and> set (db_funs d3) = set (db_funs d) \<union> dbwatch_functions \<and> set (db_trigs d3) = kept_triggers d \<union> dbwatch_objects"
  unfolding script_statements using trigger_names_differ by (auto simp: kept_triggers_def)

lemma run_uninstall_script:
  assumes "\<forall>t \<in> kept_triggers d. snd (snd t) \<notin> dbwatch_functions"
  shows "\<exists>d1. run_statements (statements uninstallSQL) d = Some d1
    \<and> set (db_funs d1) = set (db_funs d) - dbwatch_functions \<and> set (db_trigs d1) = kept_triggers d"
  using assms unfolding script_statements by (auto simp: kept_triggers_def) blast+

lemma Install_runs:
  assumes "script_server c db" "always_answers c db"
  shows "\<exists>st1. Install c st = (None, st1) \<and> set (db_funs (db st1)) = set (db_funs (db st)) \<union> dbwatch_functions
    \<and> set (db_trigs (db st1)) = kept_triggers (db st) \<union> dbwatch_objects"
proof -
  obtain d1 d2 d3 where d: "run_statements (statements installSQL) (db st) = Some d1"
      "run_statements (statements dropTriggersSQL) d1 = Some d2" "run_statements (statements createTriggersSQL) d2 = Some d3"
    and r: "set (db_funs d3) = set (db_funs (db st)) \<union> dbwatch_functions" "set (db_trigs d3) = kept_triggers (db st) \<union> dbwatch_objects"
    using run_install_scripts [of "db st"] by blast
  note run = script_runs [OF assms]
  obtain s1 where s1: "dc_exec c installSQL st = (None, s1)" "db s1 = d1" using run [OF _ d(1)] by (auto simp: ddl_scripts_def)
  obtain s2 where s2: "dc_exec c dropTriggersSQL s1 = (None, s2)" "db s2 = d2"
    using run [of dropTriggersSQL s1] d(2) s1(2) by (auto simp: ddl_scripts_def)
  obtain s3 where s3: "dc_exec c createTriggersSQL s2 = (None, s3)" "db s3 = d3"
    using run [of createTriggersSQL s2] d(3) s2(2) by (auto simp: ddl_scripts_def)
  have "CheckPrivilege c st = None" using assms(2) by (simp add: CheckPrivilege_def always_answers_def)
  with s1 s2 s3 r show ?thesis by (simp add: Install_def)
qed

lemma Uninstall_runs:
  assumes "script_server c db" "always_answers c db" "\<forall>t \<in> kept_triggers (db st). snd (snd t) \<notin> dbwatch_functions"
  shows "\<exists>st1. Uninstall c st = (None, st1) \<and> set (db_funs (db st1)) = set (db_funs (db st)) - dbwatch_functions
    \<and> set (db_trigs (db st1)) = kept_triggers (db st)"
proof -
  obtain d1 where d: "run_statements (statements uninstallSQL) (db st) = Some d1"
    "set (db_funs d1) = set (db_funs (db st)) - dbwatch_functions" "set (db_trigs d1) = kept_triggers (db st)"
    using run_uninstall_script [OF assms(3)] by blast
  obtain s1 where "dc_exec c uninstallSQL st = (None, s1)" "db s1 = d1"
    using script_runs [OF assms(1,2) _ d(1)] by (auto simp: ddl_scripts_def)
  with d show ?thesis by (simp add: Uninstall_def)
qed

lemma IsInstalled_answer:
  assumes "script_server c db" "always_answers c db"
  shows "IsInstalled c st = Inr (dbwatch_triggers \<subseteq> fst ` set (db_trigs (db st)))"
proof -
  let ?T = "fst ` set (db_trigs (db st))"
  obtain n where n: "dc_count c [endTriggerName, dropTriggerName] st = Inr n"
    using assms(2) unfolding always_answers_def by blast
  with assms(1) have "n = int (card (set [endTriggerName, dropTriggerName] \<inter> ?T))" unfolding script_server_def by blast
  moreover have "int (card (dbwatch_triggers \<inter> ?T)) = 2 \<longleftrightarrow> dbwatch_triggers \<subseteq> ?T"
    using trigger_names_differ by (auto simp: Int_insert_left)
  ultimately show ?thesis using n by (simp add: IsInstalled_def)
qed

text \<open>Such a server is one in the sense above.\<close>

lemma script_effects:
  "run_statements (statements installSQL) d = Some d' \<Longrightarrow>
     set (db_funs d') = set (db_funs d) \<union> dbwatch_functions \<and> fst ` set (db_trigs d') = fst ` set (db_trigs d)"
  "run_statements (statements dropTriggersSQL) d = Some d' \<Longrightarrow>
     set (db_funs d') = set (db_funs d) \<and> fst ` set (db_trigs d') = fst ` set (db_trigs d) - dbwatch_triggers"
  "run_statements (statements createTriggersSQL) d = Some d' \<Longrightarrow>
     set (db_funs d') = set (db_funs d) \<and> fst ` set (db_trigs d') = fst ` set (db_trigs d) \<union> dbwatch_triggers"
  "run_statements (statements uninstallSQL) d = Some d' \<Longrightarrow>
     set (db_funs d') = set (db_funs d) - dbwatch_functions \<and> fst ` set (db_trigs d') = fst ` set (db_trigs d) - dbwatch_triggers"
  unfolding script_statements by (auto split: if_splits)

lemma script_server_sets:
  assumes "script_server c db"
  shows "event_trigger_server c (\<lambda>st. set (db_funs (db st))) (\<lambda>st. fst ` set (db_trigs (db st)))"
proof -
  have run: "dc_exec c sql st = (None, st') \<Longrightarrow> run_statements (statements sql) (db st) = Some (db st')"
    if "sql \<in> set ddl_scripts" for sql st st'
    using assms that unfolding script_server_def by blast
  have own: "installSQL \<in> set ddl_scripts" "dropTriggersSQL \<in> set ddl_scripts" "createTriggersSQL \<in> set ddl_scripts" "uninstallSQL \<in> set ddl_scripts"
    by (simp_all add: ddl_scripts_def)
  note effects = script_effects(1) [OF run [OF own(1)]] script_effects(2) [OF run [OF own(2)]]
    script_effects(3) [OF run [OF own(3)]] script_effects(4) [OF run [OF own(4)]]
  have fail: "set (db_funs (db st')) = set (db_funs (db st)) \<and> fst ` set (db_trigs (db st')) = fst ` set (db_trigs (db st))"
    if "dc_exec c sql st = (Some e, st')" for sql st e st'
    using assms that unfolding script_server_def by metis
  have count: "n = int (card (set names \<inter> fst ` set (db_trigs (db st))))" if "dc_count c names st = Inr n" for names st n
    using assms that unfolding script_server_def by blast
  show ?thesis
    unfolding event_trigger_server_def
    by (intro conjI allI impI)
      (erule count fail [THEN conjunct1] fail [THEN conjunct2] effects [THEN conjunct1] effects [THEN conjunct2])+
qed

lemma payload_events_ddl:
  "parsePayload E now raw = Inr e \<Longrightarrow> IsDDL e \<and> ev_command_tag e \<noteq> []"
  by (auto simp: parsePayload_def Let_def NewDDL_def IsDDL_def split: sum.splits if_splits)

lemma ddl_events_ddl: "e \<in> set (ddl_events E ws) \<Longrightarrow> IsDDL e \<and> ev_command_tag e \<noteq> []"
proof (induction E ws rule: ddl_events.induct)
  case (3 E now payload ws)
  then show ?case by (cases "parsePayload E now payload") (auto dest: payload_events_ddl)
qed simp_all

section \<open>Properties\<close>

text \<open>
  C25. The DDL listener over the store: whatever notifications arrive, it never panics, and the
  feed afterwards shows the changes of the readable payloads received before the first error,
  in order, behind what it held; a payload that cannot be read costs nothing but itself. Each
  change has the kind DDL and a command tag that is not blank. The listener stops exactly at
  the first error of the connection, without an error of its own when it was cancelled.
\<close>

theorem ddl_feed_in_order:
  assumes "world_inv w"
  shows "\<exists>warns w'. ddl_loop E Push ws w = Inr (ddl_exit_of ws, warns, w') \<and> world_inv w'
    \<and> Snapshot (w_store w') = lastn (capacity (w_store w)) (Snapshot (w_store w) @ ddl_events E ws)
    \<and> (\<forall>e \<in> set (ddl_events E ws). IsDDL e \<and> ev_command_tag e \<noteq> [])"
  using feed.ddl_loop_feeds [OF assms, of E ws] ddl_events_ddl [of _ E ws] by blast

definition demo_ddl_env :: ddl_env where
  "demo_ddl_env = \<lparr>de_unmarshal = (\<lambda>s. if s = ''{}'' then Inl ''bad'' else
       Inr \<lparr>dp_command_tag = s, dp_object_type = ''table'', dp_schema = ''public'', dp_object_identity = [],
         dp_in_extension = False, dp_timestamp = 3 / 2\<rparr>),
     fl_round = id, fl_int64 = floor, de_zone = (\<lambda>_. 0), de_uni = (\<lambda>_. True)\<rparr>"

theorem ddl_feed_in_order_witness:
  "\<exists>s warns w'. New 5 = Inr s
    \<and> ddl_loop demo_ddl_env Push [(zero_time, Notification ''{}''), (zero_time, Notification ''DROP''), (zero_time, WaitFailed ''x'' True)]
        (new_world s) = Inr (Stopped None, warns, w')
    \<and> map ev_command_tag (Snapshot (w_store w')) = [''DROP'']
    \<and> map (\<lambda>e. unix_ns (ev_time e)) (Snapshot (w_store w')) = [1500000000]"
proof -
  let ?ws = "[(zero_time, Notification ''{}''), (zero_time, Notification ''DROP''), (zero_time, WaitFailed ''x'' True)]"
  obtain s where s: "New 5 = Inr s" by (simp add: New_def)
  from new_world_inv [OF _ s] have w: "world_inv (new_world s)" by simp
  from New_ring_inv [OF _ s] have e: "Snapshot (w_store (new_world s)) = []" "capacity (w_store (new_world s)) = 5"
    using s by (auto simp: new_world_def New_def)
  have "trim_space ''DROP'' = ''DROP''" "trim_space ''public'' = ''public''"
    by (rule trim_space_plain; auto simp: byte_def is_space_def)+
  moreover have "\<lfloor>3 / 2 :: rat\<rfloor> = 1" by (rule floor_unique) simp_all
  ultimately have ev: "map ev_command_tag (ddl_events demo_ddl_env ?ws) = [''DROP'']"
    "map (\<lambda>e. unix_ns (ev_time e)) (ddl_events demo_ddl_env ?ws) = [1500000000]" "length (ddl_events demo_ddl_env ?ws) = 1"
    by (simp_all add: demo_ddl_env_def parsePayload_def payload_time_def NewDDL_def ns_per_s_def Let_def)
  from ddl_feed_in_order [OF w, of demo_ddl_env ?ws] e ev s show ?thesis by auto
qed


text \<open>A server that does just that, and one on which an old trigger stands.\<close>

definition script_demo :: "ddl_db ddl_conn" where
  "script_demo = \<lparr>dc_super = (\<lambda>_. Inr True),
     dc_count = (\<lambda>names d. Inr (int (card (set names \<inter> fst ` set (db_trigs d))))),
     dc_exec = (\<lambda>sql d. if sql \<in> set ddl_scripts then
         (case run_statements (statements sql) d of None \<Rightarrow> (Some ''error'', d) | Some d1 \<Rightarrow> (None, d1))
       else (Some ''syntax error'', d)),
     dc_show = (\<lambda>_ _. Inr ''150004'')\<rparr>"

lemma script_demo_ok: "script_server script_demo id" "always_answers script_demo id"
  by (auto simp: script_server_def always_answers_def script_demo_def split: option.splits if_splits)


text \<open>A server that stops answering after a number of scripts.\<close>

definition demo_server :: "(nat \<times> string set \<times> string set) ddl_conn" where
  "demo_server = \<lparr>dc_super = (\<lambda>_. Inr True),
     dc_count = (\<lambda>names (n, funs, trigs). Inr (int (card (set names \<inter> trigs)))),
     dc_exec = (\<lambda>sql (n, funs, trigs).
       if n = 0 then (Some ''gone'', (n, funs, trigs))
       else if sql = installSQL then (None, (n - 1, funs \<union> dbwatch_functions, trigs))
       else if sql = dropTriggersSQL then (None, (n - 1, funs, trigs - dbwatch_triggers))
       else if sql = createTriggersSQL then (None, (n - 1, funs, trigs \<union> dbwatch_triggers))
       else if sql = uninstallSQL then (None, (n - 1, funs - dbwatch_functions, trigs - dbwatch_triggers))
       else (Some ''syntax error'', (n, funs, trigs))),
     dc_show = (\<lambda>_ _. Inr ''150004'')\<rparr>"

lemma demo_server_ok: "event_trigger_server demo_server (\<lambda>(n, funs, trigs). funs) (\<lambda>(n, funs, trigs). trigs)"
proof -
  have d: "dropTriggersSQL \<noteq> installSQL" "createTriggersSQL \<noteq> installSQL" "uninstallSQL \<noteq> installSQL"
    "createTriggersSQL \<noteq> dropTriggersSQL" "uninstallSQL \<noteq> dropTriggersSQL" "uninstallSQL \<noteq> createTriggersSQL"
    using scripts_distinct by auto
  show ?thesis
    unfolding event_trigger_server_def by (auto simp: demo_server_def d split: if_splits)
qed

text \<open>What the scripts of an installation leave of the triggers.\<close>

lemma install_script_effects:
  "run_statements (statements installSQL) d = Some d' \<Longrightarrow>
     set (db_funs d') = set (db_funs d) \<union> dbwatch_functions \<and> set (db_trigs d') = set (db_trigs d)"
  "run_statements (statements dropTriggersSQL) d = Some d' \<Longrightarrow>
     set (db_funs d') = set (db_funs d) \<and> set (db_trigs d') = kept_triggers d"
  unfolding script_statements by (auto simp: kept_triggers_def split: if_splits)

text \<open>
  C29. An installation that fails is not undone, over a server that runs the scripts as Postgres documents
  their statements, a script that fails having no effect: where it fails decides what is left. At the
  privilege check, by its query or its answer, nothing has changed; at the functions, likewise
  (that script is undone by itself); at the drop of the old triggers only the functions have been added;
  at the creation of the triggers both triggers are gone as well, so that tracking that worked before stops,
  and every other trigger is as it was.
\<close>

theorem failed_install_may_drop:
  assumes "script_server c db" and "Install c st = (Some e, st1)"
  shows "if CheckPrivilege c st \<noteq> None then CheckPrivilege c st = Some e \<and> st1 = st
    else \<exists>m. e = DdlError (''install ddl capture functions: '' @ m) \<and> db st1 = db st
      \<or> e = DdlError (''drop existing ddl triggers: '' @ m)
        \<and> set (db_funs (db st1)) = set (db_funs (db st)) \<union> dbwatch_functions \<and> set (db_trigs (db st1)) = set (db_trigs (db st))
      \<or> e = DdlError (''create ddl event triggers: '' @ m)
        \<and> set (db_funs (db st1)) = set (db_funs (db st)) \<union> dbwatch_functions
        \<and> set (db_trigs (db st1)) = {t \<in> set (db_trigs (db st)). fst t \<notin> dbwatch_triggers}"
proof (cases "CheckPrivilege c st")
  case None
  have fail: "dc_exec c sql s = (Some x, s') \<Longrightarrow> db s' = db s" for sql s x s'
    using assms(1) unfolding script_server_def by blast
  have run: "dc_exec c sql s = (None, s') \<Longrightarrow> sql \<in> set ddl_scripts \<Longrightarrow> run_statements (statements sql) (db s) = Some (db s')" for sql s s'
    using assms(1) unfolding script_server_def by blast
  have own: "installSQL \<in> set ddl_scripts" "dropTriggersSQL \<in> set ddl_scripts" by (simp_all add: ddl_scripts_def)
  obtain e1 s1 where x1: "dc_exec c installSQL st = (e1, s1)" by fastforce
  obtain e2 s2 where x2: "dc_exec c dropTriggersSQL s1 = (e2, s2)" by fastforce
  obtain e3 s3 where x3: "dc_exec c createTriggersSQL s2 = (e3, s3)" by fastforce
  consider m where "e1 = Some m" | m where "e1 = None" "e2 = Some m" | m where "e1 = None" "e2 = None" "e3 = Some m"
    using assms(2) None x1 x2 x3 by (auto simp: Install_def split: option.splits)
  then show ?thesis
  proof cases
    case 1
    with assms(2) None x1 fail [of installSQL st] show ?thesis by (auto simp: Install_def)
  next
    case 2
    then have r1: "run_statements (statements installSQL) (db st) = Some (db s1)" using run x1 own by simp
    from 2 have "db s2 = db s1" using fail x2 by simp
    with 2 assms(2) None x1 x2 install_script_effects(1) [OF r1] show ?thesis by (auto simp: Install_def)
  next
    case 3
    then have r1: "run_statements (statements installSQL) (db st) = Some (db s1)"
      and r2: "run_statements (statements dropTriggersSQL) (db s1) = Some (db s2)" using run x1 x2 own by simp_all
    from 3 have "db s3 = db s2" using fail x3 by simp
    with 3 assms(2) None x1 x2 x3 install_script_effects(1) [OF r1] install_script_effects(2) [OF r2]
    show ?thesis by (auto simp: Install_def kept_triggers_def)
  qed
qed (use assms(2) in \<open>simp add: Install_def\<close>)

text \<open>A server that does what the scripts say until it stops answering.\<close>

definition failing_demo :: "(nat \<times> ddl_db) ddl_conn" where
  "failing_demo = \<lparr>dc_super = (\<lambda>_. Inr True),
     dc_count = (\<lambda>names (n, d). Inr (int (card (set names \<inter> fst ` set (db_trigs d))))),
     dc_exec = (\<lambda>sql (n, d). if n \<noteq> 0 \<and> sql \<in> set ddl_scripts then
         (case run_statements (statements sql) d of None \<Rightarrow> (Some ''error'', (n, d)) | Some d1 \<Rightarrow> (None, (n - 1, d1)))
       else (Some ''gone'', (n, d))),
     dc_show = (\<lambda>_ _. Inr ''150004'')\<rparr>"

lemma failing_demo_ok: "script_server failing_demo snd"
  by (auto simp: script_server_def failing_demo_def split: option.splits if_splits)

theorem failed_install_may_drop_witness:
  "\<exists>m st1. Install failing_demo (2, \<lparr>db_funs = [], db_trigs = [(endTriggerName, ''ddl_command_end'', captureFuncName)]\<rparr>)
      = (Some (DdlError (''create ddl event triggers: '' @ m)), st1) \<and> db_trigs (snd st1) = []"
proof -
  let ?d = "\<lparr>db_funs = [], db_trigs = [(endTriggerName, ''ddl_command_end'', captureFuncName)]\<rparr>"
  obtain d1 d2 where d: "run_statements (statements installSQL) ?d = Some d1"
      "run_statements (statements dropTriggersSQL) d1 = Some d2"
    using run_install_scripts [of ?d] by blast
  have p: "CheckPrivilege failing_demo (2, ?d) = None" by (simp add: CheckPrivilege_def failing_demo_def)
  obtain st1 where i: "Install failing_demo (2, ?d) = (Some (DdlError (''create ddl event triggers: '' @ ''gone'')), st1)"
    using d by (simp add: Install_def CheckPrivilege_def failing_demo_def ddl_scripts_def)
  from failed_install_may_drop [OF failing_demo_ok i] p have "\<forall>t. t \<notin> set (db_trigs (snd st1))" by auto
  then have "db_trigs (snd st1) = []" by (cases "db_trigs (snd st1)") auto
  with i show ?thesis by blast
qed

text \<open>
  The time of a change: with a rounding that is as close as that of a double, and a
  conversion that cuts off the fraction, the event carries the time of the payload to less than
  two nanoseconds, as long as its seconds fit a double exactly.
\<close>

theorem payload_time_close:
  assumes "0 < dp_timestamp p" and "dp_timestamp p < 2 ^ 53" and "de_unmarshal E raw = Inr p"
    and "parsePayload E now raw = Inr e"
    and "\<And>x. \<bar>fl_round E x - x\<bar> \<le> \<bar>x\<bar> / 2 ^ 53" and "\<And>x. 0 \<le> x \<Longrightarrow> x < 2 ^ 63 \<Longrightarrow> fl_int64 E x = \<lfloor>x\<rfloor>"
  shows "\<bar>of_int (unix_ns (ev_time e)) - dp_timestamp p * 1000000000\<bar> < 2"
proof -
  let ?ts = "dp_timestamp p"
  define f where "f = ?ts - of_int \<lfloor>?ts\<rfloor>"
  define g where "g = fl_round E f"
  define h where "h = fl_round E (g * 1000000000)"
  have sec: "fl_int64 E ?ts = \<lfloor>?ts\<rfloor>" using assms(1,2,6) by simp
  have f: "0 \<le> f" "f < 1" unfolding f_def by linarith+
  have g: "\<bar>g - f\<bar> \<le> f / 9007199254740992" using assms(5) [of f] f by (simp add: g_def)
  with f have g0: "0 \<le> g" "g \<le> 2" by linarith+
  have h: "\<bar>h - g * 1000000000\<bar> \<le> g * 1000000000 / 9007199254740992"
    using assms(5) [of "g * 1000000000"] g0 by (simp add: h_def abs_mult)
  with g0 have "0 \<le> h" "h < 9000000000" by linarith+
  then have h0: "0 \<le> h" "h < 2 ^ 63" by simp_all
  have "fl_int64 E h = \<lfloor>h\<rfloor>" using assms(6) h0 by simp
  moreover have "\<bar>of_int \<lfloor>h\<rfloor> - f * 1000000000\<bar> < 2"
    using f g g0 h by linarith
  moreover have "unix_ns (ev_time e) = \<lfloor>?ts\<rfloor> * ns_per_s + fl_int64 E h"
    using assms(1,3,4) by (auto simp: parsePayload_def payload_time_def Let_def sec f_def [symmetric] g_def [symmetric] h_def [symmetric]
      split: if_splits)
  ultimately show ?thesis
    by (simp add: ns_per_s_def f_def algebra_simps)
qed

theorem payload_time_close_witness:
  "\<exists>e. parsePayload demo_ddl_env zero_time ''DROP'' = Inr e
     \<and> \<bar>of_int (unix_ns (ev_time e)) - (3 / 2 :: rat) * 1000000000\<bar> < 2"
proof -
  let ?p = "\<lparr>dp_command_tag = ''DROP'', dp_object_type = ''table'', dp_schema = ''public'', dp_object_identity = [],
         dp_in_extension = False, dp_timestamp = 3 / 2\<rparr>"
  have "trim_space ''DROP'' = ''DROP''" by (rule trim_space_plain; auto simp: byte_def is_space_def)+
  then obtain e where e: "parsePayload demo_ddl_env zero_time ''DROP'' = Inr e"
    by (simp add: demo_ddl_env_def parsePayload_def Let_def)
  have u: "de_unmarshal demo_ddl_env ''DROP'' = Inr ?p" by (simp add: demo_ddl_env_def)
  from payload_time_close [OF _ _ u e] e show ?thesis by (simp add: demo_ddl_env_def)
qed

end
