(* ===== verification/Ddl_Tools.thy ===== *)
theory Ddl_Tools
  imports Ddl_Watcher
begin

text \<open>
  \<open>cmd/dbwatch/ddltools.go\<close>: the commands \<open>ddl-tools print-sql\<close>, \<open>install\<close>, \<open>uninstall\<close> and
  \<open>status\<close>, over the connection of theory \<open>Ddl_Watcher\<close>. A command yields its error or what it
  prints, with the state of the server after it.
\<close>

record 's tools_env =
  te_db_url :: string
  te_env :: "string \<Rightarrow> string"
  te_url :: url_lib
  te_connect :: "string \<Rightarrow> string + 's ddl_conn"

text \<open>A connection string for a regular connection.\<close>

definition ddlStripReplication :: "url_lib \<Rightarrow> string \<Rightarrow> string" where
  "ddlStripReplication L dbURL =
    (case url_Parse L dbURL of
       Inl e \<Rightarrow> dbURL
     | Inr u \<Rightarrow> url_String L (without_param ''replication'' u))"

definition no_ddl_url :: string where
  "no_ddl_url = ''database URL is required'' @ nl @ nl
     @ ''Set it via --db-url flag or DBWATCH_DB_URL environment variable.''"

definition withDDLConn :: "'s tools_env \<Rightarrow> ('s ddl_conn \<Rightarrow> 's \<Rightarrow> (string + string) \<times> 's) \<Rightarrow> 's \<Rightarrow> (string + string) \<times> 's" where
  "withDDLConn te fn st =
    (let dbURL = (if te_db_url te = [] then te_env te ''DBWATCH_DB_URL'' else te_db_url te)
     in if dbURL = [] then (Inl no_ddl_url, st)
        else (case te_connect te (ddlStripReplication (te_url te) dbURL) of
            Inl e \<Rightarrow> (Inl (''connect to database: '' @ e), st)
          | Inr conn \<Rightarrow> fn conn st))"

definition tick_mark :: string where
  "tick_mark = [CHR 0xE2, CHR 0x9C, CHR 0x93]"

definition ddlPrintSQL :: string where
  "ddlPrintSQL = PrintSQL"

definition ddlInstall :: "'s tools_env \<Rightarrow> 's \<Rightarrow> (string + string) \<times> 's" where
  "ddlInstall te = withDDLConn te (\<lambda>conn st.
    case Install conn st of
      (Some ErrInsufficientPrivilege, st1) \<Rightarrow>
        (Inl (ddl_text ErrInsufficientPrivilege @ nl @ nl
           @ ''Connect with a superuser account, or ask your DBA to run:'' @ nl
           @ ''  dbwatch ddl-tools print-sql | psql <superuser-url>''), st1)
    | (Some (DdlError e), st1) \<Rightarrow> (Inl e, st1)
    | (None, st1) \<Rightarrow> (Inr (tick_mark @ '' DDL event trigger installed'' @ nl), st1))"

definition ddlUninstall :: "'s tools_env \<Rightarrow> 's \<Rightarrow> (string + string) \<times> 's" where
  "ddlUninstall te = withDDLConn te (\<lambda>conn st.
    case Uninstall conn st of
      (Some e, st1) \<Rightarrow> (Inl (ddl_text e), st1)
    | (None, st1) \<Rightarrow> (Inr (tick_mark @ '' DDL event trigger removed'' @ nl), st1))"

definition ddlStatus :: "'s tools_env \<Rightarrow> 's \<Rightarrow> (string + string) \<times> 's" where
  "ddlStatus te = withDDLConn te (\<lambda>conn st.
    case IsInstalled conn st of
      Inl e \<Rightarrow> (Inl (ddl_text e), st)
    | Inr installed \<Rightarrow> (Inr ((if installed then ''installed'' else ''not installed'') @ nl), st))"

section \<open>Lemmas\<close>

lemma withDDLConn_ok:
  "withDDLConn te fn st = (Inr out, st1) \<Longrightarrow> \<exists>u c. te_connect te u = Inr c \<and> fn c st = (Inr out, st1)"
  by (auto simp: withDDLConn_def Let_def split: if_splits sum.splits)

lemma ddlInstall_ok:
  assumes "ddlInstall te st = (Inr out, st1)"
  shows "\<exists>u c. te_connect te u = Inr c \<and> Install c st = (None, st1)"
proof -
  from withDDLConn_ok [OF assms [unfolded ddlInstall_def]] obtain u c where c: "te_connect te u = Inr c"
    "(case Install c st of
      (Some ErrInsufficientPrivilege, st1) \<Rightarrow>
        (Inl (ddl_text ErrInsufficientPrivilege @ nl @ nl
           @ ''Connect with a superuser account, or ask your DBA to run:'' @ nl
           @ ''  dbwatch ddl-tools print-sql | psql <superuser-url>''), st1)
    | (Some (DdlError e), st1) \<Rightarrow> (Inl e, st1)
    | (None, st1) \<Rightarrow> (Inr (tick_mark @ '' DDL event trigger installed'' @ nl), st1)) = (Inr out, st1)" by blast
  then have "Install c st = (None, st1)"
    by (cases "Install c st") (auto split: option.splits ddl_error.splits)
  with c(1) show ?thesis by blast
qed

lemma ddlUninstall_ok:
  assumes "ddlUninstall te st = (Inr out, st1)"
  shows "\<exists>u c. te_connect te u = Inr c \<and> Uninstall c st = (None, st1)"
proof -
  from withDDLConn_ok [OF assms [unfolded ddlUninstall_def]] obtain u c where c: "te_connect te u = Inr c"
    "(case Uninstall c st of
      (Some e, st1) \<Rightarrow> (Inl (ddl_text e), st1)
    | (None, st1) \<Rightarrow> (Inr (tick_mark @ '' DDL event trigger removed'' @ nl), st1)) = (Inr out, st1)" by blast
  then have "Uninstall c st = (None, st1)"
    by (cases "Uninstall c st") (auto split: option.splits)
  with c(1) show ?thesis by blast
qed

lemma Uninstall_effect:
  "event_trigger_server c funs trigs \<Longrightarrow> Uninstall c st = (None, st1) \<Longrightarrow> trigs st1 = trigs st - dbwatch_triggers"
  using exec_effect(5) [of c funs trigs st st1] by (auto simp: Uninstall_def split: prod.splits option.splits)

lemma ddlStatus_out:
  assumes "ddlStatus te st = (Inr out, st1)"
  shows "\<exists>u c b. te_connect te u = Inr c \<and> IsInstalled c st = Inr b \<and> st1 = st
     \<and> out = (if b then ''installed'' else ''not installed'') @ nl"
proof -
  from withDDLConn_ok [OF assms [unfolded ddlStatus_def]] obtain u c where c: "te_connect te u = Inr c"
    "(case IsInstalled c st of
      Inl e \<Rightarrow> (Inl (ddl_text e), st)
    | Inr installed \<Rightarrow> (Inr ((if installed then ''installed'' else ''not installed'') @ nl), st)) = (Inr out, st1)" by blast
  then obtain b where "IsInstalled c st = Inr b" by (cases "IsInstalled c st") auto
  with c show ?thesis by (intro exI [of _ u] exI [of _ c] exI [of _ b]) auto
qed

section \<open>Properties\<close>

text \<open>
  The commands agree with each other: \<open>status\<close>, asked after an \<open>install\<close> or an \<open>uninstall\<close>
  that reported success, answers accordingly, and changes nothing.
\<close>

theorem ddl_tools_agree:
  assumes "\<And>u c. te_connect te u = Inr c \<Longrightarrow> event_trigger_server c funs trigs"
  shows "(ddlInstall te st = (Inr out, st1) \<and> ddlStatus te st1 = (Inr answer, st2) \<longrightarrow> answer = ''installed'' @ nl \<and> st2 = st1)
    \<and> (ddlUninstall te st = (Inr out, st1) \<and> ddlStatus te st1 = (Inr answer, st2) \<longrightarrow> answer = ''not installed'' @ nl \<and> st2 = st1)"
proof -
  have status: "st2 = st1 \<and> answer = (if dbwatch_triggers \<subseteq> trigs st1 then ''installed'' else ''not installed'') @ nl"
    if s: "ddlStatus te st1 = (Inr answer, st2)"
  proof -
    obtain u c b where c: "te_connect te u = Inr c" "IsInstalled c st1 = Inr b" "st2 = st1"
        "answer = (if b then ''installed'' else ''not installed'') @ nl"
      using ddlStatus_out [OF s] by blast
    with IsInstalled_iff [OF assms [OF c(1)] c(2)] show ?thesis by simp
  qed
  have "dbwatch_triggers \<subseteq> trigs st1" if i: "ddlInstall te st = (Inr out, st1)"
  proof -
    obtain u c where c: "te_connect te u = Inr c" "Install c st = (None, st1)" using ddlInstall_ok [OF i] by blast
    from Install_effect [OF assms [OF c(1)] c(2)] show ?thesis by simp
  qed
  moreover have "\<not> dbwatch_triggers \<subseteq> trigs st1" if i: "ddlUninstall te st = (Inr out, st1)"
  proof -
    obtain u c where c: "te_connect te u = Inr c" "Uninstall c st = (None, st1)" using ddlUninstall_ok [OF i] by blast
    from Uninstall_effect [OF assms [OF c(1)] c(2)] show ?thesis by simp
  qed
  ultimately show ?thesis using status by auto
qed

definition demo_tools :: "(nat \<times> string set \<times> string set) tools_env" where
  "demo_tools = \<lparr>te_db_url = ''u'', te_env = (\<lambda>_. []), te_url = \<lparr>url_Parse = (\<lambda>_. Inl ''bad''), url_String = RawQuery\<rparr>,
     te_connect = (\<lambda>_. Inr demo_server)\<rparr>"

theorem ddl_tools_agree_witness:
  "\<exists>out st1 answer st2. ddlInstall demo_tools (9, {}, {}) = (Inr out, st1)
     \<and> ddlStatus demo_tools st1 = (Inr answer, st2) \<and> answer = ''installed'' @ nl"
proof -
  have d: "dropTriggersSQL \<noteq> installSQL" "createTriggersSQL \<noteq> installSQL" "createTriggersSQL \<noteq> dropTriggersSQL"
    using scripts_distinct by auto
  have srv: "event_trigger_server c (\<lambda>(n, funs, trigs). funs) (\<lambda>(n, funs, trigs). trigs)"
    if "te_connect demo_tools u = Inr c" for u c
    using that demo_server_ok by (simp add: demo_tools_def)
  obtain out st1 where i: "ddlInstall demo_tools (9, {}, {}) = (Inr out, st1)"
    by (simp add: ddlInstall_def withDDLConn_def demo_tools_def Install_def CheckPrivilege_def demo_server_def d)
  obtain answer st2 where s: "ddlStatus demo_tools st1 = (Inr answer, st2)"
    by (cases st1) (simp add: ddlStatus_def withDDLConn_def demo_tools_def IsInstalled_def demo_server_def)
  have "(ddlInstall demo_tools (9, {}, {}) = (Inr out, st1) \<and> ddlStatus demo_tools st1 = (Inr answer, st2) \<longrightarrow>
      answer = ''installed'' @ nl \<and> st2 = st1)
    \<and> (ddlUninstall demo_tools (9, {}, {}) = (Inr out, st1) \<and> ddlStatus demo_tools st1 = (Inr answer, st2) \<longrightarrow>
      answer = ''not installed'' @ nl \<and> st2 = st1)"
    by (rule ddl_tools_agree) (rule srv)
  with i s have "answer = ''installed'' @ nl" by simp
  with i s show ?thesis by (intro exI conjI)
qed

end
