(* ===== verification/Snapshot_Cmd.thy ===== *)
theory Snapshot_Cmd
  imports Storage Report Go_Path Ddl_Tools
begin

text \<open>
  \<open>cmd/dbwatch/snapshot.go\<close> and the opening of the data file in \<open>internal/storage/db.go\<close>: the
  subcommands of \<open>dbwatch snapshot\<close>. A command reads its flags, the environment and the disk,
  which holds one table of snapshots per file, and yields its error or what it prints, with the
  disk after it. The database it captures is reached through \<open>ce_connect\<close>.
\<close>

section \<open>Environment\<close>

type_synonym disk = "string \<Rightarrow> snap_db option"

record snap_flags =
  sf_data_dir :: string
  sf_label :: string
  sf_tables :: "string list"
  sf_exclude :: "string list"
  sf_timeout :: int
  sf_db_url :: string
  sf_format :: string

text \<open>
  \<open>ce_mkdir\<close>, \<open>ce_open\<close> and \<open>ce_migrate\<close> are failures of the operating system and of the engine,
  \<open>ce_fault\<close> those of single statements; \<open>ce_url\<close> is what net/url does, and \<open>ce_elapsed\<close> is the text of a duration.
\<close>

record 'c cmd_env =
  ce_env :: "string \<Rightarrow> string"
  ce_home :: "string + string"
  ce_mkdir :: "string \<Rightarrow> string option"
  ce_open :: "string \<Rightarrow> string option"
  ce_migrate :: "string \<Rightarrow> string option"
  ce_fault :: "string \<Rightarrow> string option"
  ce_sql :: sql_env
  ce_url :: url_lib
  ce_connect :: "string \<Rightarrow> string + 'c"
  ce_api :: "'c db_api"
  ce_sanitize :: "string list \<Rightarrow> string"
  ce_uuid :: string
  ce_now :: go_time
  ce_elapsed :: string
  ce_report :: "compare_report \<Rightarrow> string + string"

definition DBFileName :: string where
  "DBFileName = ''data.db''"

section \<open>Opening the data file (internal/storage/db.go)\<close>

text \<open>\<open>CREATE TABLE IF NOT EXISTS\<close>: an existing table stays, else there is an empty one.\<close>

definition migrate :: "string option \<Rightarrow> snap_db option \<Rightarrow> string + snap_db" where
  "migrate fault tbl =
    (case fault of
       Some e \<Rightarrow> Inl (''migrate snapshots table: '' @ e)
     | None \<Rightarrow> Inr (case tbl of None \<Rightarrow> [] | Some db \<Rightarrow> db))"

definition storage_Open :: "'c cmd_env \<Rightarrow> string \<Rightarrow> disk \<Rightarrow> string + (string \<times> disk)" where
  "storage_Open ce dataDir disk =
    (case ce_mkdir ce dataDir of
       Some e \<Rightarrow> Inl (''create data dir: '' @ e)
     | None \<Rightarrow>
         (let path = path_Join dataDir DBFileName
          in case ce_open ce path of
               Some e \<Rightarrow> Inl (''open sqlite: '' @ e)
             | None \<Rightarrow> and_then (migrate (ce_migrate ce path) (disk path)) (\<lambda>db. Inr (path, disk(path \<mapsto> db)))))"

section \<open>Helpers\<close>

definition resolveDataDir :: "'c cmd_env \<Rightarrow> snap_flags \<Rightarrow> string + string" where
  "resolveDataDir ce fl =
    (if sf_data_dir fl \<noteq> [] then Inr (sf_data_dir fl)
     else if ce_env ce ''DBWATCH_DATA_DIR'' \<noteq> [] then Inr (ce_env ce ''DBWATCH_DATA_DIR'')
     else (case ce_home ce of
         Inl e \<Rightarrow> Inl (''resolve home directory: '' @ e)
       | Inr home \<Rightarrow> Inr (path_Join home ''.dbwatch'')))"

definition openSnapshotDB :: "'c cmd_env \<Rightarrow> snap_flags \<Rightarrow> disk \<Rightarrow> string + (string \<times> disk)" where
  "openSnapshotDB ce fl disk = and_then (resolveDataDir ce fl) (\<lambda>dir. storage_Open ce dir disk)"

definition no_snapshot_url :: string where
  "no_snapshot_url = ''database URL is required'' @ nl @ nl
     @ ''Set it via --db-url flag or DBWATCH_DB_URL environment variable.''"

definition withSnapshotConn :: "'c cmd_env \<Rightarrow> snap_flags \<Rightarrow> ('c \<Rightarrow> string + 'a) \<Rightarrow> string + 'a" where
  "withSnapshotConn ce fl fn =
    (let dbURL = (if sf_db_url fl = [] then ce_env ce ''DBWATCH_DB_URL'' else sf_db_url fl)
     in if dbURL = [] then Inl no_snapshot_url
        else (case ce_connect ce (ddlStripReplication (ce_url ce) dbURL) of
            Inl e \<Rightarrow> Inl (''connect to database: '' @ e)
          | Inr conn \<Rightarrow> fn conn))"

fun storage_text :: "storage_error \<Rightarrow> string" where
  "storage_text ErrNotFound = ''snapshot not found''"
| "storage_text (StorageError e) = e"

definition wrapSnapshotNotFound :: "(nat \<Rightarrow> bool) \<Rightarrow> string \<Rightarrow> storage_error \<Rightarrow> string" where
  "wrapSnapshotNotFound uni label err =
    (case err of
       ErrNotFound \<Rightarrow> ''snapshot '' @ quote uni label @ '' not found'' @ nl @ nl
         @ ''List snapshots with: dbwatch snapshot list''
     | StorageError e \<Rightarrow> e)"

text \<open>The check mark of the messages.\<close>

definition check_mark :: string where
  "check_mark = [CHR 0xE2, CHR 0x9C, CHR 0x93]"

section \<open>Commands\<close>

definition capture_now :: "'c cmd_env \<Rightarrow> options \<Rightarrow> string \<Rightarrow> 'c \<Rightarrow> string + snapshot" where
  "capture_now ce opt label conn =
    fst (Capture (ce_api ce) (ce_sanitize ce) opt (ce_uuid ce) (ce_now ce) (ce_now ce) conn label)"

text \<open>\<open>LargeTableThreshold\<close> is left at zero, which selects the default.\<close>

definition take_options :: "snap_flags \<Rightarrow> options" where
  "take_options fl = \<lparr>PerTableTimeout = sf_timeout fl, LargeTableThreshold = 0,
     IncludeTables = sf_tables fl, ExcludeTables = sf_exclude fl\<rparr>"

definition runSnapshotTake :: "'c cmd_env \<Rightarrow> snap_flags \<Rightarrow> disk \<Rightarrow> (string + string) \<times> disk" where
  "runSnapshotTake ce fl disk =
    (if length (sf_tables fl) > 0 \<and> length (sf_exclude fl) > 0 then
       (Inl ''--snapshot-tables and --snapshot-exclude are mutually exclusive'', disk)
     else (case openSnapshotDB ce fl disk of
         Inl e \<Rightarrow> (Inl e, disk)
       | Inr (path, disk1) \<Rightarrow>
           (case withSnapshotConn ce fl (\<lambda>conn.
                case capture_now ce (take_options fl) (sf_label fl) conn of
                  Inl e \<Rightarrow> Inl (''capture snapshot: '' @ e)
                | Inr snap \<Rightarrow> Inr snap) of
              Inl e \<Rightarrow> (Inl e, disk1)
            | Inr snap \<Rightarrow>
                (case SaveSnapshot (ce_sql ce) (ce_fault ce ''save'') snap (the (disk1 path)) of
                   (Inl e, db) \<Rightarrow> (Inl (storage_text e), disk1(path \<mapsto> db))
                 | (Inr _, db) \<Rightarrow>
                     (Inr (check_mark @ '' Snapshot '' @ quote (printable (ce_sql ce)) (snap_label snap)
                        @ '' captured ('' @ nat_str (length (ss_tables (snap_schema snap))) @ '' tables, ''
                        @ ce_elapsed ce @ '')'' @ nl), disk1(path \<mapsto> db))))))"

definition list_meta_line :: "snapshot_meta \<Rightarrow> string" where
  "list_meta_line m =
    pad_right 28 (meta_label m) @ ''  '' @ pad_right 12 (meta_id m) @ ''  '' @ fmt_datetime (meta_created m) @ nl"

definition runSnapshotList :: "'c cmd_env \<Rightarrow> snap_flags \<Rightarrow> disk \<Rightarrow> (string + string) \<times> disk" where
  "runSnapshotList ce fl disk =
    (case openSnapshotDB ce fl disk of
       Inl e \<Rightarrow> (Inl e, disk)
     | Inr (path, disk1) \<Rightarrow>
         (case ListSnapshots (ce_sql ce) (ce_fault ce ''list'') (ce_fault ce ''rows'') (the (disk1 path)) of
            Inl e \<Rightarrow> (Inl (storage_text e), disk1)
          | Inr metas \<Rightarrow>
              (Inr (if metas = [] then ''No snapshots stored.'' @ nl
                    else pad_right 28 ''LABEL'' @ ''  '' @ pad_right 12 ''ID'' @ ''  '' @ ''CAPTURED'' @ nl
                      @ concat (map list_meta_line metas)), disk1)))"

text \<open>The tables come out in the order in which the map is visited, here that of its list.\<close>

definition show_table :: "snapshot \<Rightarrow> string \<times> table_schema \<Rightarrow> string" where
  "show_table snap p =
    (let stat = (case map_of (snap_statistics snap) (fst p) of
           Some st \<Rightarrow> st
         | None \<Rightarrow> \<lparr>tst_table = [], tst_row_count = 0, tst_columns = [], tst_skipped = False, tst_skipped_reason = []\<rparr>)
     in ''  '' @ fst p @ '' '' @ emdash @ '' '' @ nat_str (length (ts_columns (snd p))) @ '' columns, ''
        @ itoa (tst_row_count stat) @ '' rows'' @ nl
        @ (if tst_skipped stat then ''    (statistics skipped: '' @ tst_skipped_reason stat @ '')'' @ nl else []))"

definition runSnapshotShow :: "'c cmd_env \<Rightarrow> snap_flags \<Rightarrow> string \<Rightarrow> disk \<Rightarrow> (string + string) \<times> disk" where
  "runSnapshotShow ce fl label disk =
    (case openSnapshotDB ce fl disk of
       Inl e \<Rightarrow> (Inl e, disk)
     | Inr (path, disk1) \<Rightarrow>
         (case LoadSnapshot (ce_sql ce) (ce_fault ce ''load'') label (the (disk1 path)) of
            Inl e \<Rightarrow> (Inl (wrapSnapshotNotFound (printable (ce_sql ce)) label e), disk1)
          | Inr snap \<Rightarrow>
              (Inr (''Snapshot '' @ quote (printable (ce_sql ce)) (snap_label snap) @ '' (''
                 @ fmt_datetime (snap_captured_at snap) @ '')'' @ nl
                 @ ''Tables: '' @ nat_str (length (ss_tables (snap_schema snap))) @ nl @ nl
                 @ concat (map (show_table snap) (ss_tables (snap_schema snap)))), disk1)))"

definition default_options :: options where
  "default_options = \<lparr>PerTableTimeout = 0, LargeTableThreshold = 0, IncludeTables = [], ExcludeTables = []\<rparr>"

text \<open>The second snapshot: a stored one, or the state of the database now.\<close>

definition compare_to :: "'c cmd_env \<Rightarrow> snap_flags \<Rightarrow> string option \<Rightarrow> snap_db \<Rightarrow> string + snapshot" where
  "compare_to ce fl to db =
    (case to of
       Some label \<Rightarrow>
         (case LoadSnapshot (ce_sql ce) (ce_fault ce ''load'') label db of
            Inl e \<Rightarrow> Inl (wrapSnapshotNotFound (printable (ce_sql ce)) label e)
          | Inr s \<Rightarrow> Inr s)
     | None \<Rightarrow>
         (case withSnapshotConn ce fl (capture_now ce default_options ''now'') of
            Inl e \<Rightarrow> Inl (''capture current state: '' @ e)
          | Inr s \<Rightarrow> Inr s))"

fun report_text :: "report_error \<Rightarrow> string" where
  "report_text (MarshalReport e) = e"

definition runSnapshotCompare :: "'c cmd_env \<Rightarrow> snap_flags \<Rightarrow> string \<Rightarrow> string option \<Rightarrow> disk \<Rightarrow> (string + string) \<times> disk" where
  "runSnapshotCompare ce fl from_label to disk =
    (case openSnapshotDB ce fl disk of
       Inl e \<Rightarrow> (Inl e, disk)
     | Inr (path, disk1) \<Rightarrow>
         (case LoadSnapshot (ce_sql ce) (ce_fault ce ''load'') from_label (the (disk1 path)) of
            Inl e \<Rightarrow> (Inl (wrapSnapshotNotFound (printable (ce_sql ce)) from_label e), disk1)
          | Inr a \<Rightarrow>
              (case compare_to ce fl to (the (disk1 path)) of
                 Inl e \<Rightarrow> (Inl e, disk1)
               | Inr b \<Rightarrow>
                   (case FormatReport (ce_report ce) (printable (ce_sql ce)) (Compare a b) (sf_format fl) of
                      Inl e \<Rightarrow> (Inl (report_text e), disk1)
                    | Inr out \<Rightarrow> (Inr (out @ nl), disk1)))))"

definition runSnapshotDelete :: "'c cmd_env \<Rightarrow> snap_flags \<Rightarrow> string \<Rightarrow> disk \<Rightarrow> (string + string) \<times> disk" where
  "runSnapshotDelete ce fl label disk =
    (case openSnapshotDB ce fl disk of
       Inl e \<Rightarrow> (Inl e, disk)
     | Inr (path, disk1) \<Rightarrow>
         (case DeleteSnapshot (ce_sql ce) (ce_fault ce ''delete'') (ce_fault ce ''affected'') label (the (disk1 path)) of
            (Inl e, db) \<Rightarrow> (Inl (wrapSnapshotNotFound (printable (ce_sql ce)) label e), disk1(path \<mapsto> db))
          | (Inr _, db) \<Rightarrow>
              (Inr (check_mark @ '' Snapshot '' @ quote (printable (ce_sql ce)) label @ '' deleted'' @ nl),
               disk1(path \<mapsto> db))))"

section \<open>Lemmas\<close>

text \<open>The rows of a file; a file that does not exist has none.\<close>

definition rows_at :: "disk \<Rightarrow> string \<Rightarrow> snap_db" where
  "rows_at disk path = (case disk path of None \<Rightarrow> [] | Some db \<Rightarrow> db)"

lemma storage_Open_result:
  "storage_Open ce dir disk = Inr (path, disk1) \<Longrightarrow>
     path = path_Join dir DBFileName \<and> disk1 = disk(path \<mapsto> rows_at disk path)"
  by (auto simp: storage_Open_def migrate_def rows_at_def and_then_Inr_iff Let_def split: option.splits)

lemma open_result:
  assumes "openSnapshotDB ce fl disk = Inr (path, disk1)" and "resolveDataDir ce fl = Inr dir"
  shows "path = path_Join dir DBFileName" and "disk1 = disk(path \<mapsto> rows_at disk path)"
  using assms storage_Open_result [of ce dir disk path disk1] by (simp_all add: openSnapshotDB_def)

lemma open_rows:
  assumes "openSnapshotDB ce fl disk = Inr (path, disk1)"
  shows "rows_at disk1 = rows_at disk" and "the (disk1 path) = rows_at disk path"
proof -
  obtain dir where "storage_Open ce dir disk = Inr (path, disk1)"
    using assms by (auto simp: openSnapshotDB_def and_then_Inr_iff)
  from storage_Open_result [OF this] show "rows_at disk1 = rows_at disk" "the (disk1 path) = rows_at disk path"
    by (auto simp: rows_at_def fun_eq_iff)
qed

lemma rows_at_update: "rows_at (disk(path \<mapsto> db)) p = (if p = path then db else rows_at disk p)"
  by (simp add: rows_at_def)

text \<open>What a successful \<open>take\<close> has captured and stored.\<close>

definition captured :: "'c cmd_env \<Rightarrow> snap_flags \<Rightarrow> snapshot \<Rightarrow> bool" where
  "captured ce fl s \<longleftrightarrow> withSnapshotConn ce fl (capture_now ce (take_options fl) (sf_label fl)) = Inr s"

lemma take_ok:
  assumes "runSnapshotTake ce fl disk = (Inr out, disk')" and "resolveDataDir ce fl = Inr dir"
  shows "\<exists>s db. captured ce fl s \<and> disk' = disk(path_Join dir DBFileName \<mapsto> db)
    \<and> SaveSnapshot (ce_sql ce) None s (rows_at disk (path_Join dir DBFileName)) = (Inr (), db)"
proof -
  obtain path disk1 where o: "openSnapshotDB ce fl disk = Inr (path, disk1)"
    using assms(1) by (auto simp: runSnapshotTake_def split: if_splits sum.splits)
  note p = open_result [OF o assms(2)] and r = open_rows [OF o]
  let ?f = "\<lambda>conn. case capture_now ce (take_options fl) (sf_label fl) conn of
      Inl e \<Rightarrow> Inl (''capture snapshot: '' @ e) | Inr snap \<Rightarrow> Inr snap"
  obtain s db where s: "withSnapshotConn ce fl ?f = Inr s"
      "SaveSnapshot (ce_sql ce) (ce_fault ce ''save'') s (the (disk1 path)) = (Inr (), db)" "disk' = disk1(path \<mapsto> db)"
    using assms(1) o by (auto simp: runSnapshotTake_def split: if_splits sum.splits prod.splits)
  have "captured ce fl s"
    using s(1) by (auto simp: captured_def withSnapshotConn_def Let_def split: if_splits sum.splits)
  moreover have "SaveSnapshot (ce_sql ce) None s (the (disk1 path)) = (Inr (), db)"
    using s(2) by (simp add: SaveSnapshot_ok)
  ultimately show ?thesis using s(3) p r(2) by auto
qed

lemma captured_label: "captured ce fl s \<Longrightarrow> sf_label fl \<noteq> [] \<Longrightarrow> snap_label s = sf_label fl"
proof -
  have loop: "fst (capture_loop api sanitize opt c tbls snap) = Inr s \<Longrightarrow> snap_label s = snap_label snap"
    for api :: "'c db_api" and sanitize opt c tbls snap
    by (induction api sanitize opt c tbls snap rule: capture_loop.induct)
       (auto simp: Let_def split: if_splits prod.splits sum.splits)
  assume "captured ce fl s" "sf_label fl \<noteq> []"
  then show ?thesis
    by (auto simp: captured_def withSnapshotConn_def capture_now_def Capture_def Let_def
      split: if_splits sum.splits prod.splits dest!: loop)
qed

section \<open>Properties\<close>

text \<open>
  C21. The command line computes the report of the snapshots it took: after two successful
  \<open>snapshot take\<close> with different labels into one data directory, comparing the labels prints
  exactly the report of the two captured snapshots, in the requested format, and changes
  nothing. (For snapshots that survive the JSON codec.)
\<close>

theorem compare_reports_captures:
  assumes "runSnapshotTake ce1 fl1 disk = (Inr out1, disk1)" and "runSnapshotTake ce2 fl2 disk1 = (Inr out2, disk2)"
    and "resolveDataDir ce1 fl1 = Inr dir" and "resolveDataDir ce2 fl2 = Inr dir" and "resolveDataDir ce fl = Inr dir"
    and "ce_sql ce1 = ce_sql ce" and "ce_sql ce2 = ce_sql ce" and "storage_Open ce dir disk2 = Inr (path, disk3)"
    and "ce_fault ce = (\<lambda>_. None)" and "sf_label fl1 \<noteq> []" and "sf_label fl2 \<noteq> []" and "sf_label fl1 \<noteq> sf_label fl2"
    and "\<And>s. captured ce1 fl1 s \<or> captured ce2 fl2 s \<Longrightarrow> codec_ok (ce_sql ce) s"
  shows "\<exists>s1 s2. captured ce1 fl1 s1 \<and> captured ce2 fl2 s2
    \<and> runSnapshotCompare ce fl (sf_label fl1) (Some (sf_label fl2)) disk2
      = ((case FormatReport (ce_report ce) (printable (ce_sql ce)) (Compare s1 s2) (sf_format fl) of
            Inl e \<Rightarrow> Inl (report_text e) | Inr out \<Rightarrow> Inr (out @ nl)), disk2)"
proof -
  let ?p = "path_Join dir DBFileName"
  obtain s1 db1 where s1: "captured ce1 fl1 s1" "disk1 = disk(?p \<mapsto> db1)"
      "SaveSnapshot (ce_sql ce) None s1 (rows_at disk ?p) = (Inr (), db1)"
    using take_ok [OF assms(1,3)] assms(6) by auto
  obtain s2 db2 where s2: "captured ce2 fl2 s2" "disk2 = disk1(?p \<mapsto> db2)"
      "SaveSnapshot (ce_sql ce) None s2 (rows_at disk1 ?p) = (Inr (), db2)"
    using take_ok [OF assms(2,4)] assms(7) by auto
  have labels: "snap_label s1 = sf_label fl1" "snap_label s2 = sf_label fl2"
    using captured_label [OF s1(1) assms(10)] captured_label [OF s2(1) assms(11)] by simp_all
  have ok: "codec_ok (ce_sql ce) s1" "codec_ok (ce_sql ce) s2" using assms(13) s1(1) s2(1) by blast+
  have rows: "rows_at disk1 ?p = db1" "rows_at disk2 ?p = db2"
    using s1(2) s2(2) by (simp_all add: rows_at_update)
  have l2: "LoadSnapshot (ce_sql ce) None (sf_label fl2) db2 = Inr s2"
    using load_saved [OF ok(2) s2(3)] labels by simp
  have l1: "LoadSnapshot (ce_sql ce) None (sf_label fl1) db2 = Inr s1"
    using load_saved [OF ok(1) s1(3)] load_after_save [OF s2(3), of "sf_label fl1"] labels assms(12) rows by simp
  have o: "openSnapshotDB ce fl disk2 = Inr (?p, disk2)"
    using storage_Open_result [OF assms(8)] assms(5,8) s2(2)
    by (auto simp: openSnapshotDB_def rows_at_update fun_upd_idem)
  have "the (disk2 ?p) = db2" using s2(2) by simp
  then have "runSnapshotCompare ce fl (sf_label fl1) (Some (sf_label fl2)) disk2
      = ((case FormatReport (ce_report ce) (printable (ce_sql ce)) (Compare s1 s2) (sf_format fl) of
            Inl e \<Rightarrow> Inl (report_text e) | Inr out \<Rightarrow> Inr (out @ nl)), disk2)"
    using o l1 l2 assms(9) by (simp add: runSnapshotCompare_def compare_to_def split: sum.split)
  with s1(1) s2(1) show ?thesis by blast
qed

definition demo_cmd :: "string \<Rightarrow> unit cmd_env" where
  "demo_cmd uuid = \<lparr>ce_env = (\<lambda>_. []), ce_home = Inr ''/home/u'', ce_mkdir = (\<lambda>_. None), ce_open = (\<lambda>_. None),
     ce_migrate = (\<lambda>_. None), ce_fault = (\<lambda>_. None), ce_sql = demo_env, ce_url = \<lparr>url_Parse = (\<lambda>_. Inl ''bad''), url_String = RawQuery\<rparr>,
     ce_connect = (\<lambda>_. Inr ()), ce_api = demo_api\<lparr>q_tables := (\<lambda>c. (Rows [] None, c))\<rparr>,
     ce_sanitize = concat, ce_uuid = uuid, ce_now = zero_time, ce_elapsed = ''1ms'', ce_report = (\<lambda>_. Inl [])\<rparr>"

definition demo_flags :: "string \<Rightarrow> snap_flags" where
  "demo_flags label = \<lparr>sf_data_dir = ''/d'', sf_label = label, sf_tables = [], sf_exclude = [], sf_timeout = 0,
     sf_db_url = ''postgres://h/db'', sf_format = ''text''\<rparr>"

lemma demo_captured: "captured (demo_cmd uuid) (demo_flags label) s \<Longrightarrow> label \<noteq> []
    \<Longrightarrow> s = demo_snapshot (''snap_'' @ take 8 uuid) label"
  by (auto simp: captured_def withSnapshotConn_def capture_now_def Capture_def listTables_def demo_cmd_def
      demo_flags_def demo_snapshot_def)

lemma demo_captured_codec: "captured (demo_cmd uuid) (demo_flags label) s \<Longrightarrow> label \<noteq> [] \<Longrightarrow> set uuid \<subseteq> {CHR ''1'', CHR ''2''}
    \<Longrightarrow> codec_ok (ce_sql (demo_cmd u)) s"
proof -
  assume a: "captured (demo_cmd uuid) (demo_flags label) s" "label \<noteq> []" "set uuid \<subseteq> {CHR ''1'', CHR ''2''}"
  then have "CHR 0x00 \<notin> set (''snap_'' @ take 8 uuid)" by (auto dest!: in_set_takeD)
  from demo_codec [OF this, of label] demo_captured [OF a(1,2)] show ?thesis by (simp add: demo_cmd_def)
qed

lemma demo_takes:
  "\<exists>out1 disk1 out2 disk2 path disk3. runSnapshotTake (demo_cmd ''1'') (demo_flags ''a'') Map.empty = (Inr out1, disk1)
    \<and> runSnapshotTake (demo_cmd ''2'') (demo_flags ''b'') disk1 = (Inr out2, disk2)
    \<and> storage_Open (demo_cmd ''3'') ''/d'' disk2 = Inr (path, disk3)"
  by (simp add: runSnapshotTake_def openSnapshotDB_def resolveDataDir_def storage_Open_def migrate_def
      withSnapshotConn_def capture_now_def Capture_def listTables_def SaveSnapshot_def upsert_def
      demo_cmd_def demo_flags_def demo_env_def Let_def)

theorem compare_reports_captures_witness:
  "\<exists>disk2. runSnapshotCompare (demo_cmd ''3'') (demo_flags []) ''a'' (Some ''b'') disk2
     = (Inr (renderText (printable demo_env) (Compare (demo_snapshot ''snap_1'' ''a'') (demo_snapshot ''snap_2'' ''b'')) @ nl), disk2)"
proof -
  obtain out1 disk1 out2 disk2 path disk3 where t:
    "runSnapshotTake (demo_cmd ''1'') (demo_flags ''a'') Map.empty = (Inr out1, disk1)"
    "runSnapshotTake (demo_cmd ''2'') (demo_flags ''b'') disk1 = (Inr out2, disk2)"
    "storage_Open (demo_cmd ''3'') ''/d'' disk2 = Inr (path, disk3)"
    using demo_takes by blast
  have dir: "resolveDataDir (demo_cmd u) (demo_flags l) = Inr ''/d''" for u l
    by (simp add: resolveDataDir_def demo_flags_def)
  have same: "ce_sql (demo_cmd u) = ce_sql (demo_cmd ''3'')" "ce_fault (demo_cmd ''3'') = (\<lambda>_. None)" for u
    by (simp_all add: demo_cmd_def)
  have labels: "sf_label (demo_flags ''a'') \<noteq> []" "sf_label (demo_flags ''b'') \<noteq> []"
    "sf_label (demo_flags ''a'') \<noteq> sf_label (demo_flags ''b'')"
    by (simp_all add: demo_flags_def)
  have ok: "codec_ok (ce_sql (demo_cmd ''3'')) s"
    if "captured (demo_cmd ''1'') (demo_flags ''a'') s \<or> captured (demo_cmd ''2'') (demo_flags ''b'') s" for s
    using that demo_captured_codec by auto
  obtain s1 s2 where s: "captured (demo_cmd ''1'') (demo_flags ''a'') s1" "captured (demo_cmd ''2'') (demo_flags ''b'') s2"
    and run: "runSnapshotCompare (demo_cmd ''3'') (demo_flags []) (sf_label (demo_flags ''a'')) (Some (sf_label (demo_flags ''b''))) disk2
      = ((case FormatReport (ce_report (demo_cmd ''3'')) (printable (ce_sql (demo_cmd ''3''))) (Compare s1 s2) (sf_format (demo_flags [])) of
            Inl e \<Rightarrow> Inl (report_text e) | Inr out \<Rightarrow> Inr (out @ nl)), disk2)"
    using compare_reports_captures [OF t(1,2) dir dir dir same(1) same(1) t(3) same(2) labels ok, of "[]"] by blast
  have eq: "s1 = demo_snapshot ''snap_1'' ''a''" "s2 = demo_snapshot ''snap_2'' ''b''"
    using demo_captured [OF s(1)] demo_captured [OF s(2)] by simp_all
  have fields: "sf_label (demo_flags l) = l" "sf_format (demo_flags l) = ''text''" "ce_sql (demo_cmd u) = demo_env" for l u
    by (simp_all add: demo_flags_def demo_cmd_def)
  have fmt: "FormatReport m u r ''text'' = Inr (renderText u r)" for m u r by (simp add: FormatReport_def)
  have "runSnapshotCompare (demo_cmd ''3'') (demo_flags []) ''a'' (Some ''b'') disk2
      = (Inr (renderText (printable demo_env) (Compare (demo_snapshot ''snap_1'' ''a'') (demo_snapshot ''snap_2'' ''b'')) @ nl), disk2)"
    using run by (simp only: fields eq fmt sum.case)
  then show ?thesis by (intro exI [where x = disk2])
qed

text \<open>
  C31. Only a success writes: a command that reports an error leaves the rows of every data file
  as they were, and \<open>list\<close>, \<open>show\<close> and \<open>compare\<close> always do. (A deletion whose count of rows
  cannot be read is the exception; SQLite's driver always knows it.)
\<close>

theorem only_success_writes:
  assumes "ce_fault ce ''affected'' = None"
  shows "(fst (runSnapshotTake ce fl disk) = Inl e \<longrightarrow> rows_at (snd (runSnapshotTake ce fl disk)) = rows_at disk)
    \<and> (fst (runSnapshotDelete ce fl l disk) = Inl e \<longrightarrow> rows_at (snd (runSnapshotDelete ce fl l disk)) = rows_at disk)
    \<and> rows_at (snd (runSnapshotList ce fl disk)) = rows_at disk
    \<and> rows_at (snd (runSnapshotShow ce fl l disk)) = rows_at disk
    \<and> rows_at (snd (runSnapshotCompare ce fl l to disk)) = rows_at disk"
proof (cases "openSnapshotDB ce fl disk")
  case (Inl x)
  then show ?thesis
    by (simp add: runSnapshotTake_def runSnapshotDelete_def runSnapshotList_def runSnapshotShow_def runSnapshotCompare_def)
next
  case (Inr q)
  obtain path disk1 where q: "q = (path, disk1)" by fastforce
  with Inr have o: "openSnapshotDB ce fl disk = Inr (path, disk1)" by simp
  note r = open_rows [OF o]
  have same: "rows_at (disk1(path \<mapsto> the (disk1 path))) = rows_at disk"
    using r by (simp add: fun_eq_iff rows_at_update)
  have del: "db = the (disk1 path)"
    if "DeleteSnapshot (ce_sql ce) (ce_fault ce ''delete'') None l (the (disk1 path)) = (Inl x, db)" for x db
    using that by (auto simp: DeleteSnapshot_def Let_def filter_empty_conv filter_id_conv split: option.splits if_splits)
  have "fst (runSnapshotTake ce fl disk) = Inl e \<longrightarrow> rows_at (snd (runSnapshotTake ce fl disk)) = rows_at disk"
    using o r same
    by (auto simp: runSnapshotTake_def dest: SaveSnapshot_error split: if_splits sum.splits prod.splits)
  moreover have "fst (runSnapshotDelete ce fl l disk) = Inl e \<longrightarrow> rows_at (snd (runSnapshotDelete ce fl l disk)) = rows_at disk"
    using o r same assms del by (auto simp: runSnapshotDelete_def split: sum.splits prod.splits)
  moreover have "rows_at (snd (runSnapshotList ce fl disk)) = rows_at disk"
    "rows_at (snd (runSnapshotShow ce fl l disk)) = rows_at disk"
    "rows_at (snd (runSnapshotCompare ce fl l to disk)) = rows_at disk"
    using o r by (auto simp: runSnapshotList_def runSnapshotShow_def runSnapshotCompare_def split: sum.split)
  ultimately show ?thesis by blast
qed

theorem only_success_writes_witness:
  "rows_at (snd (runSnapshotTake (demo_cmd ''1'') (demo_flags ''a''\<lparr>sf_tables := [''t''], sf_exclude := [''u'']\<rparr>)
     [''/d/data.db'' \<mapsto> demo_db])) ''/d/data.db'' = demo_db"
  using only_success_writes [of "demo_cmd ''1''" "demo_flags ''a''\<lparr>sf_tables := [''t''], sf_exclude := [''u'']\<rparr>"
      "[''/d/data.db'' \<mapsto> demo_db]" "''--snapshot-tables and --snapshot-exclude are mutually exclusive''"]
  by (simp add: demo_cmd_def runSnapshotTake_def rows_at_def)

end
