(* ===== verification/Listener_Start.thy ===== *)
theory Listener_Start
  imports Listener Go_Url
begin

text \<open>
  The set-up of replication in \<open>internal/listener/listener.go\<close>: \<open>Start\<close> and the steps before the
  loop of theory \<open>Listener\<close>. The two connections to the server are records of their operations
  over a state of the server.
\<close>

section \<open>Connections\<close>

text \<open>
  The replication connection: \<open>rc_exec\<close> yields the number of rows of each result,
  \<open>rc_create_slot\<close> the consistent point of the new temporary slot.
\<close>

record 's repl_conn =
  rc_exec :: "string \<Rightarrow> 's \<Rightarrow> (string + nat list) \<times> 's"
  rc_create_slot :: "string \<Rightarrow> string \<Rightarrow> 's \<Rightarrow> (string + string) \<times> 's"
  rc_parse_lsn :: "string \<Rightarrow> string + 64 word"
  rc_start :: "string \<Rightarrow> 64 word \<Rightarrow> string list \<Rightarrow> 's \<Rightarrow> string option \<times> 's"

text \<open>
  The regular connection: \<open>nc_tables\<close> is the query for the tables without full replica identity,
  with the outcome of each scan and the error of the iteration.
\<close>

record 's normal_conn =
  nc_tables :: "'s \<Rightarrow> string + ((string + string) list \<times> string option)"
  nc_exec :: "string \<Rightarrow> 's \<Rightarrow> string option \<times> 's"

record 's start_env =
  se_connect :: "string \<Rightarrow> string + 's repl_conn"
  se_normal :: "string \<Rightarrow> string + 's normal_conn"
  se_url :: url_lib
  se_uni :: "nat \<Rightarrow> bool"

record listener =
  li_dbURL :: string
  li_publication :: string
  li_slot :: string

definition outputPlugin :: string where
  "outputPlugin = ''pgoutput''"

definition New_listener :: "string \<Rightarrow> string \<Rightarrow> string \<Rightarrow> listener" where
  "New_listener dbURL publication slot = \<lparr>li_dbURL = dbURL, li_publication = publication, li_slot = slot\<rparr>"

section \<open>Steps\<close>

definition squote :: string where
  "squote = [CHR 0x27]"

definition check_publication_sql :: "string \<Rightarrow> string" where
  "check_publication_sql publication =
    ''SELECT 1 FROM pg_publication WHERE pubname = '' @ squote @ publication @ squote"

definition create_publication_sql :: "string \<Rightarrow> string" where
  "create_publication_sql publication = ''CREATE PUBLICATION '' @ publication @ '' FOR ALL TABLES''"

definition ensurePublication :: "(nat \<Rightarrow> bool) \<Rightarrow> listener \<Rightarrow> 's repl_conn \<Rightarrow> 's \<Rightarrow> string option \<times> 's" where
  "ensurePublication uni l conn st =
    (case rc_exec conn (check_publication_sql (li_publication l)) st of
       (Inl e, st1) \<Rightarrow> (Some (''check publication: '' @ e), st1)
     | (Inr rows, st1) \<Rightarrow>
         if length rows > 0 \<and> rows ! 0 > 0 then (None, st1)
         else (case rc_exec conn (create_publication_sql (li_publication l)) st1 of
             (Inl e, st2) \<Rightarrow> (Some (''create publication '' @ quote uni (li_publication l) @ '': '' @ e), st2)
           | (Inr _, st2) \<Rightarrow> (None, st2)))"

definition createSlot :: "listener \<Rightarrow> 's repl_conn \<Rightarrow> 's \<Rightarrow> (string + 64 word) \<times> 's" where
  "createSlot l conn st =
    (case rc_create_slot conn (li_slot l) outputPlugin st of
       (Inl e, st1) \<Rightarrow> (Inl (''create replication slot: '' @ e), st1)
     | (Inr point, st1) \<Rightarrow>
         (case rc_parse_lsn conn point of
            Inl e \<Rightarrow> (Inl (''parse lsn: '' @ e), st1)
          | Inr lsn \<Rightarrow> (Inr lsn, st1)))"

definition stripReplicationParam :: "url_lib \<Rightarrow> string \<Rightarrow> string" where
  "stripReplicationParam L dbURL =
    (case url_Parse L dbURL of
       Inl e \<Rightarrow> dbURL
     | Inr u \<Rightarrow> url_String L (without_param ''replication'' u))"

text \<open>The loop over the rows: the first scan that fails ends it.\<close>

fun scan_tables :: "(string + string) list \<Rightarrow> string + string list" where
  "scan_tables [] = Inr []"
| "scan_tables (r # rs) = and_then r (\<lambda>t. and_then (scan_tables rs) (\<lambda>ts. Inr (t # ts)))"

definition identity_sql :: "string \<Rightarrow> string" where
  "identity_sql t = ''ALTER TABLE '' @ t @ '' REPLICA IDENTITY FULL''"

text \<open>The loop over the tables only warns; the result lists the tables it warned of.\<close>

fun alter_tables :: "'s normal_conn \<Rightarrow> string list \<Rightarrow> 's \<Rightarrow> (string \<times> string) list \<times> 's" where
  "alter_tables conn [] st = ([], st)"
| "alter_tables conn (t # ts) st =
     (case nc_exec conn (identity_sql t) st of
        (err, st1) \<Rightarrow>
          (case alter_tables conn ts st1 of
             (warns, st2) \<Rightarrow> ((case err of Some e \<Rightarrow> [(t, e)] | None \<Rightarrow> []) @ warns, st2)))"

definition ensureReplicaIdentityFull :: "'s start_env \<Rightarrow> listener \<Rightarrow> 's \<Rightarrow> (string + (string \<times> string) list) \<times> 's" where
  "ensureReplicaIdentityFull E l st =
    (case se_normal E (stripReplicationParam (se_url E) (li_dbURL l)) of
       Inl e \<Rightarrow> (Inl (''open normal connection: '' @ e), st)
     | Inr conn \<Rightarrow>
    (case nc_tables conn st of
       Inl e \<Rightarrow> (Inl (''query tables: '' @ e), st)
     | Inr (rows, rows_err) \<Rightarrow>
    (case scan_tables rows of
       Inl e \<Rightarrow> (Inl (''scan table name: '' @ e), st)
     | Inr tables \<Rightarrow>
    (case rows_err of
       Some e \<Rightarrow> (Inl (''iterate tables: '' @ e), st)
     | None \<Rightarrow> (case alter_tables conn tables st of (warns, st1) \<Rightarrow> (Inr warns, st1))))))"

definition plugin_args :: "listener \<Rightarrow> string list" where
  "plugin_args l = [''proto_version '' @ squote @ ''1'' @ squote,
     ''publication_names '' @ squote @ li_publication l @ squote]"

text \<open>
  Everything before the loop: an error that the user sees, or the start position. The outcome
  of the replica identities is logged only.
\<close>

definition start_setup :: "'s start_env \<Rightarrow> listener \<Rightarrow> 's \<Rightarrow> (string + 64 word) \<times> 's" where
  "start_setup E l st =
    (case se_connect E (li_dbURL l) of
       Inl e \<Rightarrow> (Inl (friendly_text e), st)
     | Inr conn \<Rightarrow>
    (case ensurePublication (se_uni E) l conn st of
       (Some e, st1) \<Rightarrow> (Inl (friendly_text e), st1)
     | (None, st1) \<Rightarrow>
    (let st2 = snd (ensureReplicaIdentityFull E l st1) in
     case createSlot l conn st2 of
       (Inl e, st3) \<Rightarrow> (Inl (friendly_text e), st3)
     | (Inr slotLSN, st3) \<Rightarrow>
    (case rc_start conn (li_slot l) slotLSN (plugin_args l) st3 of
       (Some e, st4) \<Rightarrow> (Inl (friendly_text e), st4)
     | (None, st4) \<Rightarrow> (Inr slotLSN, st4)))))"

datatype start_error = SetupError string | LoopError loop_error

datatype start_result =
    Running loop_state
  | Ended "start_error option" "event list"
  | StartPanicked go_panic

text \<open>\<open>Start\<close>, with the turns of its loop; a set-up that fails has put nothing into the channel.\<close>

definition Start :: "'s start_env \<Rightarrow> pglogrepl \<Rightarrow> listener \<Rightarrow> int \<Rightarrow> 64 word \<Rightarrow> event chan \<Rightarrow> turn list \<Rightarrow> 's
    \<Rightarrow> start_result \<times> 's" where
  "Start E P l now counter out ts st =
    (case start_setup E l st of
       (Inl e, st1) \<Rightarrow> (Ended (Some (SetupError e)) [], st1)
     | (Inr slotLSN, st1) \<Rightarrow>
         ((case readLoop P slotLSN now counter out ts of
             Continue s \<Rightarrow> Running s
           | Return err s \<Rightarrow> Ended (map_option LoopError err) (published s)
           | Panicked p \<Rightarrow> StartPanicked p), st1))"

section \<open>Lemmas\<close>

text \<open>Every table is tried, whatever happens to the others.\<close>

lemma alter_tables_all:
  assumes "\<And>t st. full (snd (nc_exec conn (identity_sql t) st)) =
      (if fst (nc_exec conn (identity_sql t) st) = None then insert t (full st) else full st)"
  shows "alter_tables conn ts st = (warns, st') \<Longrightarrow> set ts \<subseteq> full st' \<union> fst ` set warns"
proof (induction ts arbitrary: st warns)
  case (Cons t ts)
  obtain err st1 where x: "nc_exec conn (identity_sql t) st = (err, st1)" by fastforce
  obtain warns1 st2 where r: "alter_tables conn ts st1 = (warns1, st2)" by fastforce
  have mono: "full s \<subseteq> full s'" if "alter_tables conn us s = (w, s')" for us s w s'
    using that
  proof (induction us arbitrary: s w)
    case (Cons u us)
    obtain e s1 where "nc_exec conn (identity_sql u) s = (e, s1)" by fastforce
    with assms [of u s] Cons show ?case by (auto split: prod.splits if_splits)
  qed simp
  from Cons.prems x r have w: "warns = (case err of Some e \<Rightarrow> [(t, e)] | None \<Rightarrow> []) @ warns1" "st' = st2" by simp_all
  note r = r [folded w(2)]
  from assms [of t st] x mono [OF r] have "err = None \<Longrightarrow> t \<in> full st'" by auto
  with Cons.IH [OF r] w show ?case by (cases err) auto
qed simp

section \<open>Properties\<close>

text \<open>
  What the code relies on of Postgres for one publication name: the literal is compared as it
  is, but an identifier without quotes is folded to lower case, and a name is created once.
\<close>

definition fold_identifier :: "string \<Rightarrow> string" where
  "fold_identifier = map (\<lambda>c. if 65 \<le> byte c \<and> byte c \<le> 90 then char_of (byte c + 32) else c)"

definition publication_server :: "'s repl_conn \<Rightarrow> ('s \<Rightarrow> string set) \<Rightarrow> string \<Rightarrow> bool" where
  "publication_server conn pubs name \<longleftrightarrow>
     (\<forall>st. rc_exec conn (check_publication_sql name) st = (Inr [if name \<in> pubs st then 1 else 0], st))
   \<and> (\<forall>st. if fold_identifier name \<in> pubs st
          then \<exists>e. rc_exec conn (create_publication_sql name) st = (Inl e, st)
          else \<exists>rows st'. rc_exec conn (create_publication_sql name) st = (Inr rows, st')
                 \<and> pubs st' = insert (fold_identifier name) (pubs st))"

text \<open>
  The publication is set up once: a start that has ensured its publication is followed by
  starts that find it, if the name is not changed by folding. A name with capital letters is
  created folded and never found: the next start fails, and changes nothing.
\<close>

theorem publication_again:
  assumes "publication_server conn pubs (li_publication l)" and "ensurePublication uni l conn st = (None, st1)"
  shows "if fold_identifier (li_publication l) = li_publication l then ensurePublication uni l conn st1 = (None, st1)
    else li_publication l \<notin> pubs st \<longrightarrow> (\<exists>e. ensurePublication uni l conn st1 = (Some e, st1))"
proof -
  let ?n = "li_publication l"
  have check: "rc_exec conn (check_publication_sql ?n) s = (Inr [if ?n \<in> pubs s then 1 else 0], s)" for s
    using assms(1) by (simp add: publication_server_def)
  have create: "if fold_identifier ?n \<in> pubs s
          then \<exists>e. rc_exec conn (create_publication_sql ?n) s = (Inl e, s)
          else \<exists>rows st'. rc_exec conn (create_publication_sql ?n) s = (Inr rows, st')
                 \<and> pubs st' = insert (fold_identifier ?n) (pubs s)" for s
    using assms(1) unfolding publication_server_def by (elim conjE allE [of _ s])
  have found: "ensurePublication uni l conn s = (None, s)" if "?n \<in> pubs s" for s
    using that check [of s] by (simp add: ensurePublication_def)
  have refused: "\<exists>e. ensurePublication uni l conn s = (Some e, s)" if "?n \<notin> pubs s" "fold_identifier ?n \<in> pubs s" for s
    using that check [of s] create [of s] by (auto simp: ensurePublication_def)
  show ?thesis
  proof (cases "?n \<in> pubs st")
    case True
    with found [of st] assms(2) show ?thesis by auto
  next
    case False
    have new: "fold_identifier ?n \<notin> pubs st"
    proof
      assume "fold_identifier ?n \<in> pubs st"
      then obtain e where "ensurePublication uni l conn st = (Some e, st)" using refused [OF False] by blast
      with assms(2) show False by simp
    qed
    then obtain rows st' where "rc_exec conn (create_publication_sql ?n) st = (Inr rows, st')"
        "pubs st' = insert (fold_identifier ?n) (pubs st)"
      using create [of st] by auto
    with assms(2) check [of st] False have p: "pubs st1 = insert (fold_identifier ?n) (pubs st)"
      by (simp add: ensurePublication_def)
    show ?thesis
    proof (cases "fold_identifier ?n = ?n")
      case True
      with p found [of st1] show ?thesis by simp
    next
      case c: False
      with p False have "?n \<notin> pubs st1" "fold_identifier ?n \<in> pubs st1" by auto
      with refused [of st1] c show ?thesis by simp
    qed
  qed
qed

definition demo_publications :: "string \<Rightarrow> (string list) repl_conn" where
  "demo_publications name = \<lparr>rc_exec = (\<lambda>sql st.
      if sql = check_publication_sql name then (Inr [if name \<in> set st then 1 else 0], st)
      else if sql = create_publication_sql name then
        (if fold_identifier name \<in> set st then (Inl ''already exists'', st) else (Inr [0], fold_identifier name # st))
      else (Inr [], st)),
    rc_create_slot = (\<lambda>slot plugin st. (Inr ''0/16B3748'', st)), rc_parse_lsn = (\<lambda>_. Inr 23803720),
    rc_start = (\<lambda>slot lsn args st. (None, st))\<rparr>"

lemma publication_sql_differ: "check_publication_sql n \<noteq> create_publication_sql n"
  by (simp add: check_publication_sql_def create_publication_sql_def)

theorem publication_again_witness:
  "\<exists>st1 e. ensurePublication (\<lambda>_. True) (New_listener [] ''Pub'' []) (demo_publications ''Pub'') [] = (None, st1)
     \<and> ensurePublication (\<lambda>_. True) (New_listener [] ''Pub'' []) (demo_publications ''Pub'') st1 = (Some e, st1)"
proof -
  let ?l = "New_listener [] ''Pub'' []" and ?c = "demo_publications ''Pub''"
  have d: "create_publication_sql n \<noteq> check_publication_sql n" for n
    using publication_sql_differ [of n] by simp
  have s: "publication_server ?c set (li_publication ?l)"
    by (simp add: publication_server_def demo_publications_def New_listener_def d)
  have f: "fold_identifier (li_publication ?l) \<noteq> li_publication ?l"
    by (simp add: fold_identifier_def New_listener_def byte_def char_of_eq_iff)
  obtain st1 where e: "ensurePublication (\<lambda>_. True) ?l ?c [] = (None, st1)"
    by (simp add: ensurePublication_def demo_publications_def New_listener_def d)
  from publication_again [OF s e] f e show ?thesis by auto
qed

end
