(* ===== verification/Core_Run.thy ===== *)
theory Core_Run
  imports Listener_Start Ddl_Watcher Config
begin

text \<open>
  \<open>internal/core/\<close>: the runner that connects the replication listener, the DDL listener and the
  store. \<open>Run\<close> has three goroutines, the listener, the forwarder from its channel into the store
  and the DDL listener, over a shared state; an action is one step of one of them, and the
  theorems hold for every order of actions.
\<close>

section \<open>DDL set-up (ddl.go, runner.go)\<close>

definition stripReplication :: "url_lib \<Rightarrow> string \<Rightarrow> string" where
  "stripReplication L dbURL =
    (case url_Parse L dbURL of
       Inl e \<Rightarrow> dbURL
     | Inr u \<Rightarrow> url_String L (without_param ''replication'' u))"

definition hint_line :: "string \<Rightarrow> string" where
  "hint_line s = ''  '' @ arrow @ '' '' @ s @ nl"

definition ddlSetupHint :: "config \<Rightarrow> ddl_error \<Rightarrow> string" where
  "ddlSetupHint cfg err =
    ''DDL tracking could not be enabled.'' @ nl
    @ (if err = ErrInsufficientPrivilege then
         ''  Reason: the database user lacks EVENT TRIGGER (superuser) privilege.'' @ nl
         @ hint_line ''Ask your DBA to install the trigger once:''
         @ ''      dbwatch ddl-tools install --db-url=<superuser-url>'' @ nl
         @ hint_line ''Then re-run with: --track-ddl --ddl-install-mode=none''
       else if DDLInstallMode cfg = DDLInstallManual then
         ''  Reason: the event trigger is not installed and install mode is '' @ squote @ ''manual'' @ squote @ ''.'' @ nl
         @ hint_line ''Install it once (as superuser):''
         @ ''      dbwatch ddl-tools install --db-url=<superuser-url>'' @ nl
         @ hint_line ''Or print the SQL: dbwatch ddl-tools print-sql''
       else
         ''  Reason: '' @ ddl_text err @ nl
         @ hint_line ''See: dbwatch ddl-tools status --db-url=<url>'')
    @ ''Continuing with DML tracking only.''"

definition prepareDDL :: "url_lib \<Rightarrow> (string \<Rightarrow> string + 'd ddl_conn) \<Rightarrow> config \<Rightarrow> 'd \<Rightarrow> ddl_error option \<times> 'd" where
  "prepareDDL L connect cfg st =
    (if DDLInstallMode cfg = DDLInstallNone then (None, st)
     else (case connect (stripReplication L (DBURL cfg)) of
         Inl e \<Rightarrow> (Some (DdlError (''connect for ddl setup: '' @ e)), st)
       | Inr conn \<Rightarrow>
           (case IsInstalled conn st of
              Inl err \<Rightarrow> (Some err, st)
            | Inr installed \<Rightarrow>
                if installed then (None, st)
                else if DDLInstallMode cfg = DDLInstallManual then
                  (Some (DdlError ''event trigger not installed (install mode is manual)''), st)
                else Install conn st)))"

text \<open>The hook that \<open>cmd/dbwatch/main.go\<close> sets: a log line in the feed, the hint elsewhere.\<close>

definition setupDDLWarn :: "go_time \<Rightarrow> feed_world \<Rightarrow> go_panic + feed_world" where
  "setupDDLWarn now w = Push w (NewLog now (''DDL tracking disabled '' @ emdash @ '' see logs for details''))"

section \<open>State\<close>

text \<open>
  \<open>c_end\<close> is the result of the listener once it has ended, \<open>c_lsn\<close> what \<open>onEvent\<close> stored last;
  \<open>c_forwarded\<close> and \<open>c_pushed\<close> log what the forwarder and what all goroutines pushed.
\<close>

record core_state =
  c_loop :: loop_state
  c_end :: "loop_error option option"
  c_world :: feed_world
  c_forward :: bool
  c_cancelled :: bool
  c_ddl :: bool
  c_lsn :: string
  c_forwarded :: "event list"
  c_pushed :: "event list"

datatype core_act =
    ListenerTurn turn
  | Forward
  | ForwardSeesCancel
  | DdlTurn go_time ddl_wait
  | OtherPush event
  | Cancel

section \<open>Steps\<close>

text \<open>A push by one of the goroutines; \<open>onEvent\<close> follows the pushes of \<open>Run\<close>.\<close>

definition core_push :: "core_state \<Rightarrow> event \<Rightarrow> go_panic + core_state" where
  "core_push s e = and_then (Push (c_world s) e) (\<lambda>w. Inr (s\<lparr>c_world := w, c_pushed := c_pushed s @ [e]\<rparr>))"

definition onEvent :: "event \<Rightarrow> core_state \<Rightarrow> core_state" where
  "onEvent e s = s\<lparr>c_lsn := ev_lsn e\<rparr>"

text \<open>When the listener returns, \<open>Run\<close> closes its channel.\<close>

definition core_listener :: "pglogrepl \<Rightarrow> turn \<Rightarrow> core_state \<Rightarrow> go_panic + core_state" where
  "core_listener P t s =
    (if c_end s \<noteq> None then Inr s
     else (case loop_turn P (t\<lparr>t_taken := 0\<rparr>) (c_loop s) of
         Continue st \<Rightarrow> Inr (s\<lparr>c_loop := st\<rparr>)
       | Return err st \<Rightarrow>
           and_then (close_chan (l_out st)) (\<lambda>c. Inr (s\<lparr>c_loop := st\<lparr>l_out := c\<rparr>, c_end := Some err\<rparr>))
       | Panicked p \<Rightarrow> Inl p))"

definition core_forward :: "core_state \<Rightarrow> go_panic + core_state" where
  "core_forward s =
    (if \<not> c_forward s then Inr s
     else (case recv (l_out (c_loop s)) of
         (Got e, c) \<Rightarrow>
           and_then (core_push (s\<lparr>c_loop := (c_loop s)\<lparr>l_out := c\<rparr>\<rparr>) e) (\<lambda>s1.
             Inr (onEvent e (s1\<lparr>c_forwarded := c_forwarded s1 @ [e]\<rparr>)))
       | (EndOfChan, c) \<Rightarrow> Inr (s\<lparr>c_forward := False\<rparr>)
       | (WouldBlock, c) \<Rightarrow> Inr s))"

definition core_ddl :: "ddl_env \<Rightarrow> go_time \<Rightarrow> ddl_wait \<Rightarrow> core_state \<Rightarrow> go_panic + core_state" where
  "core_ddl E now x s =
    (if \<not> c_ddl s then Inr s
     else and_then (ddl_loop E (\<lambda>s e. and_then (core_push s e) (\<lambda>s1. Inr (onEvent e s1))) [(now, x)] s)
       (\<lambda>(ex, warns, s1). Inr (s1\<lparr>c_ddl := (ex = Listening)\<rparr>)))"

fun core_step :: "pglogrepl \<Rightarrow> ddl_env \<Rightarrow> core_state \<Rightarrow> core_act \<Rightarrow> go_panic + core_state" where
  "core_step P E s (ListenerTurn t) = core_listener P t s"
| "core_step P E s Forward = core_forward s"
| "core_step P E s ForwardSeesCancel = Inr (if c_cancelled s then s\<lparr>c_forward := False\<rparr> else s)"
| "core_step P E s (DdlTurn now x) = core_ddl E now x s"
| "core_step P E s (OtherPush e) = core_push s e"
| "core_step P E s Cancel = Inr (s\<lparr>c_cancelled := True\<rparr>)"

text \<open>\<open>Run\<close> returns when the listener has ended and the forwarder is done.\<close>

definition core_result :: "core_state \<Rightarrow> loop_error option option" where
  "core_result s = (if c_forward s then None else c_end s)"

section \<open>Run\<close>

record ('s, 'd) core_env =
  co_start :: "'s start_env"
  co_ddl_connect :: "string \<Rightarrow> string + 'd ddl_conn"
  co_ddl :: ddl_env
  co_wire :: pglogrepl

text \<open>
  \<open>startDDLListener\<close>: whether the DDL listener runs, and the feed, which gets a log line if not.
\<close>

definition startDDLListener :: "('s, 'd) core_env \<Rightarrow> config \<Rightarrow> go_time \<Rightarrow> 'd \<Rightarrow> feed_world
    \<Rightarrow> go_panic + (bool \<times> 'd \<times> string option \<times> feed_world)" where
  "startDDLListener CE cfg now st w =
    (case prepareDDL (se_url (co_start CE)) (co_ddl_connect CE) cfg st of
       (Some err, st1) \<Rightarrow> and_then (setupDDLWarn now w) (\<lambda>w1. Inr (False, st1, Some (ddlSetupHint cfg err), w1))
     | (None, st1) \<Rightarrow>
         Inr (ddl_open (co_ddl CE) (co_ddl_connect CE) (New_ddl (se_url (co_start CE)) (DBURL cfg)) st1 = None, st1, None, w))"

text \<open>
  Everything before the loops: the result is an error of the set-up, after which \<open>Run\<close> ends (the
  channel is empty, so the forwarder ends with it), or the state the goroutines start from.
\<close>

definition core_open :: "('s, 'd) core_env \<Rightarrow> config \<Rightarrow> go_time \<Rightarrow> int \<Rightarrow> 64 word \<Rightarrow> 's \<Rightarrow> 'd \<Rightarrow> feed_world
    \<Rightarrow> go_panic + ((string \<times> feed_world + core_state) \<times> 's \<times> 'd)" where
  "core_open CE cfg now ns counter st dst w =
    (if BufferSize cfg < 0 then Inl MakeLenOutOfRange
     else and_then (if TrackDDL cfg then startDDLListener CE cfg now dst w else Inr (False, dst, None, w))
       (\<lambda>(ddl, dst1, hint_text, w1).
          case start_setup (co_start CE) (New_listener (DBURL cfg) (Publication cfg) (Slot cfg)) st of
            (Inl e, st1) \<Rightarrow> Inr (Inl (e, w1), st1, dst1)
          | (Inr slotLSN, st1) \<Rightarrow>
              Inr (Inr \<lparr>c_loop = \<lparr>clientXLogPos = slotLSN, nextAck = ns + ackInterval, l_cache = NewSchemaCache,
                     l_counter = counter, l_out = make_chan (nat (BufferSize cfg)), sent_acks = [], published = []\<rparr>,
                   c_end = None, c_world = w1, c_forward = True, c_cancelled = False, c_ddl = ddl, c_lsn = [],
                   c_forwarded = [], c_pushed = []\<rparr>, st1, dst1)))"

definition Run :: "('s, 'd) core_env \<Rightarrow> config \<Rightarrow> go_time \<Rightarrow> int \<Rightarrow> 64 word \<Rightarrow> 's \<Rightarrow> 'd \<Rightarrow> feed_world \<Rightarrow> core_act list
    \<Rightarrow> go_panic + (string \<times> feed_world + core_state)" where
  "Run CE cfg now ns counter st dst w acts =
    and_then (core_open CE cfg now ns counter st dst w) (\<lambda>(r, st1, dst1).
      case r of
        Inl e \<Rightarrow> Inr (Inl e)
      | Inr s \<Rightarrow> and_then (fold_ok (core_step (co_wire CE) (co_ddl CE)) s acts) (\<lambda>s1. Inr (Inr s1)))"

section \<open>Lemmas\<close>

text \<open>
  What every step keeps: the store is sound and shows the newest of everything pushed; what the
  listener has published is what the forwarder has pushed and what still waits in the channel,
  in order; the channel is closed exactly when the listener has ended; and the forwarder has
  left it only when it was cancelled or had emptied the closed channel.
\<close>

definition core_inv :: "event list \<Rightarrow> nat \<Rightarrow> core_state \<Rightarrow> bool" where
  "core_inv before cap s \<longleftrightarrow> world_inv (c_world s) \<and> capacity (w_store (c_world s)) = cap
     \<and> Snapshot (w_store (c_world s)) = lastn cap (before @ c_pushed s)
     \<and> subseq (c_forwarded s) (c_pushed s)
     \<and> published (c_loop s) = c_forwarded s @ buf (l_out (c_loop s))
     \<and> (chan.closed (l_out (c_loop s)) \<longleftrightarrow> c_end s \<noteq> None)
     \<and> (\<not> c_forward s \<longrightarrow> c_cancelled s \<or> c_end s \<noteq> None \<and> buf (l_out (c_loop s)) = [])"

fun act_ok :: "core_act \<Rightarrow> bool" where
  "act_ok (ListenerTurn t) = (t_recv t \<noteq> Received (CopyData []))"
| "act_ok _ = True"

lemma core_push_inv:
  assumes "core_inv before cap s"
  shows "\<exists>w. Push (c_world s) e = Inr w \<and> core_push s e = Inr (s\<lparr>c_world := w, c_pushed := c_pushed s @ [e]\<rparr>)
    \<and> core_inv before cap (s\<lparr>c_world := w, c_pushed := c_pushed s @ [e]\<rparr>)"
proof -
  have w: "world_inv (c_world s)" "capacity (w_store (c_world s)) = cap"
    "Snapshot (w_store (c_world s)) = lastn cap (before @ c_pushed s)" using assms by (simp_all add: core_inv_def)
  obtain w' where w': "Push (c_world s) e = Inr w'" using feed.push_ok [OF w(1)] by blast
  have "world_inv w'" "capacity (w_store w') = cap"
    "Snapshot (w_store w') = lastn cap (before @ c_pushed s @ [e])"
    using feed.push_keeps [OF w(1) w'] feed.push_bound [OF w(1) w'] feed.push_recent [OF w(1) w'] w(2,3)
    by (simp_all add: lastn_lastn_append)
  with assms w' show ?thesis by (auto simp: core_push_def core_inv_def subseq_snoc)
qed

lemma core_listener_inv:
  assumes inv: "core_inv before cap s" and ok: "t_recv t \<noteq> Received (CopyData [])"
  shows "\<exists>s'. core_listener P t s = Inr s' \<and> core_inv before cap s'"
proof (cases "c_end s")
  case (Some err)
  with inv show ?thesis by (simp add: core_listener_def)
next
  case None
  let ?t = "t\<lparr>t_taken := 0\<rparr>"
  have o: "\<not> chan.closed (l_out (c_loop s))" using inv None by (simp add: core_inv_def)
  note np = loop_turn_open [OF o, of ?t P] and app = loop_turn_appends [of P ?t "c_loop s"]
  show ?thesis
  proof (cases "loop_turn P ?t (c_loop s)")
    case (Continue st)
    with app have "appends (c_loop s) st" by simp
    with inv None Continue show ?thesis by (auto simp: core_listener_def core_inv_def appends_def)
  next
    case (Return err st)
    with app have a: "appends (c_loop s) st" by simp
    then have "close_chan (l_out st) = Inr ((l_out st)\<lparr>closed := True\<rparr>)" using o by (simp add: appends_def close_chan_def)
    with a inv None Return show ?thesis by (auto simp: core_listener_def core_inv_def appends_def)
  next
    case (Panicked p)
    with np ok show ?thesis by simp
  qed
qed

lemma core_forward_inv:
  assumes inv: "core_inv before cap s"
  shows "\<exists>s'. core_forward s = Inr s' \<and> core_inv before cap s'"
proof (cases "c_forward s")
  case False
  with inv show ?thesis by (simp add: core_forward_def)
next
  case True
  show ?thesis
  proof (cases "buf (l_out (c_loop s))")
    case Nil
    with inv True show ?thesis by (auto simp: core_forward_def recv_def core_inv_def)
  next
    case (Cons e es)
    let ?s = "s\<lparr>c_loop := (c_loop s)\<lparr>l_out := (l_out (c_loop s))\<lparr>buf := es\<rparr>\<rparr>\<rparr>"
    obtain w where w: "Push (c_world s) e = Inr w"
        "core_inv before cap (s\<lparr>c_world := w, c_pushed := c_pushed s @ [e]\<rparr>)"
      using core_push_inv [OF inv] by blast
    from w(1) Cons True have "core_forward s = Inr (onEvent e (?s\<lparr>c_world := w, c_pushed := c_pushed s @ [e],
        c_forwarded := c_forwarded s @ [e]\<rparr>))"
      by (simp add: core_forward_def recv_def core_push_def)
    with w(2) inv Cons True show ?thesis
      by (auto simp: core_inv_def onEvent_def subseq_snoc_same)
  qed
qed

lemma core_ddl_inv:
  assumes inv: "core_inv before cap s"
  shows "\<exists>s'. core_ddl E now x s = Inr s' \<and> core_inv before cap s'"
proof (cases "c_ddl s")
  case False
  with inv show ?thesis by (simp add: core_ddl_def)
next
  case True
  show ?thesis
  proof (cases x)
    case (WaitFailed e d)
    with True inv show ?thesis by (auto simp: core_ddl_def core_inv_def)
  next
    case (Notification payload)
    show ?thesis
    proof (cases "parsePayload E now payload")
      case (Inl perr)
      with True Notification inv show ?thesis by (auto simp: core_ddl_def core_inv_def)
    next
      case (Inr e)
      with True Notification core_push_inv [OF inv, of e] show ?thesis
        by (auto simp: core_ddl_def onEvent_def core_inv_def)
    qed
  qed
qed

lemma core_step_inv:
  assumes "core_inv before cap s" and "act_ok a"
  shows "\<exists>s'. core_step P E s a = Inr s' \<and> core_inv before cap s'"
proof (cases a)
  case (ListenerTurn t)
  with assms core_listener_inv [OF assms(1), of t P] show ?thesis by simp
next
  case (OtherPush e)
  with core_push_inv [OF assms(1), of e] show ?thesis by auto
next
  case ForwardSeesCancel
  with assms(1) show ?thesis by (auto simp: core_inv_def)
next
  case Cancel
  with assms(1) show ?thesis by (auto simp: core_inv_def)
qed (simp_all add: core_forward_inv core_ddl_inv assms(1))

lemma core_steps_inv:
  "core_inv before cap s \<Longrightarrow> list_all act_ok acts \<Longrightarrow> \<exists>s'. fold_ok (core_step P E) s acts = Inr s' \<and> core_inv before cap s'"
proof (induction acts arbitrary: s)
  case (Cons a acts)
  with core_step_inv [OF Cons.prems(1), of a P E] obtain s1 where "core_step P E s a = Inr s1" "core_inv before cap s1" by auto
  with Cons.IH [of s1] Cons.prems(2) show ?case by auto
qed simp

text \<open>The set-up, with the log line that a failed set-up of DDL tracking leaves.\<close>

lemma core_open_facts:
  assumes "world_inv w" and "0 < BufferSize cfg"
  shows "\<exists>r st1 dst1 warn. core_open CE cfg now ns counter st dst w = Inr (r, st1, dst1) \<and> length warn \<le> 1
    \<and> list_all IsLog warn \<and> (\<not> TrackDDL cfg \<longrightarrow> warn = [])
    \<and> (case r of Inl (e, w1) \<Rightarrow> fold_ok Push w warn = Inr w1
        | Inr s \<Rightarrow> fold_ok Push w warn = Inr (c_world s)
            \<and> core_inv (Snapshot (w_store w) @ warn) (capacity (w_store w)) s \<and> c_end s = None
            \<and> c_pushed s = [] \<and> c_forwarded s = [] \<and> l_cache (c_loop s) = NewSchemaCache \<and> published (c_loop s) = []
            \<and> ccap (l_out (c_loop s)) = nat (BufferSize cfg) \<and> (\<not> TrackDDL cfg \<longrightarrow> \<not> c_ddl s) \<and> \<not> c_cancelled s)"
proof -
  let ?snap = "Snapshot (w_store w)" and ?cap = "capacity (w_store w)"
  have "\<exists>ddl dst1 h w1 warn. (if TrackDDL cfg then startDDLListener CE cfg now dst w else Inr (False, dst, None, w))
      = Inr (ddl, dst1, h, w1) \<and> length warn \<le> 1 \<and> list_all IsLog warn \<and> (\<not> TrackDDL cfg \<longrightarrow> warn = [] \<and> \<not> ddl)
      \<and> fold_ok Push w warn = Inr w1"
  proof (cases "TrackDDL cfg")
    case False
    then show ?thesis by (intro exI [of _ "[]"] exI conjI) auto
  next
    case True
    obtain perr dst1 where p: "prepareDDL (se_url (co_start CE)) (co_ddl_connect CE) cfg dst = (perr, dst1)" by fastforce
    show ?thesis
    proof (cases perr)
      case None
      with True p show ?thesis by (auto simp: startDDLListener_def intro!: exI [of _ "[]"])
    next
      case (Some err)
      define e where "e = NewLog now (''DDL tracking disabled '' @ emdash @ '' see logs for details'')"
      obtain w1 where w1: "Push w e = Inr w1" using feed.push_ok [OF assms(1)] by blast
      then have "setupDDLWarn now w = Inr w1" by (simp only: setupDDLWarn_def e_def)
      moreover have "IsLog e" by (simp add: e_def)
      ultimately show ?thesis using True p Some w1 by (auto simp: startDDLListener_def intro!: exI [of _ "[e]"])
    qed
  qed
  then obtain ddl dst1 h w1 warn where o: "(if TrackDDL cfg then startDDLListener CE cfg now dst w else Inr (False, dst, None, w))
      = Inr (ddl, dst1, h, w1)" "length warn \<le> 1" "list_all IsLog warn" "\<not> TrackDDL cfg \<longrightarrow> warn = [] \<and> \<not> ddl"
      "fold_ok Push w warn = Inr w1" by blast
  from feed.pushed_list [OF assms(1) o(5)]
  have w1: "world_inv w1" "capacity (w_store w1) = ?cap" "Snapshot (w_store w1) = lastn ?cap (?snap @ warn)" by simp_all
  obtain r st1 where r: "start_setup (co_start CE) (New_listener (DBURL cfg) (Publication cfg) (Slot cfg)) st = (r, st1)" by fastforce
  show ?thesis
  proof (cases r)
    case (Inl e)
    with assms(2) o r show ?thesis
      by (intro exI [of _ "Inl (e, w1)"] exI [of _ st1] exI [of _ dst1] exI [of _ warn]) (simp add: core_open_def)
  next
    case (Inr slotLSN)
    with assms(2) o r w1 show ?thesis
      by (intro exI [of _ "Inr _"] exI [of _ st1] exI [of _ dst1] exI [of _ warn])
         (auto simp: core_open_def core_inv_def chan_simps)
  qed
qed

lemma core_open_inv:
  assumes "world_inv w" and "0 < BufferSize cfg"
  shows "\<exists>r st1 dst1 warn. core_open CE cfg now ns counter st dst w = Inr (r, st1, dst1) \<and> length warn \<le> 1
    \<and> (case r of Inl (e, w1) \<Rightarrow> world_inv w1
        | Inr s \<Rightarrow> core_inv (Snapshot (w_store w) @ warn) (capacity (w_store w)) s \<and> c_end s = None
            \<and> c_pushed s = [] \<and> l_cache (c_loop s) = NewSchemaCache \<and> published (c_loop s) = []
            \<and> ccap (l_out (c_loop s)) = nat (BufferSize cfg))"
proof -
  from core_open_facts [OF assms, of CE now ns counter st dst] obtain r st1 dst1 warn where
    o: "core_open CE cfg now ns counter st dst w = Inr (r, st1, dst1)" "length warn \<le> 1"
    "case r of Inl (e, w1) \<Rightarrow> fold_ok Push w warn = Inr w1
        | Inr s \<Rightarrow> fold_ok Push w warn = Inr (c_world s)
            \<and> core_inv (Snapshot (w_store w) @ warn) (capacity (w_store w)) s \<and> c_end s = None
            \<and> c_pushed s = [] \<and> c_forwarded s = [] \<and> l_cache (c_loop s) = NewSchemaCache \<and> published (c_loop s) = []
            \<and> ccap (l_out (c_loop s)) = nat (BufferSize cfg) \<and> (\<not> TrackDDL cfg \<longrightarrow> \<not> c_ddl s) \<and> \<not> c_cancelled s" by blast
  with feed.pushed_list(1) [OF assms(1)] show ?thesis
    by (intro exI [of _ r] exI [of _ st1] exI [of _ dst1] exI [of _ warn]) (auto split: sum.splits)
qed

lemma Run_inv:
  assumes "world_inv w" and "0 < BufferSize cfg" and "list_all act_ok acts"
  shows "\<exists>r warn. Run CE cfg now ns counter st dst w acts = Inr r \<and> length warn \<le> 1
    \<and> (case r of Inl (e, w1) \<Rightarrow> world_inv w1
        | Inr s \<Rightarrow> core_inv (Snapshot (w_store w) @ warn) (capacity (w_store w)) s)"
proof -
  from core_open_inv [OF assms(1,2), of CE now ns counter st dst]
  obtain r st1 dst1 warn where o: "core_open CE cfg now ns counter st dst w = Inr (r, st1, dst1)" "length warn \<le> 1"
    "case r of Inl (e, w1) \<Rightarrow> world_inv w1
        | Inr s \<Rightarrow> core_inv (Snapshot (w_store w) @ warn) (capacity (w_store w)) s \<and> c_end s = None
            \<and> c_pushed s = [] \<and> l_cache (c_loop s) = NewSchemaCache \<and> published (c_loop s) = []
            \<and> ccap (l_out (c_loop s)) = nat (BufferSize cfg)"
    by blast
  show ?thesis
  proof (cases r)
    case (Inl e)
    with o show ?thesis by (intro exI [of _ "Inl e"] exI [of _ warn]) (auto simp: Run_def)
  next
    case (Inr s)
    with o(3) have "core_inv (Snapshot (w_store w) @ warn) (capacity (w_store w)) s" by simp
    from core_steps_inv [OF this assms(3), of "co_wire CE" "co_ddl CE"]
    obtain s1 where "fold_ok (core_step (co_wire CE) (co_ddl CE)) s acts = Inr s1"
      "core_inv (Snapshot (w_store w) @ warn) (capacity (w_store w)) s1" by blast
    with o(1,2) Inr show ?thesis by (intro exI [of _ "Inr s1"] exI [of _ warn]) (simp add: Run_def)
  qed
qed

text \<open>The turns of the listener in a schedule; no other action touches its state but the channel.\<close>

fun turns_of :: "core_act list \<Rightarrow> turn list" where
  "turns_of [] = []"
| "turns_of (ListenerTurn t # as) = t # turns_of as"
| "turns_of (_ # as) = turns_of as"

lemma core_push_loop: "core_push s e = Inr s' \<Longrightarrow> c_loop s' = c_loop s \<and> c_end s' = c_end s"
  by (auto simp: core_push_def and_then_Inr_iff)

definition loop_kept :: "core_state \<Rightarrow> core_state \<Rightarrow> bool" where
  "loop_kept s s' \<longleftrightarrow> published (c_loop s') = published (c_loop s) \<and> l_cache (c_loop s') = l_cache (c_loop s)
     \<and> ccap (l_out (c_loop s')) = ccap (l_out (c_loop s)) \<and> c_end s' = c_end s
     \<and> length (buf (l_out (c_loop s'))) \<le> length (buf (l_out (c_loop s)))"

lemma core_other_keeps:
  assumes "core_step P E s a = Inr s'" and "\<And>t. a \<noteq> ListenerTurn t"
  shows "loop_kept s s'"
proof (cases a)
  case (ListenerTurn t)
  with assms(2) [of t] show ?thesis by simp
next
  case Forward
  with assms(1) show ?thesis
    by (auto simp: core_forward_def loop_kept_def recv_def and_then_Inr_iff onEvent_def dest!: core_push_loop
        split: if_splits list.splits)
next
  case (DdlTurn now x)
  with assms(1) show ?thesis
    by (cases x) (auto simp: core_ddl_def loop_kept_def and_then_Inr_iff onEvent_def dest!: core_push_loop
        split: if_splits sum.splits)
next
  case (OtherPush e)
  with assms(1) show ?thesis by (auto simp: loop_kept_def dest!: core_push_loop)
qed (use assms(1) in \<open>auto simp: loop_kept_def\<close>)

lemma failed_receive_returns:
  assumes "t_recv t = ReceiveFailed m" and "t_taken t = 0"
  shows "\<exists>err st'. loop_turn P t st = Return err st' \<and> published st' = published st"
proof -
  have "take_out 0 st = st" by (simp add: take_out_def)
  with assms show ?thesis
    by (auto simp: loop_turn_def handle_recv_def Let_def split: sum.split dest: send_quiet)
qed

lemma steps_after_end:
  "fold_ok (core_step P E) s acts = Inr s' \<Longrightarrow> turns_of acts = [] \<Longrightarrow>
     published (c_loop s') = published (c_loop s) \<and> c_end s' = c_end s"
proof (induction acts arbitrary: s)
  case (Cons a acts)
  from Cons.prems(1) obtain s1 where s1: "core_step P E s a = Inr s1" "fold_ok (core_step P E) s1 acts = Inr s'"
    by (auto simp: and_then_Inr_iff)
  have a: "a \<noteq> ListenerTurn t" "turns_of acts = []" for t using Cons.prems(2) by (cases a; simp)+
  from core_other_keeps [OF s1(1) a(1)] Cons.IH [OF s1(2) a(2)] show ?case by (simp add: loop_kept_def)
qed simp

text \<open>
  A schedule whose turns deliver a stream that fits the channel and then fail publishes all of
  its meaning.
\<close>

lemma steps_stream:
  assumes ids: "XLogDataByteID P \<noteq> PrimaryKeepaliveMessageByteID P" and last: "t_recv tend = ReceiveFailed m"
  shows "fold_ok (core_step P E) s acts = Inr s' \<Longrightarrow> turns_of acts = ts @ [tend] \<Longrightarrow> list_all2 (delivers P) ts msgs \<Longrightarrow>
     core_inv before cap s \<Longrightarrow> list_all act_ok acts \<Longrightarrow> c_end s = None \<Longrightarrow> l_cache (c_loop s) = foldl cache_Update NewSchemaCache seen \<Longrightarrow>
     length (buf (l_out (c_loop s))) + length msgs \<le> ccap (l_out (c_loop s)) \<Longrightarrow>
     c_end s' \<noteq> None \<and> map change_of (published (c_loop s')) = map change_of (published (c_loop s)) @ stream_meaning seen msgs"
proof (induction acts arbitrary: s ts msgs seen)
  case (Cons a acts)
  from Cons.prems(1) obtain s1 where s1: "core_step P E s a = Inr s1" "fold_ok (core_step P E) s1 acts = Inr s'"
    by (auto simp: and_then_Inr_iff)
  have ok: "act_ok a" "list_all act_ok acts" using Cons.prems(5) by simp_all
  have inv1: "core_inv before cap s1" using core_step_inv [OF Cons.prems(4) ok(1), of P E] s1(1) by auto
  show ?case
  proof (cases "\<exists>t. a = ListenerTurn t")
    case False
    then have "\<And>t. a \<noteq> ListenerTurn t" by blast
    from core_other_keeps [OF s1(1) this] have k: "loop_kept s s1" .
    from False have "turns_of acts = ts @ [tend]" using Cons.prems(2) by (cases a) simp_all
    from Cons.IH [OF s1(2) this Cons.prems(3) inv1 ok(2)] k Cons.prems(6-8) show ?thesis by (simp add: loop_kept_def)
  next
    case True
    then obtain t where t: "a = ListenerTurn t" by blast
    let ?t = "t\<lparr>t_taken := 0\<rparr>"
    have open_chan: "\<not> chan.closed (l_out (c_loop s))" using Cons.prems(4,6) by (simp add: core_inv_def)
    show ?thesis
    proof (cases ts)
      case Nil
      with Cons.prems(2) t have tt: "t = tend" "turns_of acts = []" by simp_all
      obtain err st where l: "loop_turn P ?t (c_loop s) = Return err st" "published st = published (c_loop s)"
        using failed_receive_returns [of ?t m P "c_loop s"] last tt(1) by auto
      with s1(1) t Cons.prems(6) have "c_end s1 = Some err" "published (c_loop s1) = published (c_loop s)"
        by (auto simp: core_listener_def and_then_Inr_iff)
      with steps_after_end [OF s1(2) tt(2)] Cons.prems(3) Nil show ?thesis by simp
    next
      case (Cons u us)
      then have tu: "t = u" "turns_of acts = us @ [tend]" using Cons.prems(2) t by simp_all
      from Cons Cons.prems(3) obtain mm ms where ms: "msgs = mm # ms" "delivers P u mm" "list_all2 (delivers P) us ms"
        by (cases msgs) auto
      have del: "delivers P ?t mm" using ms(2) tu(1) by (simp add: delivers_def)
      have room: "length (buf (l_out (c_loop s))) - t_taken ?t < ccap (l_out (c_loop s))"
        using Cons.prems(8) ms(1) by simp
      obtain st evs where st: "loop_turn P ?t (c_loop s) = Continue st"
          "l_cache st = foldl cache_Update NewSchemaCache (seen @ announced mm)"
          "ccap (l_out st) = ccap (l_out (c_loop s))" "buf (l_out st) = buf (l_out (c_loop s)) @ evs" "length evs \<le> 1"
          "published st = published (c_loop s) @ evs" "map change_of evs = meaning (seen @ announced mm) mm"
        using loop_turn_meaning [OF del ids Cons.prems(7) open_chan room] by auto
      have s1': "s1 = s\<lparr>c_loop := st\<rparr>" using s1(1) t Cons.prems(6) st(1) by (simp add: core_listener_def)
      have "c_end s1 = None" "l_cache (c_loop s1) = foldl cache_Update NewSchemaCache (seen @ announced mm)"
        "length (buf (l_out (c_loop s1))) + length ms \<le> ccap (l_out (c_loop s1))"
        using s1' st Cons.prems(6,8) ms(1) by simp_all
      from Cons.IH [OF s1(2) tu(2) ms(3) inv1 ok(2) this] s1' st ms(1) show ?thesis by simp
    qed
  qed
qed simp

text \<open>Once the listener has ended, the forwarder empties the channel and leaves.\<close>

lemma forward_drains:
  assumes "core_inv before cap s" and "c_end s \<noteq> None" and "length (buf (l_out (c_loop s))) < n"
  shows "\<exists>s'. fold_ok (core_step P E) s (replicate n Forward) = Inr s' \<and> \<not> c_forward s' \<and> c_end s' = c_end s"
  using assms
proof (induction n arbitrary: s)
  case (Suc n)
  obtain s1 where s1: "core_step P E s Forward = Inr s1" "core_inv before cap s1"
    using core_step_inv [OF Suc.prems(1), of Forward P E] by auto
  have k: "loop_kept s s1" using core_other_keeps [OF s1(1)] by simp
  have acts: "list_all act_ok (replicate n Forward)" "turns_of (replicate n Forward) = []" by (induction n) simp_all
  have stay: "\<not> c_forward t \<Longrightarrow> fold_ok (core_step P E) t (replicate n Forward) = Inr t" for t
    by (induction n) (simp_all add: core_forward_def)
  show ?case
  proof (cases "c_forward s1")
    case False
    with stay [of s1] s1(1) k show ?thesis by (simp add: loop_kept_def)
  next
    case True
    then have f: "c_forward s" using s1(1) by (auto simp: core_forward_def split: if_splits)
    have cl: "chan.closed (l_out (c_loop s))" using Suc.prems(1,2) by (simp add: core_inv_def)
    show ?thesis
    proof (cases "buf (l_out (c_loop s))")
      case Nil
      with s1(1) f cl have "s1 = s\<lparr>c_forward := False\<rparr>" by (simp add: core_forward_def recv_def)
      with True show ?thesis by simp
    next
      case (Cons e es)
      with s1(1) f have "buf (l_out (c_loop s1)) = es"
        by (auto simp: core_forward_def recv_def and_then_Inr_iff onEvent_def dest!: core_push_loop)
      with Suc.IH [OF s1(2)] Suc.prems(2,3) k Cons s1(1) show ?thesis by (auto simp: loop_kept_def)
    qed
  qed
qed simp

lemma Run_append:
  assumes "Run CE cfg now ns counter st dst w acts = Inr (Inr s)"
  shows "Run CE cfg now ns counter st dst w (acts @ acts2) =
    and_then (fold_ok (core_step (co_wire CE) (co_ddl CE)) s acts2) (\<lambda>s1. Inr (Inr s1))"
proof -
  obtain r st1 dst1 where o: "core_open CE cfg now ns counter st dst w = Inr (r, st1, dst1)"
    using assms by (auto simp: Run_def and_then_Inr_iff)
  with assms show ?thesis
    by (cases r) (auto simp: Run_def and_then_Inr_iff fold_ok_append)
qed

section \<open>Properties\<close>

text \<open>
  C17. The runner feeds the store, if the buffer size is positive and the server sends no empty
  CopyData message (either would panic), whatever the order of its goroutines' steps and of other
  pushes: nothing panics, and a failed set-up leaves a sound store. Otherwise the feed shows the newest
  of what it held, at most one warning of the set-up, and everything pushed since; the forwarder has pushed a prefix of what the
  listener published, in order and among the other pushes, and when \<open>Run\<close> has returned without being
  cancelled, all of it.
\<close>

theorem run_feeds_store:
  assumes "world_inv w" and "0 < BufferSize cfg" and "list_all act_ok acts"
  shows "case Run CE cfg now ns counter st dst w acts of
      Inl p \<Rightarrow> False
    | Inr (Inl (e, w1)) \<Rightarrow> world_inv w1
    | Inr (Inr s) \<Rightarrow> (\<exists>warn. length warn \<le> 1
        \<and> Snapshot (w_store (c_world s)) = lastn (capacity (w_store w)) (Snapshot (w_store w) @ warn @ c_pushed s))
        \<and> subseq (c_forwarded s) (c_pushed s) \<and> prefix (c_forwarded s) (published (c_loop s))
        \<and> (core_result s \<noteq> None \<and> \<not> c_cancelled s \<longrightarrow> c_forwarded s = published (c_loop s))"
proof -
  obtain r warn where r: "Run CE cfg now ns counter st dst w acts = Inr r" "length warn \<le> 1"
    "case r of Inl (e, w1) \<Rightarrow> world_inv w1
        | Inr s \<Rightarrow> core_inv (Snapshot (w_store w) @ warn) (capacity (w_store w)) s"
    using Run_inv [OF assms, of CE now ns counter st dst] by blast
  show ?thesis
  proof (cases r)
    case (Inl x)
    with r show ?thesis by (cases x) simp
  next
    case (Inr s)
    with r show ?thesis by (auto simp: core_inv_def core_result_def)
  qed
qed

text \<open>
  C6. From the server to the feed: if the turns of the listener deliver a stream of at most as
  many messages as the buffer holds and then end, then under every schedule of the goroutines
  \<open>Run\<close> that returns uncancelled has pushed exactly the changes that the stream means, in
  order, whatever else was pushed in between.
\<close>

theorem run_shows_stream:
  assumes "world_inv w" and "0 < BufferSize cfg" and "list_all act_ok acts"
    and "Run CE cfg now ns counter st dst w acts = Inr (Inr s)"
    and "turns_of acts = ts @ [tend]" and "t_recv tend = ReceiveFailed m"
    and "list_all2 (delivers (co_wire CE)) ts msgs"
    and "XLogDataByteID (co_wire CE) \<noteq> PrimaryKeepaliveMessageByteID (co_wire CE)"
    and "length msgs \<le> nat (BufferSize cfg)"
  shows "c_end s \<noteq> None \<and> (core_result s \<noteq> None \<and> \<not> c_cancelled s \<longrightarrow>
    map change_of (c_forwarded s) = stream_meaning [] msgs \<and> subseq (c_forwarded s) (c_pushed s))"
proof -
  from core_open_inv [OF assms(1,2), of CE now ns counter st dst]
  obtain r st1 dst1 warn where o: "core_open CE cfg now ns counter st dst w = Inr (r, st1, dst1)"
    "case r of Inl (e, w1) \<Rightarrow> world_inv w1
        | Inr s \<Rightarrow> core_inv (Snapshot (w_store w) @ warn) (capacity (w_store w)) s \<and> c_end s = None
            \<and> c_pushed s = [] \<and> l_cache (c_loop s) = NewSchemaCache \<and> published (c_loop s) = []
            \<and> ccap (l_out (c_loop s)) = nat (BufferSize cfg)"
    by blast
  from assms(4) o(1) obtain s0 where s0: "r = Inr s0" "fold_ok (core_step (co_wire CE) (co_ddl CE)) s0 acts = Inr s"
    by (cases r) (auto simp: Run_def and_then_Inr_iff)
  with o(2) have i: "core_inv (Snapshot (w_store w) @ warn) (capacity (w_store w)) s0" "c_end s0 = None"
    "l_cache (c_loop s0) = foldl cache_Update NewSchemaCache []" "published (c_loop s0) = []"
    "ccap (l_out (c_loop s0)) = nat (BufferSize cfg)" by simp_all
  then have "buf (l_out (c_loop s0)) = []" by (simp add: core_inv_def)
  with i(5) assms(9) have room: "length (buf (l_out (c_loop s0))) + length msgs \<le> ccap (l_out (c_loop s0))" by simp
  from steps_stream [OF assms(8,6) s0(2) assms(5,7) i(1) assms(3) i(2,3) room] i(4)
  have "c_end s \<noteq> None" "map change_of (published (c_loop s)) = stream_meaning [] msgs" by simp_all
  moreover have "core_inv (Snapshot (w_store w) @ warn) (capacity (w_store w)) s"
    using core_steps_inv [OF i(1) assms(3), of "co_wire CE" "co_ddl CE"] s0(2) by simp
  ultimately show ?thesis by (auto simp: core_inv_def core_result_def)
qed

text \<open>
  C24. \<open>Run\<close> returns: when the listener has ended, the forwarder, left alone, is done after one
  step more than there are events in the channel.
\<close>

theorem run_returns:
  assumes "world_inv w" and "0 < BufferSize cfg" and "list_all act_ok acts"
    and "Run CE cfg now ns counter st dst w acts = Inr (Inr s)" and "c_end s \<noteq> None"
    and "length (buf (l_out (c_loop s))) < n"
  shows "\<exists>s'. Run CE cfg now ns counter st dst w (acts @ replicate n Forward) = Inr (Inr s') \<and> core_result s' = c_end s"
proof -
  obtain warn where inv: "core_inv (Snapshot (w_store w) @ warn) (capacity (w_store w)) s"
    using Run_inv [OF assms(1-3), of CE now ns counter st dst] assms(4) by auto
  from forward_drains [OF inv assms(5,6), of "co_wire CE" "co_ddl CE"] obtain s' where
    "fold_ok (core_step (co_wire CE) (co_ddl CE)) s (replicate n Forward) = Inr s'" "\<not> c_forward s'" "c_end s' = c_end s" by blast
  with Run_append [OF assms(4), of "replicate n Forward"] show ?thesis by (simp add: core_result_def)
qed

definition demo_core :: "(string list, unit) core_env" where
  "demo_core = \<lparr>co_start = \<lparr>se_connect = (\<lambda>_. Inr (demo_publications ''p'')), se_normal = (\<lambda>_. Inl ''refused''),
       se_url = \<lparr>url_Parse = (\<lambda>_. Inl ''bad''), url_String = RawQuery\<rparr>, se_uni = (\<lambda>_. True)\<rparr>,
     co_ddl_connect = (\<lambda>_. Inl ''refused''), co_ddl = demo_ddl_env, co_wire = demo_wire\<rparr>"

definition demo_cfg :: config where
  "demo_cfg = \<lparr>DBURL = ''u'', Publication = ''p'', Slot = ''s'', BufferSize = 3, LogLevel = ''warn'',
     TrackDDL = True, DDLInstallMode = DDLInstallAuto\<rparr>"

definition demo_core_world :: feed_world where
  "demo_core_world = new_world \<lparr>ring = replicate 3 zero_event, capacity = 3, cursor = 0, count = 0, total = 0, subs = []\<rparr>"

definition demo_schedule :: "core_act list" where
  "demo_schedule = [ListenerTurn (demo_turn (Received (CopyData ''wR''))), Forward,
     ListenerTurn (demo_turn (Received (CopyData ''wI''))), OtherPush zero_event,
     ListenerTurn (demo_turn (ReceiveFailed ''EOF''))]"

lemma demo_core_world_ok: "world_inv demo_core_world"
  unfolding demo_core_world_def by (rule new_world_inv [of 3]) (simp_all add: New_def)

text \<open>What the run of the schedule computes, before and after the forwarder is done.\<close>

lemma demo_core_runs:
  "\<exists>s. Run demo_core demo_cfg zero_time 0 0 [] () demo_core_world demo_schedule = Inr (Inr s)
     \<and> length (buf (l_out (c_loop s))) = 1 \<and> c_end s \<noteq> None"
  "\<exists>s. Run demo_core demo_cfg zero_time 0 0 [] () demo_core_world (demo_schedule @ [Forward, Forward]) = Inr (Inr s)
     \<and> core_result s \<noteq> None \<and> \<not> c_cancelled s"
proof -
  have "case Run demo_core demo_cfg zero_time 0 0 [] () demo_core_world demo_schedule of
      Inr (Inr s) \<Rightarrow> length (buf (l_out (c_loop s))) = 1 \<and> c_end s \<noteq> None | _ \<Rightarrow> False" by code_simp
  then show "\<exists>s. Run demo_core demo_cfg zero_time 0 0 [] () demo_core_world demo_schedule = Inr (Inr s)
     \<and> length (buf (l_out (c_loop s))) = 1 \<and> c_end s \<noteq> None" by (auto split: sum.splits)
  have "case Run demo_core demo_cfg zero_time 0 0 [] () demo_core_world (demo_schedule @ [Forward, Forward]) of
      Inr (Inr s) \<Rightarrow> core_result s \<noteq> None \<and> \<not> c_cancelled s | _ \<Rightarrow> False" by code_simp
  then show "\<exists>s. Run demo_core demo_cfg zero_time 0 0 [] () demo_core_world (demo_schedule @ [Forward, Forward]) = Inr (Inr s)
     \<and> core_result s \<noteq> None \<and> \<not> c_cancelled s" by (auto split: sum.splits)
qed

lemma demo_acts_ok: "list_all act_ok demo_schedule" "list_all act_ok (demo_schedule @ [Forward, Forward])"
  by (simp_all add: demo_schedule_def demo_turn_def)

theorem run_feeds_store_witness:
  "\<exists>s. Run demo_core demo_cfg zero_time 0 0 [] () demo_core_world (demo_schedule @ [Forward, Forward]) = Inr (Inr s)
     \<and> c_forwarded s = published (c_loop s)"
proof -
  obtain s where s: "Run demo_core demo_cfg zero_time 0 0 [] () demo_core_world (demo_schedule @ [Forward, Forward]) = Inr (Inr s)"
    "core_result s \<noteq> None" "\<not> c_cancelled s" using demo_core_runs(2) by blast
  have "0 < BufferSize demo_cfg" by (simp add: demo_cfg_def)
  from run_feeds_store [OF demo_core_world_ok this demo_acts_ok(2), of demo_core zero_time 0 0 "[]" "()"] s show ?thesis by auto
qed

theorem run_shows_stream_witness:
  "\<exists>s. Run demo_core demo_cfg zero_time 0 0 [] () demo_core_world (demo_schedule @ [Forward, Forward]) = Inr (Inr s)
     \<and> map change_of (c_forwarded s) = [(''INSERT'', ''public'', ''orders'', Some [(''id'', StrValue ''42'')], None)]"
proof -
  let ?R = "RelationMessage \<lparr>rel_id = 5, rel_namespace = ''public'', rel_name = ''orders'',
      rel_columns = [\<lparr>rc_flags = 1, rc_name = ''id'', rc_type = 23\<rparr>]\<rparr>"
  let ?I = "InsertMessage 5 (Some [\<lparr>tc_kind = TupleText, tc_data = ''42''\<rparr>])"
  let ?ts = "[demo_turn (Received (CopyData ''wR'')), demo_turn (Received (CopyData ''wI''))]"
  let ?last = "demo_turn (ReceiveFailed ''EOF'')"
  obtain s where s: "Run demo_core demo_cfg zero_time 0 0 [] () demo_core_world (demo_schedule @ [Forward, Forward]) = Inr (Inr s)"
    "core_result s \<noteq> None" "\<not> c_cancelled s" using demo_core_runs(2) by blast
  have hyps: "0 < BufferSize demo_cfg" "turns_of (demo_schedule @ [Forward, Forward]) = ?ts @ [?last]"
    "t_recv ?last = ReceiveFailed ''EOF''" "list_all2 (delivers (co_wire demo_core)) ?ts [?R, ?I]"
    "XLogDataByteID (co_wire demo_core) \<noteq> PrimaryKeepaliveMessageByteID (co_wire demo_core)"
    "length [?R, ?I] \<le> nat (BufferSize demo_cfg)"
    by (simp_all add: demo_cfg_def demo_core_def demo_schedule_def demo_turn_def delivers_def demo_wire_def)
  have "stream_meaning [] [?R, ?I] = [(''INSERT'', ''public'', ''orders'', Some [(''id'', StrValue ''42'')], None)]"
    by (simp add: meaning_def last_relation_def decodeTuple_def cell_value_def column_of_def EventInsert_def)
  with run_shows_stream [OF demo_core_world_ok hyps(1) demo_acts_ok(2) s(1) hyps(2-6)] s show ?thesis by simp
qed

theorem run_returns_witness:
  "\<exists>s. Run demo_core demo_cfg zero_time 0 0 [] () demo_core_world (demo_schedule @ replicate 2 Forward) = Inr (Inr s)
     \<and> core_result s \<noteq> None"
proof -
  obtain s where s: "Run demo_core demo_cfg zero_time 0 0 [] () demo_core_world demo_schedule = Inr (Inr s)"
    "length (buf (l_out (c_loop s))) = 1" "c_end s \<noteq> None" using demo_core_runs(1) by blast
  have "0 < BufferSize demo_cfg" by (simp add: demo_cfg_def)
  moreover have "length (buf (l_out (c_loop s))) < 2" using s(2) by simp
  ultimately show ?thesis
    using run_returns [OF demo_core_world_ok _ demo_acts_ok(1) s(1) s(3), of 2] s(3) by fastforce
qed

text \<open>
  C28. DDL set-up by mode: with \<open>none\<close> nothing is asked of the server; in the other modes a
  set-up that succeeds has found or made both triggers; and \<open>manual\<close> never changes the server.
  What it reports ends, in every case, with the promise to go on.
\<close>

theorem prepareDDL_modes:
  assumes "\<And>u c. connect u = Inr c \<Longrightarrow> event_trigger_server c funs trigs" and "prepareDDL L connect cfg st = (err, st1)"
  shows "(DDLInstallMode cfg = DDLInstallNone \<longrightarrow> err = None \<and> st1 = st)
    \<and> (DDLInstallMode cfg = DDLInstallManual \<longrightarrow> st1 = st)
    \<and> (err = None \<and> DDLInstallMode cfg \<noteq> DDLInstallNone \<longrightarrow> dbwatch_triggers \<subseteq> trigs st1)
    \<and> (\<forall>e. suffix ''Continuing with DML tracking only.'' (ddlSetupHint cfg e))"
proof -
  have s: "suffix ''Continuing with DML tracking only.'' (ddlSetupHint cfg e)" for e
    unfolding ddlSetupHint_def append_assoc [symmetric] suffix_def by blast
  show ?thesis
  proof (cases "DDLInstallMode cfg = DDLInstallNone")
    case True
    with assms(2) s show ?thesis by (simp add: prepareDDL_def DDLInstallManual_def DDLInstallNone_def)
  next
    case False
    show ?thesis
    proof (cases "connect (stripReplication L (DBURL cfg))")
      case (Inl e)
      with assms(2) False s show ?thesis by (auto simp: prepareDDL_def)
    next
      case (Inr c)
      note srv = assms(1) [OF Inr]
      show ?thesis
      proof (cases "IsInstalled c st")
        case (Inl e)
        with assms(2) False Inr s show ?thesis by (auto simp: prepareDDL_def)
      next
        case i: (Inr b)
        show ?thesis
        proof (cases b)
          case True
          with assms(2) False Inr i s IsInstalled_iff [OF srv i] show ?thesis by (auto simp: prepareDDL_def)
        next
          case no: False
          show ?thesis
          proof (cases "DDLInstallMode cfg = DDLInstallManual")
            case True
            with assms(2) False Inr i no s show ?thesis by (auto simp: prepareDDL_def)
          next
            case auto_mode: False
            with assms(2) False Inr i no have "Install c st = (err, st1)" by (simp add: prepareDDL_def)
            with Install_effect [OF srv this] False auto_mode s show ?thesis by (cases err) auto
          qed
        qed
      qed
    qed
  qed
qed

theorem prepareDDL_modes_witness:
  "\<exists>st1. prepareDDL \<lparr>url_Parse = (\<lambda>_. Inl ''bad''), url_String = RawQuery\<rparr> (\<lambda>_. Inr demo_server) demo_cfg (9, {}, {}) = (None, st1)
     \<and> dbwatch_triggers \<subseteq> snd (snd st1)"
proof -
  let ?L = "\<lparr>url_Parse = (\<lambda>_. Inl ''bad''), url_String = RawQuery\<rparr> :: url_lib"
  have d: "dropTriggersSQL \<noteq> installSQL" "createTriggersSQL \<noteq> installSQL" "createTriggersSQL \<noteq> dropTriggersSQL"
    using scripts_distinct by auto
  obtain st1 where p: "prepareDDL ?L (\<lambda>_. Inr demo_server) demo_cfg (9, {}, {}) = (None, st1)"
    by (simp add: prepareDDL_def IsInstalled_def Install_def CheckPrivilege_def demo_server_def demo_cfg_def d
        DDLInstallAuto_def DDLInstallNone_def DDLInstallManual_def)
  have "\<And>u c. Inr demo_server = Inr c \<Longrightarrow> event_trigger_server c (\<lambda>(n, funs, trigs). funs) (\<lambda>(n, funs, trigs). trigs)"
    using demo_server_ok by simp
  from prepareDDL_modes [OF this p] p show ?thesis
    by (cases st1) (simp add: demo_cfg_def DDLInstallAuto_def DDLInstallNone_def)
qed

text \<open>
  A change of the schema clears the position the runner reports: \<open>onEvent\<close> stores the log
  position of every event, and an event of the DDL listener has none.
\<close>

theorem ddl_change_clears_lsn:
  assumes "c_ddl s" and "parsePayload E now raw = Inr e" and "core_step P E s (DdlTurn now (Notification raw)) = Inr s1"
  shows "c_lsn s1 = [] \<and> c_pushed s1 = c_pushed s @ [e]"
proof -
  have "ev_lsn e = []" using assms(2) by (auto simp: parsePayload_def NewDDL_def Let_def split: sum.splits if_splits)
  with assms show ?thesis by (auto simp: core_ddl_def core_push_def and_then_Inr_iff onEvent_def)
qed

definition demo_core_state :: core_state where
  "demo_core_state = \<lparr>c_loop = \<lparr>clientXLogPos = 0, nextAck = 0, l_cache = NewSchemaCache, l_counter = 0,
       l_out = make_chan 1, sent_acks = [], published = []\<rparr>,
     c_end = None, c_world = demo_core_world, c_forward = True, c_cancelled = False, c_ddl = True,
     c_lsn = ''0/1'', c_forwarded = [], c_pushed = []\<rparr>"

theorem ddl_change_clears_lsn_witness:
  "\<exists>s1. core_step demo_wire demo_ddl_env demo_core_state (DdlTurn zero_time (Notification ''DROP'')) = Inr s1
     \<and> c_lsn demo_core_state = ''0/1'' \<and> c_lsn s1 = []"
proof -
  have "trim_space ''DROP'' = ''DROP''" by (rule trim_space_plain; auto simp: byte_def is_space_def)+
  then obtain e where e: "parsePayload demo_ddl_env zero_time ''DROP'' = Inr e"
    by (simp add: demo_ddl_env_def parsePayload_def Let_def)
  obtain w where "Push demo_core_world e = Inr w" using feed.push_ok [OF demo_core_world_ok] by blast
  with e have st: "\<exists>s1. core_step demo_wire demo_ddl_env demo_core_state (DdlTurn zero_time (Notification ''DROP'')) = Inr s1"
    by (simp add: core_ddl_def core_push_def demo_core_state_def)
  then obtain s1 where s1: "core_step demo_wire demo_ddl_env demo_core_state (DdlTurn zero_time (Notification ''DROP'')) = Inr s1" by blast
  have "c_ddl demo_core_state" "c_lsn demo_core_state = ''0/1''" by (simp_all add: demo_core_state_def)
  with ddl_change_clears_lsn [OF _ e s1] s1 show ?thesis by blast
qed

end
