(* ===== verification/Tui_Styles.thy ===== *)
theory Tui_Styles
  imports Go_Strings
begin

text \<open>
  \<open>internal/tui/styles.go\<close>: the styles of the terminal viewer. A style of lipgloss is a record of
  its properties; what lipgloss makes of it, and how wide and high a text is on the screen, is
  the argument record \<open>lipgloss\<close>.
\<close>

type_synonym adaptive_color = "string \<times> string"

datatype lip_border = NoBorder | RightBorder | RoundedBorder

record lip_style =
  ls_fg :: "adaptive_color option"
  ls_bg :: "adaptive_color option"
  ls_bold :: bool
  ls_italic :: bool
  ls_reverse :: bool
  ls_padding :: "int \<times> int"
  ls_border :: lip_border
  ls_border_fg :: "adaptive_color option"
  ls_width :: "int option"
  ls_height :: "int option"

definition NewStyle :: lip_style where
  "NewStyle = \<lparr>ls_fg = None, ls_bg = None, ls_bold = False, ls_italic = False, ls_reverse = False,
     ls_padding = (0, 0), ls_border = NoBorder, ls_border_fg = None, ls_width = None, ls_height = None\<rparr>"

text \<open>Positions are those of lipgloss: \<open>lg_place\<close> centres, \<open>lg_joinH\<close> aligns at the top, \<open>lg_joinV\<close> left.\<close>

record lipgloss =
  lg_render :: "lip_style \<Rightarrow> string \<Rightarrow> string"
  lg_width :: "string \<Rightarrow> int"
  lg_height :: "string \<Rightarrow> int"
  lg_joinH :: "string \<Rightarrow> string \<Rightarrow> string"
  lg_joinV :: "string list \<Rightarrow> string"
  lg_place :: "int \<Rightarrow> int \<Rightarrow> string \<Rightarrow> string"

section \<open>Colours\<close>

definition colorInsert :: adaptive_color where "colorInsert = (''#1a7a1a'', ''#5af078'')"
definition colorUpdate :: adaptive_color where "colorUpdate = (''#7a5a00'', ''#f0c040'')"
definition colorDelete :: adaptive_color where "colorDelete = (''#8a1a1a'', ''#f07070'')"
definition colorDim :: adaptive_color where "colorDim = (''#888888'', ''#555555'')"
definition colorCyan :: adaptive_color where "colorCyan = (''#006b6b'', ''#5af0f0'')"
definition colorOld :: adaptive_color where "colorOld = (''#8a1a1a'', ''#f07070'')"
definition colorNew :: adaptive_color where "colorNew = (''#1a7a1a'', ''#5af078'')"
definition colorBlue :: adaptive_color where "colorBlue = (''#1a3a8a'', ''#7aa0ff'')"
definition colorMarker :: adaptive_color where "colorMarker = (''#5a5a5a'', ''#a0a0a0'')"
definition colorDDL :: adaptive_color where "colorDDL = (''#7a1a8a'', ''#d080f0'')"

section \<open>Styles\<close>

definition foreground :: "adaptive_color \<Rightarrow> lip_style" where
  "foreground c = NewStyle\<lparr>ls_fg := Some c\<rparr>"

definition bold :: "lip_style \<Rightarrow> lip_style" where
  "bold st = st\<lparr>ls_bold := True\<rparr>"

definition styleHeader :: lip_style where "styleHeader = (bold NewStyle)\<lparr>ls_padding := (0, 1)\<rparr>"
definition styleFooter :: lip_style where "styleFooter = (foreground colorDim)\<lparr>ls_padding := (0, 1)\<rparr>"
definition styleInsert :: lip_style where "styleInsert = foreground colorInsert"
definition styleUpdate :: lip_style where "styleUpdate = foreground colorUpdate"
definition styleDelete :: lip_style where "styleDelete = foreground colorDelete"
definition styleTableName :: lip_style where "styleTableName = bold (foreground colorCyan)"
definition styleTimestamp :: lip_style where "styleTimestamp = foreground colorDim"
definition styleDim :: lip_style where "styleDim = foreground colorDim"
definition styleDiffOld :: lip_style where "styleDiffOld = foreground colorOld"
definition styleDiffNew :: lip_style where "styleDiffNew = foreground colorNew"
definition styleCursor :: lip_style where "styleCursor = NewStyle\<lparr>ls_reverse := True\<rparr>"
definition styleSidebar :: lip_style where
  "styleSidebar = NewStyle\<lparr>ls_border := RightBorder, ls_border_fg := Some colorDim, ls_padding := (0, 1)\<rparr>"
definition styleSelected :: lip_style where "styleSelected = bold (foreground colorCyan)"
definition styleMarker :: lip_style where "styleMarker = bold (foreground colorMarker)"
definition styleLog :: lip_style where "styleLog = (foreground colorBlue)\<lparr>ls_italic := True\<rparr>"
definition styleDDL :: lip_style where "styleDDL = bold (foreground colorDDL)"

definition markerColorStyle :: "string \<Rightarrow> lip_style" where
  "markerColorStyle color =
    (if color = ''yellow'' then bold (foreground colorUpdate)
     else if color = ''green'' then bold (foreground colorInsert)
     else if color = ''red'' then bold (foreground colorDelete)
     else if color = ''blue'' then bold (foreground colorBlue)
     else if color = ''dim'' then foreground colorDim
     else styleMarker)"

end
