(* ===== verification/Tui_View.thy ===== *)
theory Tui_View
  imports Tui_App Tui_Styles
begin

text \<open>
  What the terminal viewer draws: \<open>internal/tui/feed.go\<close>, \<open>detail.go\<close> and the views of \<open>app.go\<close>.
  The result is the text handed to Bubble Tea; \<open>L\<close> is what lipgloss does with styled text.
\<close>

section \<open>Values (detail.go)\<close>

text \<open>The verb \<open>%v\<close> of a column value.\<close>

fun fmt_any :: "any_value \<Rightarrow> string" where
  "fmt_any NilValue = ''<nil>''"
| "fmt_any (StrValue s) = s"

definition formatValue :: "lipgloss \<Rightarrow> any_value \<Rightarrow> string" where
  "formatValue L v = (if v = NilValue then lg_render L styleDim ''NULL'' else fmt_any v)"

text \<open>The first key column that has a value; a missing one is the string \<open>?\<close>.\<close>

fun key_value :: "row \<Rightarrow> column list \<Rightarrow> any_value" where
  "key_value vals [] = StrValue ''?''"
| "key_value vals (col # cols) =
     (if col_is_key col then
        (case row_get vals (col_name col) of Some v \<Rightarrow> v | None \<Rightarrow> key_value vals cols)
      else key_value vals cols)"

definition primaryKeyValue :: "event \<Rightarrow> any_value" where
  "primaryKeyValue e = (let vals = (if ev_new e = None then ev_old e else ev_new e) in key_value vals (ev_columns e))"

definition columnNames :: "column list \<Rightarrow> string list" where
  "columnNames cols = map col_name cols"

definition row_keys :: "row \<Rightarrow> string list" where
  "row_keys r = (case r of None \<Rightarrow> [] | Some m \<Rightarrow> map fst m)"

definition allKeys :: "row \<Rightarrow> row \<Rightarrow> string list" where
  "allKeys a b = remdups (row_keys a @ row_keys b)"

definition eventTypeStyle :: "event_type \<Rightarrow> lip_style" where
  "eventTypeStyle t =
    (if t = EventInsert then styleInsert
     else if t = EventUpdate then styleUpdate
     else if t = EventDelete then styleDelete
     else NewStyle)"

section \<open>Details (detail.go)\<close>

definition bar :: "string \<Rightarrow> string \<Rightarrow> string" where
  "bar name v = ''    '' @ pad_right 20 (name @ '':'') @ '' '' @ v"

definition value_line :: "lipgloss \<Rightarrow> row \<Rightarrow> column \<Rightarrow> string" where
  "value_line L vals col = bar (col_name col) (formatValue L (row_index vals (col_name col))) @ nl"

definition renderValues :: "lipgloss \<Rightarrow> row \<Rightarrow> column list \<Rightarrow> string" where
  "renderValues L vals cols = concat (map (value_line L vals) cols)"

definition diff_line :: "lipgloss \<Rightarrow> row \<Rightarrow> row \<Rightarrow> string \<Rightarrow> string" where
  "diff_line L oldVals newVals name =
    (let newV = formatValue L (row_index newVals name);
         oldV = (case row_get oldVals name of Some v \<Rightarrow> formatValue L v | None \<Rightarrow> ''?'')
     in (if oldV = newV then
           bar name (lg_render L styleDim oldV @ ''  '' @ lg_render L styleDim ''[unchanged]'')
         else bar name (lg_render L styleDiffOld oldV @ ''  '' @ arrow @ ''  '' @ lg_render L styleDiffNew newV)) @ nl)"

definition old_values_warning :: string where
  "old_values_warning = ''    '' @ warn_sign @ ''  old values unavailable (set REPLICA IDENTITY FULL on this table)''"

definition renderDiff :: "lipgloss \<Rightarrow> row \<Rightarrow> row \<Rightarrow> column list \<Rightarrow> string" where
  "renderDiff L oldVals newVals cols =
    (let colNames = (if columnNames cols = [] then sort (allKeys oldVals newVals) else columnNames cols)
     in if row_len oldVals = 0 then lg_render L styleDim old_values_warning @ nl @ renderValues L newVals cols
        else concat (map (diff_line L oldVals newVals) colNames))"

definition renderMarkerDetail :: "event \<Rightarrow> string" where
  "renderMarkerDetail e = ''    label: '' @ ev_label e @ nl @ ''    color: '' @ ev_color e @ nl
     @ ''    pushed: '' @ fmt_clock (ev_time e) @ nl"

definition renderLogDetail :: "event \<Rightarrow> string" where
  "renderLogDetail e = ''    message: '' @ ev_message e @ nl @ ''    pushed:  '' @ fmt_clock (ev_time e) @ nl"

definition renderDDLDetail :: "event \<Rightarrow> string" where
  "renderDDLDetail e = ''    command:  '' @ ev_command_tag e @ nl @ ''    object:   '' @ ev_object_type e @ nl
     @ ''    identity: '' @ ev_object_identity e @ nl @ ''    at:       '' @ fmt_clock (ev_time e) @ nl"

definition renderDetail :: "lipgloss \<Rightarrow> event \<Rightarrow> string" where
  "renderDetail L e =
    (if IsMarker e then renderMarkerDetail e
     else if IsLog e then renderLogDetail e
     else if IsDDL e then renderDDLDetail e
     else
       ''  '' @ lg_render L (eventTypeStyle (ev_type e)) (ev_type e) @ '' '' @ lg_render L styleTableName (ev_table e)
       @ '' (id='' @ fmt_any (primaryKeyValue e) @ '')'' @ nl
       @ (if ev_type e = EventInsert then renderValues L (ev_new e) (ev_columns e)
          else if ev_type e = EventDelete then renderValues L (ev_old e) (ev_columns e)
          else if ev_type e = EventUpdate then renderDiff L (ev_old e) (ev_new e) (ev_columns e)
          else []))"

section \<open>Lines of the feed (feed.go)\<close>

text \<open>The limit is in bytes, and the ellipsis has three: \<open>s[:max-1]\<close> is at least one byte short.\<close>

definition tui_truncate :: "string \<Rightarrow> nat \<Rightarrow> string" where
  "tui_truncate s limit = (if length s \<le> limit then s else take (limit - 1) s @ ellipsis)"

text \<open>The loop over the columns of an update.\<close>

fun update_summary :: "lipgloss \<Rightarrow> row \<Rightarrow> row \<Rightarrow> column list \<Rightarrow> string" where
  "update_summary L old new [] = []"
| "update_summary L old new (col # cols) =
     (let newV = formatValue L (row_index new (col_name col))
      in if col_is_key col then update_summary L old new cols
         else if row_len old = 0 then
           col_name col @ '' '' @ lg_render L styleDiffNew (tui_truncate newV 16)
         else
           (let oldV = formatValue L (row_index old (col_name col))
            in if oldV \<noteq> newV then
                 col_name col @ '' '' @ lg_render L styleDiffOld (tui_truncate oldV 12) @ '' '' @ arrow @ '' ''
                   @ lg_render L styleDiffNew (tui_truncate newV 12)
               else update_summary L old new cols))"

definition formatSummary :: "lipgloss \<Rightarrow> event \<Rightarrow> string" where
  "formatSummary L e =
    (if ev_type e = EventInsert \<or> ev_type e = EventDelete then
       (let key = primaryKeyValue e
        in if key \<noteq> StrValue ''?'' then lg_render L styleDim (''id='' @ fmt_any key) else [])
     else if ev_type e = EventUpdate then update_summary L (ev_old e) (ev_new e) (ev_columns e)
     else [])"

definition minDashes :: int where
  "minDashes = 4"

definition formatMarkerLine :: "lipgloss \<Rightarrow> event \<Rightarrow> int \<Rightarrow> string" where
  "formatMarkerLine L e width =
    (let label = (if ev_label e = [] then ''marker'' else ev_label e);
         chrome = 2 + (minDashes + 1) * 2 + int (length label);
         dashCount = (if width - chrome < minDashes then minDashes else width - chrome);
         dashes = concat (replicate (nat (dashCount div 2)) box_dash)
     in ''  '' @ lg_render L (markerColorStyle (ev_color e)) (dashes @ '' '' @ label @ '' '' @ dashes))"

definition formatLogLine :: "lipgloss \<Rightarrow> event \<Rightarrow> string" where
  "formatLogLine L e = ''  '' @ lg_render L styleTimestamp (fmt_clock (ev_time e)) @ ''  ''
     @ lg_render L styleLog ''[log]'' @ ''  '' @ ev_message e"

definition lightning :: string where
  "lightning = [CHR 0xE2, CHR 0x9A, CHR 0xA1]"

definition formatDDLLine :: "lipgloss \<Rightarrow> event \<Rightarrow> string" where
  "formatDDLLine L e = ''  '' @ lg_render L styleTimestamp (fmt_clock (ev_time e)) @ ''  ''
     @ lg_render L styleDDL (pad_right 6 (lightning @ '' DDL'')) @ ''  ''
     @ lg_render L styleDDL (pad_right 13 (ev_command_tag e)) @ ''  '' @ lg_render L styleTableName (ev_object_identity e)"

definition formatFeedLine :: "lipgloss \<Rightarrow> event \<Rightarrow> int \<Rightarrow> string" where
  "formatFeedLine L e width =
    (if IsMarker e then formatMarkerLine L e width
     else if IsLog e then formatLogLine L e
     else if IsDDL e then formatDDLLine L e
     else ''  '' @ lg_render L styleTimestamp (fmt_clock (ev_time e)) @ ''  ''
       @ lg_render L (eventTypeStyle (ev_type e)) (pad_right 6 (ev_type e)) @ ''  ''
       @ lg_render L styleTableName (ev_table e) @ ''  '' @ formatSummary L e)"

text \<open>A negative width of \<open>%-*s\<close> counts without its sign.\<close>

definition feed_entry :: "lipgloss \<Rightarrow> int \<Rightarrow> bool \<Rightarrow> int \<Rightarrow> int \<times> event \<Rightarrow> string" where
  "feed_entry L cursor expanded width p =
    (let line = formatFeedLine L (snd p) width
     in (if fst p = cursor then lg_render L styleCursor (pad_right (nat \<bar>width\<bar>) line) else line) @ nl
        @ (if fst p = cursor \<and> expanded then renderDetail L (snd p) else []))"

definition renderFeed :: "lipgloss \<Rightarrow> event list \<Rightarrow> int \<Rightarrow> bool \<Rightarrow> int \<Rightarrow> string" where
  "renderFeed L events cursor expanded width =
    (if events = [] then lg_render L styleDim ''  Waiting for events...''
     else concat (map (feed_entry L cursor expanded width) (zip (map int [0..<length events]) events)))"

section \<open>The screen (app.go)\<close>

definition bullet :: string where "bullet = [CHR 0xE2, CHR 0x80, CHR 0xA2]"
definition play_sign :: string where "play_sign = [CHR 0xE2, CHR 0x96, CHR 0xB6]"
definition pause_sign :: string where "pause_sign = [CHR 0xE2, CHR 0x8F, CHR 0xB8]"
definition up_arrow :: string where "up_arrow = [CHR 0xE2, CHR 0x86, CHR 0x91]"
definition down_arrow :: string where "down_arrow = [CHR 0xE2, CHR 0x86, CHR 0x93]"

definition headerView :: "lipgloss \<Rightarrow> model \<Rightarrow> string" where
  "headerView L m =
    (let pendingStr = (if length (m_pending m) > 0 then '' ('' @ nat_str (length (m_pending m)) @ '' new)'' else []);
         status = (if m_paused m then lg_render L styleUpdate (pause_sign @ '' paused'' @ pendingStr)
                   else lg_render L styleInsert (play_sign @ '' live''));
         total = nat_str (length (m_all m) + length (m_pending m)) @ '' events'';
         left = '' dbwatch '' @ emdash @ '' '' @ lg_render L styleTableName (m_target m) @ ''  '' @ bullet @ ''  '' @ status
           @ ''  '' @ bullet @ ''  '' @ total;
         right = lg_render L styleTimestamp ''press ? for help '';
         gap = (if m_width m - lg_width L left - lg_width L right < 0 then 0 else m_width m - lg_width L left - lg_width L right)
     in lg_render L (styleHeader\<lparr>ls_width := Some (m_width m), ls_bg := Some (''#e8e8e8'', ''#1a1a2e'')\<rparr>)
          (left @ replicate (nat gap) (CHR '' '') @ right))"

definition footerView :: "lipgloss \<Rightarrow> model \<Rightarrow> string" where
  "footerView L m =
    lg_render L (styleFooter\<lparr>ls_width := Some (m_width m)\<rparr>)
      (if m_focus m = FocusFilter then ''j/k:nav  space:toggle  f/esc:back  q:quit''
       else ''space:pause  j/k:nav  [/]:marker  enter:expand  f:filter  c:clear  q:quit'')"

definition help_text :: string where
  "help_text = nl @ concat (map (\<lambda>l. l @ nl)
    [''  Keybindings'', [],
     ''  Feed'',
     ''    j / '' @ down_arrow @ ''       move down'',
     ''    k / '' @ up_arrow @ ''       move up'',
     ''    g           jump to oldest'',
     ''    G           jump to newest'',
     ''    enter       expand/collapse detail'',
     ''    space       pause / resume'',
     ''    [           jump to previous marker'',
     ''    ]           jump to next marker'',
     ''    M           clear feed up to last marker'', [],
     ''  Filter'',
     ''    f           toggle filter sidebar focus'',
     ''    j/k         navigate tables'',
     ''    space       toggle table visibility'',
     ''    esc / f     back to feed'', [],
     ''  General'',
     ''    c           clear feed (press c again to confirm)'',
     ''    ?           toggle this help'',
     ''    q / Ctrl+C  quit'', [],
     ''  Press any key to close.''])"

definition helpView :: "lipgloss \<Rightarrow> model \<Rightarrow> string" where
  "helpView L m = lg_place L (m_width m) (m_height m)
     (lg_render L (NewStyle\<lparr>ls_border := RoundedBorder, ls_padding := (1, 2)\<rparr>) help_text)"

text \<open>The lines of the feed that are shown: the last ones, all of them when an entry is expanded.\<close>

definition feed_window :: "bool \<Rightarrow> int \<Rightarrow> string \<Rightarrow> string list" where
  "feed_window expanded bodyHeight feedContent =
    (let feedLines = split_on (CHR 0x0A) feedContent;
         start = (if \<not> expanded \<and> int (length feedLines) > bodyHeight then int (length feedLines) - bodyHeight else 0)
     in drop (nat (if start < 0 then 0 else start)) feedLines)"

definition sidebar_styles_of :: "lipgloss \<Rightarrow> sidebar_styles" where
  "sidebar_styles_of L = \<lparr>sb_selected = lg_render L styleSelected, sb_header = lg_render L styleHeader,
     sb_insert = lg_render L styleInsert, sb_dim = lg_render L styleDim\<rparr>"

definition body_height :: "lipgloss \<Rightarrow> model \<Rightarrow> int" where
  "body_height L m =
    (let h = m_height m - lg_height L (headerView L m) - lg_height L (footerView L m) in if h < 1 then 1 else h)"

definition View :: "lipgloss \<Rightarrow> model \<Rightarrow> string" where
  "View L m =
    (if m_width m = 0 then []
     else if m_show_help m then helpView L m
     else
       (let bodyHeight = body_height L m;
            sw = int (sidebarWidth (m_tables m));
            has_tables = (length (m_tables m) > 0);
            sidebar = (if has_tables then
                lg_render L (styleSidebar\<lparr>ls_width := Some sw, ls_height := Some bodyHeight\<rparr>)
                  (renderSidebar (sidebar_styles_of L) (m_tables m) (m_active m) (m_filter_cursor m) (m_focus m = FocusFilter))
              else []);
            feedWidth = (if has_tables then m_width m - sw - 2 else m_width m);
            feedContent = renderFeed L (visibleEvents m) (m_cursor m) (m_expanded m) feedWidth;
            feedTrimmed = join nl (feed_window (m_expanded m) bodyHeight feedContent);
            feedView = lg_render L (NewStyle\<lparr>ls_width := Some feedWidth, ls_height := Some bodyHeight\<rparr>) feedTrimmed;
            body0 = (if has_tables then lg_joinH L sidebar feedView else feedView);
            body = (if m_confirm_clear m then
                lg_place L (m_width m) bodyHeight
                  (lg_render L styleUpdate (''Press '' @ [CHR 0x27] @ ''c'' @ [CHR 0x27] @ '' again to clear, any other key to cancel''))
              else body0)
        in lg_joinV L [headerView L m, body, footerView L m]))"

section \<open>Lemmas\<close>

text \<open>What lipgloss documents of styles without size, padding and border: they keep the lines of a text.\<close>

definition inline :: "lip_style \<Rightarrow> bool" where
  "inline st \<longleftrightarrow> ls_padding st = (0, 0) \<and> ls_border st = NoBorder \<and> ls_width st = None \<and> ls_height st = None"

definition keeps_lines :: "lipgloss \<Rightarrow> bool" where
  "keeps_lines L \<longleftrightarrow> (\<forall>st s. inline st \<longrightarrow> line_count (lg_render L st s) = line_count s)"

lemma keeps_lines_cursor [simp]: "keeps_lines L \<Longrightarrow> line_count (lg_render L styleCursor s) = line_count s"
  by (simp add: keeps_lines_def inline_def styleCursor_def NewStyle_def)

lemma split_on_lines:
  "(\<And>l. l \<in> set ls \<Longrightarrow> CHR 0x0A \<notin> set l) \<Longrightarrow> split_on (CHR 0x0A) (concat (map (\<lambda>l. l @ nl) ls)) = ls @ [[]]"
  by (induction ls) (simp_all add: nl_def split_on_append)

text \<open>The lines of an unexpanded feed, with the cursor's line padded and reversed.\<close>

definition feed_line :: "lipgloss \<Rightarrow> int \<Rightarrow> int \<Rightarrow> int \<times> event \<Rightarrow> string" where
  "feed_line L cursor width p =
    (let line = formatFeedLine L (snd p) width
     in if fst p = cursor then lg_render L styleCursor (pad_right (nat \<bar>width\<bar>) line) else line)"

definition feed_lines :: "lipgloss \<Rightarrow> int \<Rightarrow> int \<Rightarrow> event list \<Rightarrow> string list" where
  "feed_lines L cursor width events = map (feed_line L cursor width) (zip (map int [0..<length events]) events)"

lemma length_feed_lines [simp]: "length (feed_lines L cursor width events) = length events"
  by (simp add: feed_lines_def)

lemma renderFeed_lines:
  "events \<noteq> [] \<Longrightarrow> renderFeed L events cursor False width = concat (map (\<lambda>l. l @ nl) (feed_lines L cursor width events))"
proof -
  have "feed_entry L cursor False width = (\<lambda>p. feed_line L cursor width p @ nl)"
    by (rule ext) (simp add: feed_entry_def feed_line_def Let_def)
  then show "events \<noteq> [] \<Longrightarrow> ?thesis" by (simp add: renderFeed_def feed_lines_def comp_def)
qed

lemma feed_lines_single:
  assumes "keeps_lines L" and "\<And>e. e \<in> set events \<Longrightarrow> line_count (formatFeedLine L e width) = 0"
    and "l \<in> set (feed_lines L cursor width events)"
  shows "CHR 0x0A \<notin> set l"
proof -
  from assms(3) obtain i e where "e \<in> set events" "l = feed_line L cursor width (i, e)"
    by (auto simp: feed_lines_def dest: set_zip_rightD)
  with assms(1,2) have "line_count l = 0" by (simp add: feed_line_def Let_def)
  then show ?thesis by (simp add: line_count_0_iff)
qed

lemma take_feed_window:
  assumes "events \<noteq> []" and "1 \<le> h" and "keeps_lines L"
    and "\<And>e. e \<in> set events \<Longrightarrow> line_count (formatFeedLine L e width) = 0"
  shows "feed_window False h (renderFeed L events cursor False width)
    = lastn (nat (h - 1)) (feed_lines L cursor width events) @ [[]]"
proof -
  let ?ls = "feed_lines L cursor width events" and ?n = "length events"
  have "split_on (CHR 0x0A) (renderFeed L events cursor False width) = ?ls @ [[]]"
    using feed_lines_single [OF assms(3,4)] by (subst renderFeed_lines [OF assms(1)]) (rule split_on_lines)
  then have "feed_window False h (renderFeed L events cursor False width)
      = drop (nat (if int (?n + 1) > h then int (?n + 1) - h else 0)) (?ls @ [[]])"
    by (simp add: feed_window_def Let_def)
  moreover have "nat (if int (?n + 1) > h then int (?n + 1) - h else 0) = ?n - nat (h - 1)"
    using assms(2) by auto
  ultimately show ?thesis using assms(2) by (simp add: lastn_def)
qed

lemma rune_count_box_dash: "rune_count (box_dash @ s) = Suc (rune_count s)"
proof -
  have "byte CHR 0xE2 = 0xE2" "byte CHR 0x94 = 0x94" "byte CHR 0x80 = 0x80" by code_simp+
  then have "decode_rune (box_dash @ s) = (0x2500, 3)" by (simp add: box_dash_def cont_def)
  then show ?thesis unfolding rune_count_def by (subst runes.simps) (simp add: box_dash_def eval_nat_numeral)
qed

lemma rune_count_space [simp]: "rune_count (CHR '' '' # s) = Suc (rune_count s)"
proof -
  have "byte CHR '' '' < 128" by code_simp
  then show ?thesis by (rule rune_count_ascii)
qed

lemma rune_count_dashes: "rune_count (concat (replicate n box_dash) @ s) = n + rune_count s"
  by (induction n) (simp_all add: rune_count_box_dash)

lemma rune_count_ascii_append:
  "(\<And>c. c \<in> set s \<Longrightarrow> byte c < 128) \<Longrightarrow> rune_count (s @ t) = length s + rune_count t"
  by (induction s) (simp_all add: rune_count_ascii)

lemma feed_lines_nth:
  "i < length events \<Longrightarrow> feed_lines L cursor width events ! i = feed_line L cursor width (int i, events ! i)"
  by (simp add: feed_lines_def)

section \<open>Properties\<close>

text \<open>
  C13. What the terminal shows of the feed: if no entry is expanded, the feed is not empty, every
  event is rendered in one line, styling keeps the number of lines, and the body has \<open>h \<ge> 1\<close> lines, the window holds the
  lines of the newest \<open>h - 1\<close> events (of all, if there are fewer), in order, and then an empty
  line. The cursor does not move the window: if it is further up, at least \<open>h\<close> entries above the
  end, the window holds the newest \<open>h - 1\<close> events without a mark.
\<close>

theorem window_shows_newest:
  assumes "keeps_lines L" and "\<And>e. e \<in> set events \<Longrightarrow> line_count (formatFeedLine L e width) = 0"
    and "events \<noteq> []" and "1 \<le> h"
  shows "feed_window False h (renderFeed L events cursor False width)
      = lastn (nat (h - 1)) (feed_lines L cursor width events) @ [[]]
    \<and> (cursor + h \<le> int (length events) \<longrightarrow>
        feed_window False h (renderFeed L events cursor False width)
          = map (\<lambda>e. formatFeedLine L e width) (lastn (nat (h - 1)) events) @ [[]])"
proof -
  let ?n = "length events"
  have w: "feed_window False h (renderFeed L events cursor False width)
      = lastn (nat (h - 1)) (feed_lines L cursor width events) @ [[]]"
    by (rule take_feed_window [OF assms(3,4,1,2)])
  have "lastn (nat (h - 1)) (feed_lines L cursor width events) = map (\<lambda>e. formatFeedLine L e width) (lastn (nat (h - 1)) events)"
    if "cursor + h \<le> int ?n"
  proof (rule nth_equalityI)
    fix i
    assume "i < length (lastn (nat (h - 1)) (feed_lines L cursor width events))"
    then have i: "?n - nat (h - 1) + i < ?n" by (simp add: lastn_def)
    with that assms(4) have "int (?n - nat (h - 1) + i) \<noteq> cursor" by linarith
    moreover have "lastn (nat (h - 1)) xs ! i = xs ! (?n - nat (h - 1) + i)" if "length xs = ?n" for xs :: "'b list"
      using that by (simp add: lastn_def)
    ultimately show "lastn (nat (h - 1)) (feed_lines L cursor width events) ! i
        = map (\<lambda>e. formatFeedLine L e width) (lastn (nat (h - 1)) events) ! i"
      using i by (simp add: lastn_def feed_lines_nth feed_line_def nth_map [of _ "drop _ _"] drop_map [symmetric] del: drop_map)
  qed simp
  with w show ?thesis by simp
qed

definition plain_lip :: lipgloss where
  "plain_lip = \<lparr>lg_render = (\<lambda>_ s. s), lg_width = (\<lambda>s. int (rune_count s)), lg_height = (\<lambda>s. int (line_count s) + 1),
     lg_joinH = (\<lambda>a b. a @ b), lg_joinV = (\<lambda>ss. join nl ss), lg_place = (\<lambda>_ _ s. s)\<rparr>"

lemma plain_lip_keeps: "keeps_lines plain_lip"
  by (simp add: keeps_lines_def plain_lip_def)

theorem window_shows_newest_witness:
  "feed_window False 2 (renderFeed plain_lip [NewLog zero_time ''a'', NewLog zero_time ''b''] 0 False 80)
     = [''  00:00:00.000  [log]  b'', []]"
proof -
  let ?es = "[NewLog zero_time ''a'', NewLog zero_time ''b'']"
  have c: "fmt_clock zero_time = ''00:00:00.000''" by code_simp
  have f: "formatFeedLine plain_lip (NewLog zero_time m) 80 = ''  00:00:00.000  [log]  '' @ m" for m
    using kinds_disjoint(1) [of "NewLog zero_time m"] c by (simp add: formatFeedLine_def formatLogLine_def plain_lip_def)
  have l: "\<And>e. e \<in> set ?es \<Longrightarrow> line_count (formatFeedLine plain_lip e 80) = 0"
    by (auto simp: f)
  have "feed_window False 2 (renderFeed plain_lip ?es 0 False 80)
      = map (\<lambda>e. formatFeedLine plain_lip e 80) (lastn (nat (2 - 1)) ?es) @ [[]]"
    by (rule mp [OF conjunct2 [OF window_shows_newest [of plain_lip ?es 80 2 0, OF plain_lip_keeps l]]]) simp_all
  then show ?thesis by (simp add: f lastn_def)
qed

text \<open>
  The summary of an update names the first column outside the key whose shown value changed,
  with its old and its new value, and is empty exactly when there is none, provided the row
  carries old values (and no column has an empty name).
\<close>

definition changed_column :: "lipgloss \<Rightarrow> event \<Rightarrow> column \<Rightarrow> bool" where
  "changed_column L e col \<longleftrightarrow> \<not> col_is_key col
     \<and> formatValue L (row_index (ev_old e) (col_name col)) \<noteq> formatValue L (row_index (ev_new e) (col_name col))"

theorem update_summary_first_change:
  assumes "ev_type e = EventUpdate" and "row_len (ev_old e) \<noteq> 0"
  shows "formatSummary L e =
    (case find (changed_column L e) (ev_columns e) of
       None \<Rightarrow> []
     | Some col \<Rightarrow> col_name col
         @ '' '' @ lg_render L styleDiffOld (tui_truncate (formatValue L (row_index (ev_old e) (col_name col))) 12)
         @ '' '' @ arrow @ '' '' @ lg_render L styleDiffNew (tui_truncate (formatValue L (row_index (ev_new e) (col_name col))) 12))"
proof -
  have "update_summary L (ev_old e) (ev_new e) cols =
    (case find (changed_column L e) cols of
       None \<Rightarrow> []
     | Some col \<Rightarrow> col_name col
         @ '' '' @ lg_render L styleDiffOld (tui_truncate (formatValue L (row_index (ev_old e) (col_name col))) 12)
         @ '' '' @ arrow @ '' '' @ lg_render L styleDiffNew (tui_truncate (formatValue L (row_index (ev_new e) (col_name col))) 12))" for cols
    using assms(2) by (induction cols) (simp_all add: changed_column_def Let_def)
  with assms(1) show ?thesis by (simp add: formatSummary_def event_type_defs)
qed

definition demo_update :: event where
  "demo_update = zero_event\<lparr>ev_type := EventUpdate,
     ev_columns := [\<lparr>col_name = ''id'', col_type = [], col_is_key = True\<rparr>,
       \<lparr>col_name = ''a'', col_type = [], col_is_key = False\<rparr>, \<lparr>col_name = ''b'', col_type = [], col_is_key = False\<rparr>],
     ev_old := Some [(''id'', StrValue ''1''), (''a'', StrValue ''x''), (''b'', NilValue)],
     ev_new := Some [(''id'', StrValue ''2''), (''a'', StrValue ''x''), (''b'', StrValue ''y'')]\<rparr>"

theorem update_summary_first_change_witness:
  "formatSummary plain_lip demo_update = ''b NULL '' @ arrow @ '' y''"
proof -
  have "find (changed_column plain_lip demo_update) (ev_columns demo_update)
      = Some \<lparr>col_name = ''b'', col_type = [], col_is_key = False\<rparr>" by code_simp
  with update_summary_first_change [of demo_update plain_lip] show ?thesis
    by (simp add: demo_update_def zero_event_def row_len_def row_index_def row_get_def formatValue_def plain_lip_def tui_truncate_def)
qed

text \<open>
  A marker does not fill the width of the feed: the line of a marker with an ASCII label that
  fits is eight columns short of it, nine where the parities differ.
\<close>

theorem marker_line_short:
  assumes "ev_label e \<noteq> []" and "\<And>c. c \<in> set (ev_label e) \<Longrightarrow> byte c < 128"
    and "int (length (ev_label e)) + 16 \<le> width"
  shows "\<exists>body. formatMarkerLine L e width = ''  '' @ lg_render L (markerColorStyle (ev_color e)) body
    \<and> int (rune_count (''  '' @ body)) = width - 8 - (width - int (length (ev_label e))) mod 2"
proof -
  let ?n = "nat ((width - (12 + int (length (ev_label e)))) div 2)"
  let ?d = "concat (replicate ?n box_dash)"
  let ?body = "?d @ '' '' @ ev_label e @ '' '' @ ?d"
  have "formatMarkerLine L e width = ''  '' @ lg_render L (markerColorStyle (ev_color e)) ?body"
    using assms(1,3) by (simp add: formatMarkerLine_def minDashes_def Let_def)
  moreover have "rune_count ?body = 2 * ?n + 2 + length (ev_label e)"
    using rune_count_dashes [of ?n "[]"] rune_count_ascii_append [of "ev_label e", OF assms(2)]
    by (simp add: rune_count_dashes)
  then have "int (rune_count (''  '' @ ?body)) = width - 8 - (width - int (length (ev_label e))) mod 2"
    using assms(3) by simp presburger
  ultimately show ?thesis by blast
qed

theorem marker_line_short_witness:
  "\<exists>body. formatMarkerLine plain_lip (zero_event\<lparr>ev_label := ''start''\<rparr>) 80 = ''  '' @ body
     \<and> rune_count (''  '' @ body) = 71"
proof -
  let ?e = "zero_event\<lparr>ev_label := ''start''\<rparr>"
  have "list_all (\<lambda>c. byte c < 128) ''start''" by code_simp
  then have a: "\<And>c. c \<in> set (ev_label ?e) \<Longrightarrow> byte c < 128" by (auto simp: list_all_iff)
  have "\<exists>body. formatMarkerLine plain_lip ?e 80 = ''  '' @ lg_render plain_lip (markerColorStyle (ev_color ?e)) body
      \<and> int (rune_count (''  '' @ body)) = 80 - 8 - (80 - int (length (ev_label ?e))) mod 2"
    by (rule marker_line_short [OF _ a]) simp_all
  then show ?thesis by (simp add: plain_lip_def)
qed

end
