(* ===== verification/Tail_Source.thy ===== *)
theory Tail_Source
  imports Core_Run Tui_App
begin

text \<open>
  The source of \<open>dbwatch tail\<close>: the goroutine of \<open>cmd/dbwatch/main.go\<close> that runs \<open>core.Run\<close> over the
  store, next to everything else that pushes. An action is a step of one of its goroutines, a push
  by others (the marker API) or the interrupt; \<open>Run\<close> may open at any point of the sequence.
\<close>

section \<open>Steps\<close>

definition loop_error_text :: "loop_error \<Rightarrow> string" where
  "loop_error_text e =
    (case e of
       SendStatusError m \<Rightarrow> ''send standby status: '' @ m
     | ReceiveError m \<Rightarrow> ''receive message: '' @ m
     | KeepaliveError m \<Rightarrow> ''parse keepalive: '' @ m
     | XLogError m \<Rightarrow> ''parse xlog data: '' @ m
     | ServerError m \<Rightarrow> m)"

datatype core_phase = CoreStarting | CoreFailed string | CoreRunning core_state

record tail_source =
  src_phase :: core_phase
  src_cancelled :: bool

text \<open>What surrounds the process: the servers, the clock and the counter of identifiers.\<close>

record ('s, 'd) tail_env =
  te_core :: "('s, 'd) core_env"
  te_now :: go_time
  te_ns :: int
  te_counter :: "64 word"
  te_server :: 's
  te_ddl :: 'd

datatype source_act = SourceOpens | SourceStep core_act | AnyPush event | Interrupt

definition own_act :: "core_act \<Rightarrow> bool" where
  "own_act a \<longleftrightarrow> (case a of OtherPush _ \<Rightarrow> False | Cancel \<Rightarrow> False | _ \<Rightarrow> True)"

text \<open>A step of the running core on the store as the others have left it.\<close>

definition core_in :: "('s, 'd) tail_env \<Rightarrow> tail_source \<Rightarrow> core_state \<Rightarrow> feed_world \<Rightarrow> core_act
    \<Rightarrow> go_panic + (tail_source \<times> feed_world)" where
  "core_in TE src s w a =
    and_then (core_step (co_wire (te_core TE)) (co_ddl (te_core TE)) (s\<lparr>c_world := w\<rparr>) a) (\<lambda>s1.
      Inr (src\<lparr>src_phase := CoreRunning s1\<rparr>, c_world s1))"

text \<open>
  When the set-up of the listener fails \<open>Run\<close> ends; what a DDL listener that outlives it pushes is
  then a push by others.
\<close>

definition source_opens :: "('s, 'd) tail_env \<Rightarrow> config \<Rightarrow> tail_source \<Rightarrow> feed_world
    \<Rightarrow> go_panic + (tail_source \<times> feed_world)" where
  "source_opens TE cfg src w =
    and_then (core_open (te_core TE) cfg (te_now TE) (te_ns TE) (te_counter TE) (te_server TE) (te_ddl TE) w)
      (\<lambda>(r, st1, dst1).
        case r of
          Inl (e, w1) \<Rightarrow> Inr (src\<lparr>src_phase := CoreFailed e\<rparr>, w1)
        | Inr s \<Rightarrow> Inr (src\<lparr>src_phase := CoreRunning (s\<lparr>c_cancelled := src_cancelled src\<rparr>)\<rparr>, c_world s))"

fun source_step :: "('s, 'd) tail_env \<Rightarrow> config \<Rightarrow> tail_source \<times> feed_world \<Rightarrow> source_act
    \<Rightarrow> go_panic + (tail_source \<times> feed_world)" where
  "source_step TE cfg (src, w) SourceOpens =
     (if src_phase src = CoreStarting then source_opens TE cfg src w else Inr (src, w))"
| "source_step TE cfg (src, w) (SourceStep a) =
     (case src_phase src of
        CoreRunning s \<Rightarrow> if own_act a then core_in TE src s w a else Inr (src, w)
      | _ \<Rightarrow> Inr (src, w))"
| "source_step TE cfg (src, w) (AnyPush e) =
     (case src_phase src of
        CoreRunning s \<Rightarrow> core_in TE src s w (OtherPush e)
      | _ \<Rightarrow> and_then (Push w e) (\<lambda>w1. Inr (src, w1)))"
| "source_step TE cfg (src, w) Interrupt =
     Inr (src\<lparr>src_cancelled := True,
       src_phase := (case src_phase src of CoreRunning s \<Rightarrow> CoreRunning (s\<lparr>c_cancelled := True\<rparr>) | p \<Rightarrow> p)\<rparr>, w)"

text \<open>What the goroutine puts into \<open>sourceErr\<close>, once \<open>Run\<close> has returned.\<close>

definition source_result :: "tail_source \<Rightarrow> string option option" where
  "source_result src =
    (case src_phase src of
       CoreStarting \<Rightarrow> None
     | CoreFailed e \<Rightarrow> Some (Some e)
     | CoreRunning s \<Rightarrow> map_option (map_option loop_error_text) (core_result s))"

section \<open>Steps of the core on another store\<close>

text \<open>
  Others change the store between two steps of the core. This does not matter to the core: from any
  sound store it takes the same step.
\<close>

lemma core_step_other_world:
  assumes "core_step P E s a = Inr s'" and "world_inv w"
  shows "\<exists>w'. core_step P E (s\<lparr>c_world := w\<rparr>) a = Inr (s'\<lparr>c_world := w'\<rparr>) \<and> world_inv w'"
proof -
  have push: "\<exists>w'. core_push (t\<lparr>c_world := w\<rparr>) e = Inr (t'\<lparr>c_world := w'\<rparr>) \<and> world_inv w'"
    if "core_push t e = Inr t'" for t t' e
  proof -
    obtain w' where w': "Push w e = Inr w'" "world_inv w'"
      using feed.push_ok [OF assms(2), of e] feed.push_keeps [OF assms(2), of e] by blast
    with that show ?thesis by (intro exI [of _ w']) (auto simp: core_push_def and_then_Inr_iff)
  qed
  have same: ?thesis if "core_step P E (s\<lparr>c_world := w\<rparr>) a = Inr (s'\<lparr>c_world := w\<rparr>)"
    using that assms(2) by blast
  show ?thesis
  proof (cases a)
    case (ListenerTurn t)
    with assms show ?thesis
      by (intro same)
        (auto simp: core_listener_def and_then_Inr_iff split: if_splits turn_result.splits)
  next
    case Forward
    show ?thesis
    proof (cases "c_forward s \<and> (\<exists>e c. recv (l_out (c_loop s)) = (Got e, c))")
      case True
      then obtain e c where f: "c_forward s" "recv (l_out (c_loop s)) = (Got e, c)" by blast
      let ?t = "s\<lparr>c_loop := (c_loop s)\<lparr>l_out := c\<rparr>\<rparr>"
      from assms(1) Forward f obtain t1 where t1: "core_push ?t e = Inr t1"
        "s' = onEvent e (t1\<lparr>c_forwarded := c_forwarded t1 @ [e]\<rparr>)"
        by (auto simp: core_forward_def and_then_Inr_iff)
      from push [OF t1(1)] obtain w' where w': "core_push (?t\<lparr>c_world := w\<rparr>) e = Inr (t1\<lparr>c_world := w'\<rparr>)" "world_inv w'"
        by blast
      have swap: "(s\<lparr>c_world := w\<rparr>)\<lparr>c_loop := (c_loop s)\<lparr>l_out := c\<rparr>\<rparr> = ?t\<lparr>c_world := w\<rparr>" by simp
      have "core_step P E (s\<lparr>c_world := w\<rparr>) a = Inr (s'\<lparr>c_world := w'\<rparr>)"
        using f Forward w' t1(2) by (simp add: core_forward_def swap onEvent_def)
      with w'(2) show ?thesis by blast
    next
      case False
      with assms Forward show ?thesis by (intro same) (auto simp: core_forward_def split: received.splits prod.splits)
    qed
  next
    case (DdlTurn now x)
    show ?thesis
    proof (cases "c_ddl s \<and> (\<exists>p e. x = Notification p \<and> parsePayload E now p = Inr e)")
      case True
      then obtain p e where f: "c_ddl s" "x = Notification p" "parsePayload E now p = Inr e" by blast
      from assms(1) DdlTurn f obtain t1 where t1: "core_push s e = Inr t1" "s' = (onEvent e t1)\<lparr>c_ddl := True\<rparr>"
        by (auto simp: core_ddl_def and_then_Inr_iff)
      from push [OF t1(1)] obtain w' where w': "core_push (s\<lparr>c_world := w\<rparr>) e = Inr (t1\<lparr>c_world := w'\<rparr>)" "world_inv w'"
        by blast
      then have "core_step P E (s\<lparr>c_world := w\<rparr>) a = Inr (s'\<lparr>c_world := w'\<rparr>)"
        using f DdlTurn t1(2) by (simp add: core_ddl_def onEvent_def)
      with w'(2) show ?thesis by blast
    next
      case False
      with assms DdlTurn show ?thesis by (intro same) (cases x; auto simp: core_ddl_def split: sum.splits)
    qed
  next
    case (OtherPush e)
    with push [of s e s'] assms(1) show ?thesis by auto
  next
    case ForwardSeesCancel
    with assms(1) show ?thesis by (intro same) (auto split: if_splits)
  next
    case Cancel
    with assms(1) show ?thesis by (intro same) auto
  qed
qed

text \<open>A turn of the DDL listener pushes at most one event.\<close>

lemma core_ddl_cases:
  assumes "core_ddl E now x s = Inr s'"
  obtains (quiet) b where "s' = s\<lparr>c_ddl := b\<rparr>" "c_ddl s \<or> \<not> b"
    | (event) e s1 where "c_ddl s" "core_push s e = Inr s1" "s' = (onEvent e s1)\<lparr>c_ddl := True\<rparr>" "IsDDL e"
proof (cases "c_ddl s")
  case False
  with assms have "s' = s\<lparr>c_ddl := False\<rparr>" by (simp add: core_ddl_def)
  then show ?thesis by (rule quiet) simp
next
  case True
  show ?thesis
  proof (cases x)
    case (WaitFailed e d)
    with assms True show ?thesis by (intro quiet [of False]) (auto simp: core_ddl_def split: if_splits)
  next
    case (Notification payload)
    show ?thesis
    proof (cases "parsePayload E now payload")
      case (Inl perr)
      with assms True Notification show ?thesis by (intro quiet [of True]) (auto simp: core_ddl_def)
    next
      case (Inr e)
      with assms True Notification obtain s1 where "core_push s e = Inr s1" "s' = (onEvent e s1)\<lparr>c_ddl := True\<rparr>"
        by (auto simp: core_ddl_def and_then_Inr_iff)
      with True Inr show ?thesis by (intro event [of e s1]) (auto dest: payload_events_ddl)
    qed
  qed
qed

text \<open>What a step does to the store is a sequence of pushes, which it logs.\<close>

lemma core_step_pushes:
  assumes "core_step P E s a = Inr s'"
  shows "\<exists>ps. c_pushed s' = c_pushed s @ ps \<and> fold_ok Push (c_world s) ps = Inr (c_world s')"
proof -
  have none: "\<exists>ps. c_pushed s' = c_pushed s @ ps \<and> fold_ok Push (c_world s) ps = Inr (c_world s')"
    if "c_pushed s' = c_pushed s" "c_world s' = c_world s" using that by (intro exI [of _ "[]"]) simp
  have one: "\<exists>ps. c_pushed s' = c_pushed s @ ps \<and> fold_ok Push (c_world s) ps = Inr (c_world s')"
    if "c_pushed s' = c_pushed s @ [e]" "Push (c_world s) e = Inr (c_world s')" for e
    using that by (intro exI [of _ "[e]"]) simp
  show ?thesis
  proof (cases a)
    case (DdlTurn now x)
    with assms have "core_ddl E now x s = Inr s'" by simp
    then show ?thesis
    proof (cases rule: core_ddl_cases)
      case (event e s1)
      with one show ?thesis by (auto simp: core_push_def onEvent_def and_then_Inr_iff)
    qed (use none in simp)
  qed (use assms none one in \<open>auto simp: core_listener_def core_forward_def core_push_def onEvent_def and_then_Inr_iff
        split: if_splits turn_result.splits received.splits prod.splits\<close>)
qed

text \<open>Alone, the core pushes nothing but what the forwarder takes from the listener.\<close>

lemma core_step_alone:
  assumes "core_step P E s a = Inr s'" and "own_act a" and "\<not> c_ddl s" and "c_pushed s = c_forwarded s"
  shows "\<not> c_ddl s' \<and> c_pushed s' = c_forwarded s'"
  using assms
  by (cases a) (auto simp: own_act_def core_listener_def core_forward_def core_ddl_def core_push_def onEvent_def
      and_then_Inr_iff split: if_splits turn_result.splits received.splits prod.splits)

lemma core_step_cancelled:
  assumes "core_step P E s a = Inr s'" and "a \<noteq> Cancel"
  shows "c_cancelled s' = c_cancelled s"
proof (cases a)
  case (DdlTurn now x)
  with assms have "core_ddl E now x s = Inr s'" by simp
  then show ?thesis
    by (cases rule: core_ddl_cases) (auto simp: core_push_def onEvent_def and_then_Inr_iff)
qed (use assms in \<open>auto simp: core_listener_def core_forward_def core_push_def onEvent_def and_then_Inr_iff
        split: if_splits turn_result.splits received.splits prod.splits\<close>)

section \<open>Named events\<close>

text \<open>
  Relations have names, so the changes that the decoder makes name their table, which the terminal
  viewer relies on.
\<close>

definition wire_named :: "pglogrepl \<Rightarrow> bool" where
  "wire_named P \<longleftrightarrow> (\<forall>d rel. Parse P d = Inr (RelationMessage rel) \<longrightarrow> rel_name rel \<noteq> [])"

definition loop_named :: "loop_state \<Rightarrow> bool" where
  "loop_named st \<longleftrightarrow> (\<forall>oid meta. cache_Get (l_cache st) oid = Some meta \<longrightarrow> tm_table meta \<noteq> [])
     \<and> list_all named_event (buf (l_out st))"

lemma loop_named_same: "loop_named st \<Longrightarrow> l_cache st' = l_cache st \<Longrightarrow> l_out st' = l_out st \<Longrightarrow> loop_named st'"
  by (simp add: loop_named_def)

lemma handle_logical_named:
  assumes "handle_logical P stamp w msg st = Inr st'" and "loop_named st"
    and "\<And>rel. msg = RelationMessage rel \<Longrightarrow> rel_name rel \<noteq> []"
  shows "loop_named st'"
proof -
  let ?c = "case msg of RelationMessage rel \<Rightarrow> cache_Update (l_cache st) rel | _ \<Rightarrow> l_cache st"
  have c: "tm_table meta \<noteq> []" if "cache_Get ?c oid = Some meta" for oid meta
    using that assms(2,3)
    by (cases msg) (auto simp: loop_named_def schema_cache.get_update metadata_of_def split: if_splits)
  obtain r n where d: "DecodeMessage stamp (l_counter st) msg ?c = (r, n)" by fastforce
  show ?thesis
  proof (cases "\<exists>e. r = Inr (Some e)")
    case False
    with assms(1,2) d c show ?thesis
      by (auto simp: handle_logical_def Let_def loop_named_def split: sum.splits option.splits)
  next
    case True
    then obtain e where e: "r = Inr (Some e)" by blast
    from d e obtain rel meta where "cache_Get ?c rel = Some meta" "ev_table e = tm_table meta"
      by (auto simp: DecodeMessage_event dest: newEvent_fields)
    with c have "ev_table e \<noteq> []" by simp
    then have n: "named_event (e\<lparr>ev_lsn := LSN_String P w\<rparr>)" by (simp add: named_event_def)
    from assms(1) d e obtain b ch where "try_send (e\<lparr>ev_lsn := LSN_String P w\<rparr>) (l_out st) = Inr (b, ch)"
      "l_out st' = ch" "l_cache st' = ?c" by (auto simp: handle_logical_def Let_def and_then_Inr_iff)
    with try_send_result [of _ "l_out st" b ch] assms(2) c n show ?thesis by (auto simp: loop_named_def)
  qed
qed

lemma send_named: "sendStandbyStatus err st = Inr st' \<Longrightarrow> loop_named st \<Longrightarrow> loop_named (st'\<lparr>nextAck := n\<rparr>)"
  by (auto simp: sendStandbyStatus_def loop_named_def split: option.splits)

lemma handle_recv_named:
  assumes "result_state (handle_recv P t st) = Some st'" and "loop_named st" and "wire_named P"
  shows "loop_named st'"
proof -
  have l: "loop_named s" if "handle_logical P stamp w msg st = Inr s" "Parse P d = Inr msg" for stamp w msg s d
    using handle_logical_named [OF that(1) assms(2)] that(2) assms(3) by (auto simp: wire_named_def)
  show ?thesis using assms(1,2)
    by (auto simp: handle_recv_def handle_copy_data_def intro: send_named l
      split: recv_result.splits backend_message.splits sum.splits if_splits list.splits)
qed

lemma loop_turn_named:
  assumes "result_state (loop_turn P t st) = Some st'" and "loop_named st" and "wire_named P"
  shows "loop_named st'"
proof -
  have "loop_named (take_out (t_taken t) st)"
    using assms(2) by (auto simp: loop_named_def take_out_def list_all_iff dest: in_set_dropD)
  with assms(1,3) show ?thesis
    by (auto simp: loop_turn_def Let_def intro: send_named handle_recv_named split: if_splits sum.splits)
qed

text \<open>So the core pushes only named events, if the others do.\<close>

lemma core_step_named:
  assumes "core_step P E s a = Inr s'" and "loop_named (c_loop s)" and "wire_named P"
    and "\<And>e. a = OtherPush e \<Longrightarrow> named_event e" and "c_pushed s' = c_pushed s @ ps"
  shows "loop_named (c_loop s') \<and> list_all named_event ps"
proof (cases a)
  case (ListenerTurn t)
  show ?thesis
  proof (cases "c_end s")
    case None
    let ?r = "loop_turn P (t\<lparr>t_taken := 0\<rparr>) (c_loop s)"
    from None ListenerTurn assms(1) obtain st where "result_state ?r = Some st"
      "l_cache (c_loop s') = l_cache st" "buf (l_out (c_loop s')) = buf (l_out st)" "c_pushed s' = c_pushed s"
      by (auto simp: core_listener_def and_then_Inr_iff close_chan_def split: turn_result.splits if_splits)
    with loop_turn_named [OF _ assms(2,3)] assms(5) show ?thesis by (fastforce simp: loop_named_def)
  qed (use assms ListenerTurn in \<open>simp add: core_listener_def\<close>)
next
  case Forward
  with assms(1,2,5) show ?thesis
    by (auto simp: core_forward_def recv_def core_push_def onEvent_def and_then_Inr_iff loop_named_def
        split: if_splits list.splits)
next
  case (DdlTurn now x)
  with assms(1) have "core_ddl E now x s = Inr s'" by simp
  then show ?thesis
  proof (cases rule: core_ddl_cases)
    case (event e s1)
    have "named_event e" using event(4) kinds_disjoint [of e] by (simp add: named_event_def)
    with event assms(2,5) show ?thesis by (auto simp: core_push_def onEvent_def and_then_Inr_iff)
  qed (use assms in simp)
qed (use assms in \<open>auto simp: core_push_def and_then_Inr_iff split: if_splits\<close>)

section \<open>The invariant of the source\<close>

text \<open>
  \<open>fed\<close> is what has been pushed into the store. The running core has reached its state from one
  that an opening has left, by the actions \<open>acts\<close>. With \<open>alone\<close> nobody else pushes and schema changes
  are not tracked, with \<open>nm\<close> all pushes are named events.
\<close>

definition core_runs :: "('s, 'd) tail_env \<Rightarrow> config \<Rightarrow> bool \<Rightarrow> bool \<Rightarrow> nat \<Rightarrow> event list \<Rightarrow> core_act list
    \<Rightarrow> core_state \<Rightarrow> feed_world \<Rightarrow> bool" where
  "core_runs TE cfg alone nm cap fed acts s w \<longleftrightarrow>
    core_inv (take (length fed - length (c_pushed s)) fed) cap (s\<lparr>c_world := w\<rparr>)
    \<and> suffix (c_pushed s) fed
    \<and> (\<exists>pre s0 w0. core_inv pre cap s0 \<and> c_end s0 = None \<and> l_cache (c_loop s0) = NewSchemaCache
         \<and> published (c_loop s0) = [] \<and> ccap (l_out (c_loop s0)) = nat (BufferSize cfg)
         \<and> list_all act_ok acts
         \<and> fold_ok (core_step (co_wire (te_core TE)) (co_ddl (te_core TE))) s0 acts = Inr (s\<lparr>c_world := w0\<rparr>)
         \<and> world_inv w0)
    \<and> (alone \<longrightarrow> fed = c_forwarded s \<and> c_pushed s = c_forwarded s \<and> \<not> c_ddl s) \<and> (nm \<longrightarrow> loop_named (c_loop s))"

definition source_inv :: "('s, 'd) tail_env \<Rightarrow> config \<Rightarrow> bool \<Rightarrow> bool \<Rightarrow> nat \<Rightarrow> event list \<Rightarrow> core_act list
    \<Rightarrow> tail_source \<Rightarrow> feed_world \<Rightarrow> bool" where
  "source_inv TE cfg alone nm cap fed acts src w \<longleftrightarrow>
    world_inv w \<and> capacity (w_store w) = cap \<and> Snapshot (w_store w) = lastn cap fed \<and> w_log w = fed
    \<and> (case src_phase src of
         CoreStarting \<Rightarrow> acts = [] \<and> (alone \<longrightarrow> fed = [])
       | CoreFailed e \<Rightarrow> alone \<longrightarrow> fed = []
       | CoreRunning s \<Rightarrow> core_runs TE cfg alone nm cap fed acts s w \<and> c_cancelled s = src_cancelled src)"

text \<open>Only what the store shows matters to it, and not who listens.\<close>

lemma core_inv_feed:
  assumes "core_inv before cap (s\<lparr>c_world := w\<rparr>)" and "same_feed w w'" and "world_inv w'"
  shows "core_inv before cap (s\<lparr>c_world := w'\<rparr>)"
  using assms by (simp add: core_inv_def same_feed_def)

lemma source_inv_feed:
  assumes "source_inv TE cfg alone nm cap fed acts src w" and "same_feed w w'" and "world_inv w'"
  shows "source_inv TE cfg alone nm cap fed acts src w'"
proof -
  have "core_runs TE cfg alone nm cap fed acts s w'" if "core_runs TE cfg alone nm cap fed acts s w" for s
    using that core_inv_feed [OF _ assms(2,3)] by (simp add: core_runs_def)
  moreover have "capacity (w_store w') = cap" "Snapshot (w_store w') = lastn cap fed" "w_log w' = fed"
    using assms(1,2) by (simp_all add: source_inv_def same_feed_def)
  ultimately show ?thesis using assms(1,3) by (auto simp: source_inv_def split: core_phase.splits)
qed

text \<open>The turns of the listener in a sequence of actions: those after the opening.\<close>

definition opened :: "tail_source \<Rightarrow> bool" where
  "opened src \<longleftrightarrow> src_phase src \<noteq> CoreStarting"

fun source_turns :: "bool \<Rightarrow> source_act list \<Rightarrow> turn list" where
  "source_turns b [] = []"
| "source_turns b (SourceOpens # xs) = source_turns True xs"
| "source_turns b (SourceStep a # xs) = (if b then turns_of [a] else []) @ source_turns b xs"
| "source_turns b (_ # xs) = source_turns b xs"

text \<open>What is asked of the actions: no empty message, no push by others when alone, only named ones.\<close>

definition source_ok :: "bool \<Rightarrow> bool \<Rightarrow> source_act \<Rightarrow> bool" where
  "source_ok alone nm x \<longleftrightarrow>
    (case x of
       SourceStep a \<Rightarrow> act_ok a
     | AnyPush e \<Rightarrow> \<not> alone \<and> (nm \<longrightarrow> named_event e)
     | _ \<Rightarrow> True)"

text \<open>Bundles the results of a step of the source.\<close>

definition source_does :: "('s, 'd) tail_env \<Rightarrow> config \<Rightarrow> bool \<Rightarrow> bool \<Rightarrow> nat \<Rightarrow> event list \<Rightarrow> core_act list
    \<Rightarrow> tail_source \<times> feed_world \<Rightarrow> source_act list \<Rightarrow> tail_source \<times> feed_world \<Rightarrow> event list \<Rightarrow> core_act list \<Rightarrow> bool" where
  "source_does TE cfg alone nm cap fed acts s xs s' ps acts' \<longleftrightarrow>
    source_inv TE cfg alone nm cap (fed @ ps) (acts @ acts') (fst s') (snd s')
    \<and> fold_ok Push (snd s) ps = Inr (snd s') \<and> (nm \<longrightarrow> list_all named_event ps)
    \<and> (\<forall>ys. source_turns (opened (fst s)) (xs @ ys) = turns_of acts' @ source_turns (opened (fst s')) ys)"

lemma turns_of_append [simp]: "turns_of (xs @ ys) = turns_of xs @ turns_of ys"
  by (induction xs rule: turns_of.induct) simp_all

lemma core_in_does:
  assumes i: "source_inv TE cfg alone nm cap fed acts src w" and r: "src_phase src = CoreRunning s"
    and ok: "act_ok a" and nc: "a \<noteq> Cancel" and al: "alone \<Longrightarrow> own_act a" and wn: "nm \<Longrightarrow> wire_named (co_wire (te_core TE))"
    and ne: "\<And>e. nm \<Longrightarrow> a = OtherPush e \<Longrightarrow> named_event e"
  shows "\<exists>s' w' ps. core_in TE src s w a = Inr (src\<lparr>src_phase := CoreRunning s'\<rparr>, w')
    \<and> source_inv TE cfg alone nm cap (fed @ ps) (acts @ [a]) (src\<lparr>src_phase := CoreRunning s'\<rparr>) w'
    \<and> fold_ok Push w ps = Inr w' \<and> (nm \<longrightarrow> list_all named_event ps)"
proof -
  let ?P = "co_wire (te_core TE)" and ?E = "co_ddl (te_core TE)"
  have cr: "core_runs TE cfg alone nm cap fed acts s w" and cc: "c_cancelled s = src_cancelled src"
    and w: "world_inv w" using i r by (simp_all add: source_inv_def)
  obtain pre where fed: "fed = pre @ c_pushed s" and inv: "core_inv pre cap (s\<lparr>c_world := w\<rparr>)"
    using cr by (auto simp: core_runs_def suffix_def)
  obtain s' where s': "core_step ?P ?E (s\<lparr>c_world := w\<rparr>) a = Inr s'" "core_inv pre cap s'"
    using core_step_inv [OF inv ok] by blast
  obtain ps where ps: "c_pushed s' = c_pushed s @ ps" "fold_ok Push w ps = Inr (c_world s')"
    using core_step_pushes [OF s'(1)] by auto
  obtain pre0 s0 w0 where o: "core_inv pre0 cap s0" "c_end s0 = None" "l_cache (c_loop s0) = NewSchemaCache"
      "published (c_loop s0) = []" "ccap (l_out (c_loop s0)) = nat (BufferSize cfg)" "list_all act_ok acts"
      "fold_ok (core_step ?P ?E) s0 acts = Inr (s\<lparr>c_world := w0\<rparr>)" "world_inv w0"
    using cr unfolding core_runs_def by blast
  from core_step_other_world [OF s'(1) o(8)] obtain w0' where
    w0': "core_step ?P ?E (s\<lparr>c_world := w0\<rparr>) a = Inr (s'\<lparr>c_world := w0'\<rparr>)" "world_inv w0'" by auto
  with o(7) have run: "fold_ok (core_step ?P ?E) s0 (acts @ [a]) = Inr (s'\<lparr>c_world := w0'\<rparr>)"
    by (simp add: fold_ok_append)
  have al': "alone \<longrightarrow> fed @ ps = c_forwarded s' \<and> c_pushed s' = c_forwarded s' \<and> \<not> c_ddl s'"
    using core_step_alone [OF s'(1)] al cr ps(1) by (auto simp: core_runs_def)
  have nm': "nm \<longrightarrow> loop_named (c_loop s') \<and> list_all named_event ps"
  proof
    assume "nm"
    with cr core_step_named [OF s'(1) _ wn [OF \<open>nm\<close>] ne [OF \<open>nm\<close>]] ps(1)
    show "loop_named (c_loop s') \<and> list_all named_event ps" by (simp add: core_runs_def)
  qed
  have "core_runs TE cfg alone nm cap (fed @ ps) (acts @ [a]) s' (c_world s')"
    unfolding core_runs_def
  proof (intro conjI)
    show "core_inv (take (length (fed @ ps) - length (c_pushed s')) (fed @ ps)) cap (s'\<lparr>c_world := c_world s'\<rparr>)"
      using s'(2) fed ps(1) by simp
    show "suffix (c_pushed s') (fed @ ps)" using fed ps(1) by (simp add: suffix_def)
    show "\<exists>pre s0 w0. core_inv pre cap s0 \<and> c_end s0 = None \<and> l_cache (c_loop s0) = NewSchemaCache
         \<and> published (c_loop s0) = [] \<and> ccap (l_out (c_loop s0)) = nat (BufferSize cfg)
         \<and> list_all act_ok (acts @ [a])
         \<and> fold_ok (core_step ?P ?E) s0 (acts @ [a]) = Inr (s'\<lparr>c_world := w0\<rparr>) \<and> world_inv w0"
      using o(1-6) ok run w0'(2) by (intro exI [of _ pre0] exI [of _ s0] exI [of _ w0']) simp
  qed (use al' nm' in simp_all)
  moreover have "world_inv (c_world s')" "capacity (w_store (c_world s')) = cap"
    "Snapshot (w_store (c_world s')) = lastn cap (fed @ ps)"
    using s'(2) fed ps(1) by (simp_all add: core_inv_def)
  moreover have "w_log (c_world s') = fed @ ps" using pushes_log [OF ps(2)] i by (simp add: source_inv_def)
  moreover have "c_cancelled s' = src_cancelled src" using core_step_cancelled [OF s'(1) nc] cc by simp
  ultimately have "source_inv TE cfg alone nm cap (fed @ ps) (acts @ [a]) (src\<lparr>src_phase := CoreRunning s'\<rparr>) (c_world s')"
    by (simp add: source_inv_def)
  with s'(1) ps(2) nm' show ?thesis
    by (intro exI [of _ s'] exI [of _ "c_world s'"] exI [of _ ps]) (simp add: core_in_def)
qed

lemma source_opens_does:
  assumes i: "source_inv TE cfg alone nm cap fed acts src w" and r: "src_phase src = CoreStarting"
    and b: "0 < BufferSize cfg" and al: "alone \<longrightarrow> \<not> TrackDDL cfg"
  shows "\<exists>src' w' ps acts'. source_opens TE cfg src w = Inr (src', w')
    \<and> source_does TE cfg alone nm cap fed acts (src, w) [SourceOpens] (src', w') ps acts'"
proof -
  let ?P = "co_wire (te_core TE)" and ?E = "co_ddl (te_core TE)"
  have w: "world_inv w" "capacity (w_store w) = cap" "Snapshot (w_store w) = lastn cap fed" "acts = []" "alone \<longrightarrow> fed = []"
      "w_log w = fed"
    using i r by (simp_all add: source_inv_def)
  from core_open_facts [OF w(1) b, of "te_core TE" "te_now TE" "te_ns TE" "te_counter TE" "te_server TE" "te_ddl TE"]
  obtain r st1 dst1 warn where
    o: "core_open (te_core TE) cfg (te_now TE) (te_ns TE) (te_counter TE) (te_server TE) (te_ddl TE) w = Inr (r, st1, dst1)"
    "list_all IsLog warn" "\<not> TrackDDL cfg \<longrightarrow> warn = []"
    "case r of Inl (e, w1) \<Rightarrow> fold_ok Push w warn = Inr w1
        | Inr s \<Rightarrow> fold_ok Push w warn = Inr (c_world s)
            \<and> core_inv (Snapshot (w_store w) @ warn) (capacity (w_store w)) s \<and> c_end s = None
            \<and> c_pushed s = [] \<and> c_forwarded s = [] \<and> l_cache (c_loop s) = NewSchemaCache \<and> published (c_loop s) = []
            \<and> ccap (l_out (c_loop s)) = nat (BufferSize cfg) \<and> (\<not> TrackDDL cfg \<longrightarrow> \<not> c_ddl s) \<and> \<not> c_cancelled s"
    by blast
  have "named_event e" if "IsLog e" for e using that kinds_disjoint [of e] by (simp add: named_event_def)
  then have nm: "list_all named_event warn" using o(2) by (auto simp: list_all_iff)
  have pushed: "world_inv w1 \<and> capacity (w_store w1) = cap \<and> Snapshot (w_store w1) = lastn cap (fed @ warn) \<and> w_log w1 = fed @ warn"
    if "fold_ok Push w warn = Inr w1" for w1
    using feed.pushed_list [OF w(1) that] w(2,3,6) pushes_log [OF that] by (simp add: lastn_lastn_append)
  show ?thesis
  proof (cases r)
    case (Inl p)
    obtain e w1 where p: "p = (e, w1)" by (cases p)
    with o Inl pushed [of w1] w(4,5) al nm show ?thesis
      by (intro exI [of _ "src\<lparr>src_phase := CoreFailed e\<rparr>"] exI [of _ w1] exI [of _ warn] exI [of _ "[]"])
        (simp add: source_opens_def source_does_def source_inv_def opened_def r)
  next
    case (Inr s)
    let ?s = "s\<lparr>c_cancelled := src_cancelled src\<rparr>" and ?acts = "if src_cancelled src then [Cancel] else []"
    have s: "fold_ok Push w warn = Inr (c_world s)" "core_inv (Snapshot (w_store w) @ warn) (capacity (w_store w)) s"
        "c_end s = None" "c_pushed s = []" "c_forwarded s = []" "l_cache (c_loop s) = NewSchemaCache"
        "published (c_loop s) = []" "ccap (l_out (c_loop s)) = nat (BufferSize cfg)" "\<not> TrackDDL cfg \<longrightarrow> \<not> c_ddl s" "\<not> c_cancelled s"
      using o(4) Inr by simp_all
    have run: "fold_ok (core_step ?P ?E) s ?acts = Inr (?s\<lparr>c_world := c_world s\<rparr>)" using s(10) by simp
    have inv: "core_inv (fed @ warn) cap (?s\<lparr>c_world := c_world s\<rparr>)"
      using s(2,4,5,10) pushed [OF s(1)] by (auto simp: core_inv_def)
    have "loop_named (c_loop s)" using s(2,5-7) by (simp add: loop_named_def core_inv_def schema_cache.get_empty)
    moreover have "alone \<longrightarrow> fed @ warn = c_forwarded ?s \<and> c_pushed ?s = c_forwarded ?s \<and> \<not> c_ddl ?s"
      using w(5) al o(3) s(4,5,9) by simp
    moreover have "\<exists>pre s0 w0. core_inv pre cap s0 \<and> c_end s0 = None \<and> l_cache (c_loop s0) = NewSchemaCache
         \<and> published (c_loop s0) = [] \<and> ccap (l_out (c_loop s0)) = nat (BufferSize cfg)
         \<and> list_all act_ok ?acts \<and> fold_ok (core_step ?P ?E) s0 ?acts = Inr (?s\<lparr>c_world := w0\<rparr>) \<and> world_inv w0"
      using s(2,3,6-8) w(2) run pushed [OF s(1)]
      by (intro exI [of _ "Snapshot (w_store w) @ warn"] exI [of _ s] exI [of _ "c_world s"]) (simp del: fold_ok.simps)
    ultimately have "core_runs TE cfg alone nm cap (fed @ warn) ?acts ?s (c_world s)"
      using inv s(4) by (simp add: core_runs_def)
    with pushed [OF s(1)] have "source_inv TE cfg alone nm cap (fed @ warn) (acts @ ?acts) (src\<lparr>src_phase := CoreRunning ?s\<rparr>) (c_world s)"
      using w(4) by (simp add: source_inv_def)
    moreover have "source_opens TE cfg src w = Inr (src\<lparr>src_phase := CoreRunning ?s\<rparr>, c_world s)"
      using o(1) Inr by (simp add: source_opens_def)
    ultimately show ?thesis using s(1) nm
      by (intro exI [of _ "src\<lparr>src_phase := CoreRunning ?s\<rparr>"] exI [of _ "c_world s"] exI [of _ warn] exI [of _ ?acts])
        (simp add: source_does_def opened_def r)
  qed
qed

lemma source_idle:
  assumes "source_inv TE cfg alone nm cap fed acts src w" and "x \<noteq> Interrupt"
    and "\<And>ys. source_turns (opened src) (x # ys) = source_turns (opened src) ys"
  shows "source_does TE cfg alone nm cap fed acts (src, w) [x] (src, w) [] []"
  using assms by (simp add: source_does_def)

lemma source_in_does:
  assumes "source_inv TE cfg alone nm cap fed acts src w" and "src_phase src = CoreRunning s"
    and "act_ok a" and "a \<noteq> Cancel" and "alone \<Longrightarrow> own_act a" and "nm \<Longrightarrow> wire_named (co_wire (te_core TE))"
    and "\<And>e. nm \<Longrightarrow> a = OtherPush e \<Longrightarrow> named_event e" and "x \<noteq> Interrupt"
    and "\<And>ys. source_turns True (x # ys) = turns_of [a] @ source_turns True ys"
  shows "\<exists>src' w' ps acts'. core_in TE src s w a = Inr (src', w')
    \<and> source_does TE cfg alone nm cap fed acts (src, w) [x] (src', w') ps acts'"
proof -
  from core_in_does [OF assms(1-7)] obtain s' w' ps where "core_in TE src s w a = Inr (src\<lparr>src_phase := CoreRunning s'\<rparr>, w')"
    "source_inv TE cfg alone nm cap (fed @ ps) (acts @ [a]) (src\<lparr>src_phase := CoreRunning s'\<rparr>) w'"
    "fold_ok Push w ps = Inr w'" "nm \<longrightarrow> list_all named_event ps" by blast
  with assms(2,8,9) show ?thesis
    by (intro exI [of _ "src\<lparr>src_phase := CoreRunning s'\<rparr>"] exI [of _ w'] exI [of _ ps] exI [of _ "[a]"])
      (auto simp: source_does_def opened_def)
qed

lemma core_runs_cancel:
  assumes "core_runs TE cfg alone nm cap fed acts s w"
  shows "core_runs TE cfg alone nm cap fed (acts @ [Cancel]) (s\<lparr>c_cancelled := True\<rparr>) w"
proof -
  let ?P = "co_wire (te_core TE)" and ?E = "co_ddl (te_core TE)"
  from assms obtain pre s0 w0 where o: "core_inv pre cap s0" "c_end s0 = None" "l_cache (c_loop s0) = NewSchemaCache"
      "published (c_loop s0) = []" "ccap (l_out (c_loop s0)) = nat (BufferSize cfg)" "list_all act_ok acts"
      "fold_ok (core_step ?P ?E) s0 acts = Inr (s\<lparr>c_world := w0\<rparr>)" "world_inv w0"
    unfolding core_runs_def by blast
  from o(7) have "fold_ok (core_step ?P ?E) s0 (acts @ [Cancel]) = Inr (s\<lparr>c_cancelled := True, c_world := w0\<rparr>)"
    by (simp add: fold_ok_append)
  with o(1-6,8) have "\<exists>pre s0 w0. core_inv pre cap s0 \<and> c_end s0 = None \<and> l_cache (c_loop s0) = NewSchemaCache
         \<and> published (c_loop s0) = [] \<and> ccap (l_out (c_loop s0)) = nat (BufferSize cfg)
         \<and> list_all act_ok (acts @ [Cancel])
         \<and> fold_ok (core_step ?P ?E) s0 (acts @ [Cancel]) = Inr (s\<lparr>c_cancelled := True, c_world := w0\<rparr>) \<and> world_inv w0"
    by (intro exI [of _ pre] exI [of _ s0] exI [of _ w0]) simp
  moreover have "core_inv (take (length fed - length (c_pushed s)) fed) cap (s\<lparr>c_cancelled := True, c_world := w\<rparr>)"
    using assms by (auto simp: core_runs_def core_inv_def)
  ultimately show ?thesis using assms by (simp add: core_runs_def)
qed

lemma source_interrupts:
  assumes i: "source_inv TE cfg alone nm cap fed acts src w"
  shows "\<exists>src' acts'. source_step TE cfg (src, w) Interrupt = Inr (src', w)
    \<and> source_inv TE cfg alone nm cap fed (acts @ acts') src' w \<and> turns_of acts' = [] \<and> opened src' = opened src"
proof (cases "\<exists>s. src_phase src = CoreRunning s")
  case True
  then obtain s where s: "src_phase src = CoreRunning s" by blast
  let ?src = "src\<lparr>src_cancelled := True, src_phase := CoreRunning (s\<lparr>c_cancelled := True\<rparr>)\<rparr>"
  have cr: "core_runs TE cfg alone nm cap fed acts s w" using i s by (simp add: source_inv_def)
  from core_runs_cancel [OF this]
  have "core_runs TE cfg alone nm cap fed (acts @ [Cancel]) (s\<lparr>c_cancelled := True\<rparr>) w" .
  with i s show ?thesis
    by (intro exI [of _ ?src] exI [of _ "[Cancel]"]) (simp add: source_inv_def opened_def)
next
  case False
  with i show ?thesis
    by (intro exI [of _ "src\<lparr>src_cancelled := True\<rparr>"] exI [of _ "[]"])
      (cases "src_phase src"; simp add: source_inv_def opened_def)
qed

lemma source_step_does:
  assumes i: "source_inv TE cfg alone nm cap fed acts src w" and ok: "source_ok alone nm x"
    and b: "0 < BufferSize cfg" and al: "alone \<longrightarrow> \<not> TrackDDL cfg" and wn: "nm \<longrightarrow> wire_named (co_wire (te_core TE))"
  shows "\<exists>src' w' ps acts'. source_step TE cfg (src, w) x = Inr (src', w')
    \<and> source_does TE cfg alone nm cap fed acts (src, w) [x] (src', w') ps acts'"
proof (cases x)
  case SourceOpens
  show ?thesis
  proof (cases "src_phase src = CoreStarting")
    case True
    with source_opens_does [OF i True b al] SourceOpens show ?thesis by simp
  next
    case False
    with source_idle [OF i, of x] SourceOpens show ?thesis
      by (intro exI [of _ src] exI [of _ w] exI [of _ "[]"] exI [of _ "[]"]) (simp add: opened_def)
  qed
next
  case (SourceStep a)
  with ok have a: "act_ok a" by (simp add: source_ok_def)
  show ?thesis
  proof (cases "src_phase src")
    case CoreStarting
    with source_idle [OF i, of x] SourceStep show ?thesis
      by (intro exI [of _ src] exI [of _ w] exI [of _ "[]"] exI [of _ "[]"]) (simp add: opened_def)
  next
    case (CoreFailed e)
    with i SourceStep show ?thesis
      by (intro exI [of _ src] exI [of _ w] exI [of _ "[]"] exI [of _ "[a]"])
        (auto simp: opened_def source_does_def source_inv_def)
  next
    case (CoreRunning s)
    show ?thesis
    proof (cases "own_act a")
      case True
      then have "a \<noteq> Cancel" "\<And>e. a \<noteq> OtherPush e" by (auto simp: own_act_def)
      with source_in_does [OF i CoreRunning a, of x] True SourceStep wn CoreRunning show ?thesis by simp
    next
      case False
      then have "turns_of [a] = []" by (cases a) (simp_all add: own_act_def)
      with source_idle [OF i, of x] False SourceStep CoreRunning show ?thesis
        by (intro exI [of _ src] exI [of _ w] exI [of _ "[]"] exI [of _ "[]"]) simp
    qed
  qed
next
  case (AnyPush e)
  with ok have e: "\<not> alone" "nm \<longrightarrow> named_event e" by (simp_all add: source_ok_def)
  show ?thesis
  proof (cases "\<exists>s. src_phase src = CoreRunning s")
    case True
    then obtain s where s: "src_phase src = CoreRunning s" by blast
    have "\<And>e'. nm \<Longrightarrow> OtherPush e = OtherPush e' \<Longrightarrow> named_event e'" using e(2) by simp
    from source_in_does [where x = x and a = "OtherPush e", OF i s _ _ _ _ this] e(1) AnyPush s wn show ?thesis by simp
  next
    case False
    have w: "world_inv w" using i by (simp add: source_inv_def)
    obtain w1 where w1: "Push w e = Inr w1" using feed.push_ok [OF w] by blast
    have "source_step TE cfg (src, w) x = Inr (src, w1)"
      using AnyPush False w1 by (cases "src_phase src") simp_all
    moreover have "source_inv TE cfg alone nm cap (fed @ [e]) (acts @ []) src w1"
      using i False e(1) feed.push_keeps [OF w w1] feed.push_bound [OF w w1] feed.push_recent [OF w w1] Push_log [OF w1]
      by (auto simp: source_inv_def lastn_lastn_append split: core_phase.splits)
    ultimately show ?thesis using w1 e(2) AnyPush
      by (intro exI [of _ src] exI [of _ w1] exI [of _ "[e]"] exI [of _ "[]"]) (simp add: source_does_def)
  qed
next
  case Interrupt
  from source_interrupts [OF i] obtain src' acts' where
    "source_step TE cfg (src, w) Interrupt = Inr (src', w)" "source_inv TE cfg alone nm cap fed (acts @ acts') src' w"
    "turns_of acts' = []" "opened src' = opened src" by blast
  with Interrupt show ?thesis
    by (intro exI [of _ src'] exI [of _ w] exI [of _ "[]"] exI [of _ acts']) (simp add: source_does_def)
qed

lemma source_does_trans:
  "source_does TE cfg alone nm cap fed acts s xs s1 ps1 acts1
    \<Longrightarrow> source_does TE cfg alone nm cap (fed @ ps1) (acts @ acts1) s1 ys s2 ps2 acts2
    \<Longrightarrow> source_does TE cfg alone nm cap fed acts s (xs @ ys) s2 (ps1 @ ps2) (acts1 @ acts2)"
  by (auto simp: source_does_def fold_ok_append)

lemma source_steps_does:
  assumes "0 < BufferSize cfg" and "alone \<longrightarrow> \<not> TrackDDL cfg" and "nm \<longrightarrow> wire_named (co_wire (te_core TE))"
  shows "source_inv TE cfg alone nm cap fed acts src w \<Longrightarrow> list_all (source_ok alone nm) xs \<Longrightarrow>
    \<exists>src' w' ps acts'. fold_ok (source_step TE cfg) (src, w) xs = Inr (src', w')
      \<and> source_does TE cfg alone nm cap fed acts (src, w) xs (src', w') ps acts' \<and> (xs = [] \<longrightarrow> ps = [])"
proof (induction xs arbitrary: src w fed acts)
  case Nil
  then show ?case by (intro exI [of _ src] exI [of _ w] exI [of _ "[]"]) (simp add: source_does_def)
next
  case (Cons x xs)
  have x: "source_ok alone nm x" and xs: "list_all (source_ok alone nm) xs" using Cons.prems(2) by simp_all
  from source_step_does [OF Cons.prems(1) x assms] obtain src1 w1 ps1 acts1 where
    1: "source_step TE cfg (src, w) x = Inr (src1, w1)"
      "source_does TE cfg alone nm cap fed acts (src, w) [x] (src1, w1) ps1 acts1" by blast
  then have "source_inv TE cfg alone nm cap (fed @ ps1) (acts @ acts1) src1 w1" by (simp add: source_does_def)
  from Cons.IH [OF this xs] obtain src2 w2 ps2 acts2 where
    2: "fold_ok (source_step TE cfg) (src1, w1) xs = Inr (src2, w2)"
      "source_does TE cfg alone nm cap (fed @ ps1) (acts @ acts1) (src1, w1) xs (src2, w2) ps2 acts2" by blast
  from source_does_trans [OF 1(2) 2(2)] 1(1) 2(1) show ?case
    by (intro exI [of _ src2] exI [of _ w2] exI [of _ "ps1 @ ps2"] exI [of _ "acts1 @ acts2"]) simp
qed

section \<open>What the source comes to\<close>

text \<open>A result of \<open>Run\<close> does not change any more.\<close>

lemma core_result_kept:
  assumes "core_step P E s a = Inr s'" and "core_result s = Some r"
  shows "core_result s' = Some r"
proof (cases a)
  case (DdlTurn now x)
  with assms(1) have "core_ddl E now x s = Inr s'" by simp
  then show ?thesis
    using assms(2) by (cases rule: core_ddl_cases) (auto simp: core_push_def onEvent_def and_then_Inr_iff core_result_def)
qed (use assms in \<open>auto simp: core_result_def core_listener_def core_forward_def core_push_def and_then_Inr_iff
      split: if_splits\<close>)

lemma source_result_kept:
  assumes "source_step TE cfg (src, w) x = Inr (src', w')" and "source_result src = Some r"
  shows "source_result src' = Some r"
proof (cases "src_phase src")
  case (CoreRunning s)
  then obtain r0 where r0: "core_result s = Some r0" "r = map_option loop_error_text r0"
    using assms(2) by (auto simp: source_result_def)
  have step: "source_result src1 = Some r" if "core_in TE src s w a = Inr (src1, w1)" for a src1 w1
  proof -
    from that obtain s1 where s1: "core_step (co_wire (te_core TE)) (co_ddl (te_core TE)) (s\<lparr>c_world := w\<rparr>) a = Inr s1"
      "src1 = src\<lparr>src_phase := CoreRunning s1\<rparr>" by (auto simp: core_in_def and_then_Inr_iff)
    have "core_result (s\<lparr>c_world := w\<rparr>) = Some r0" using r0(1) by (simp add: core_result_def split: if_splits)
    from core_result_kept [OF s1(1) this] s1(2) r0(2) show ?thesis by (simp add: source_result_def)
  qed
  show ?thesis
    using assms CoreRunning step r0
    by (cases x) (auto simp: source_result_def core_result_def split: if_splits)
next
  case (CoreFailed e)
  with assms show ?thesis by (cases x) (auto simp: source_result_def and_then_Inr_iff)
qed (use assms in \<open>simp add: source_result_def\<close>)

text \<open>
  When \<open>Run\<close> has returned uncancelled, and its listener was given a stream that fits its channel,
  what it has pushed means what the stream means; alone it has pushed nothing else.
\<close>

lemma source_stream:
  assumes "source_inv TE cfg alone nm cap fed acts src w" and "src_phase src = CoreRunning s"
    and "core_result s \<noteq> None" and "\<not> src_cancelled src"
    and "turns_of acts = ts @ [tend]" and "t_recv tend = ReceiveFailed m"
    and "list_all2 (delivers (co_wire (te_core TE))) ts msgs"
    and "XLogDataByteID (co_wire (te_core TE)) \<noteq> PrimaryKeepaliveMessageByteID (co_wire (te_core TE))"
    and "length msgs \<le> nat (BufferSize cfg)"
  shows "map change_of (c_forwarded s) = stream_meaning [] msgs \<and> subseq (c_forwarded s) fed \<and> (alone \<longrightarrow> c_forwarded s = fed)"
proof -
  have cr: "core_runs TE cfg alone nm cap fed acts s w" and nc: "\<not> c_cancelled s"
    using assms(1,2,4) by (simp_all add: source_inv_def)
  obtain pre s0 w0 where o: "core_inv pre cap s0" "c_end s0 = None" "l_cache (c_loop s0) = NewSchemaCache"
      "published (c_loop s0) = []" "ccap (l_out (c_loop s0)) = nat (BufferSize cfg)" "list_all act_ok acts"
      "fold_ok (core_step (co_wire (te_core TE)) (co_ddl (te_core TE))) s0 acts = Inr (s\<lparr>c_world := w0\<rparr>)"
    using cr unfolding core_runs_def by blast
  have "l_cache (c_loop s0) = foldl cache_Update NewSchemaCache []" using o(3) by simp
  moreover have "buf (l_out (c_loop s0)) = []" using o(1,4) by (simp add: core_inv_def)
  with o(5) assms(9) have "length (buf (l_out (c_loop s0))) + length msgs \<le> ccap (l_out (c_loop s0))" by simp
  ultimately have "map change_of (published (c_loop s)) = stream_meaning [] msgs"
    using steps_stream [OF assms(8,6) o(7) assms(5,7) o(1,6,2)] o(4) by simp
  moreover have "c_forwarded s = published (c_loop s)" "subseq (c_forwarded s) (c_pushed s)"
    using cr assms(3) nc by (auto simp: core_runs_def core_inv_def core_result_def)
  moreover have "suffix (c_pushed s) fed" "alone \<longrightarrow> c_forwarded s = fed" using cr by (simp_all add: core_runs_def)
  ultimately show ?thesis by (auto intro: subseq_order.trans suffix_imp_subseq)
qed

end
