(* ===== verification/Cli.thy ===== *)
theory Cli
  imports Config Marker_Api
begin

text \<open>
  The command tree of \<open>cmd/dbwatch\<close>: which commands there are, with which flags and arguments. What cobra makes of a command line is the
  relation \<open>parsed\<close> between the registered flags, the given ones and the values that are read.
\<close>

section \<open>Flags and commands\<close>

datatype flag_value =
    StringFlag string
  | IntFlag int
  | BoolFlag bool
  | SliceFlag "string list"
  | DurationFlag int

datatype flag_kind = StringKind | IntKind | BoolKind | SliceKind | DurationKind

fun kind_of :: "flag_value \<Rightarrow> flag_kind" where
  "kind_of (StringFlag _) = StringKind"
| "kind_of (IntFlag _) = IntKind"
| "kind_of (BoolFlag _) = BoolKind"
| "kind_of (SliceFlag _) = SliceKind"
| "kind_of (DurationFlag _) = DurationKind"

record flag =
  fl_name :: string
  fl_default :: flag_value
  fl_usage :: string
  fl_hidden :: bool

definition string_flag :: "string \<Rightarrow> string \<Rightarrow> string \<Rightarrow> flag" where
  "string_flag name dflt usage = \<lparr>fl_name = name, fl_default = StringFlag dflt, fl_usage = usage, fl_hidden = False\<rparr>"

definition int_flag :: "string \<Rightarrow> int \<Rightarrow> string \<Rightarrow> flag" where
  "int_flag name dflt usage = \<lparr>fl_name = name, fl_default = IntFlag dflt, fl_usage = usage, fl_hidden = False\<rparr>"

definition bool_flag :: "string \<Rightarrow> bool \<Rightarrow> string \<Rightarrow> flag" where
  "bool_flag name dflt usage = \<lparr>fl_name = name, fl_default = BoolFlag dflt, fl_usage = usage, fl_hidden = False\<rparr>"

datatype arg_rule = ArbitraryArgs | ExactArgs nat | RangeArgs nat nat

text \<open>The functions that the commands run.\<close>

datatype runner =
    NoRun | RunTail | RunAttach | RunVersion
  | RunDaemonStart | RunDaemonStop | RunDaemonStatus | RunDaemonList | RunDaemonLogs
  | RunPrintSQL | RunInstall | RunUninstall | RunStatus
  | RunTake | RunList | RunShow | RunCompare | RunDelete

datatype command =
  Command (c_use: string) (c_short: string) (c_long: string) (c_args: arg_rule) (c_run: runner) (c_flags: "flag list") (c_subs: "command list")

section \<open>main.go\<close>

definition flagName :: string where "flagName = ''name''"
definition flagDaemonChild :: string where "flagDaemonChild = ''daemon-child''"
definition flagMarkerPort :: string where "flagMarkerPort = ''marker-port''"
definition flagMarkerBind :: string where "flagMarkerBind = ''marker-bind''"
definition flagNoMarker :: string where "flagNoMarker = ''no-marker''"
definition daemonNameDesc :: string where "daemonNameDesc = ''Daemon name''"

definition addMarkerFlags :: "flag list" where
  "addMarkerFlags =
    [int_flag flagMarkerPort DefaultPort ''Marker HTTP API port (set 0 for ephemeral)'',
     string_flag flagMarkerBind DefaultBind ''Marker HTTP API bind address'',
     bool_flag flagNoMarker False ''Disable the marker HTTP API'']"

definition addDDLFlags :: "flag list" where
  "addDDLFlags =
    [bool_flag ''track-ddl'' False
       (''Track schema changes (DDL) '' @ emdash @ '' requires superuser to install the event trigger''),
     string_flag ''ddl-install-mode'' DDLInstallAuto ''DDL trigger install: auto, manual, none'']"

text \<open>The flags of a source, the same in \<open>tail\<close> and \<open>daemon start\<close>.\<close>

definition source_flags :: "flag list" where
  "source_flags =
    [string_flag ''db-url'' [] ''Postgres connection URL (or set DBWATCH_DB_URL)'',
     string_flag ''publication'' DefaultPublication ''Postgres publication name'',
     string_flag ''slot'' DefaultSlot ''Replication slot name'',
     string_flag ''log-level'' DefaultLogLevel ''Log level: debug, info, warn, error'',
     int_flag ''buffer'' DefaultBufferSize ''Event ring buffer size'']"

definition tailCmd :: command where
  "tailCmd = Command ''tail'' ''Stream database changes to the terminal'' [] ArbitraryArgs RunTail
    (source_flags @ [string_flag ''output'' ''auto'' ''Output mode: auto, tui, json''] @ addMarkerFlags @ addDDLFlags) []"

definition attachCmd :: command where
  "attachCmd = Command ''attach'' ''Attach to a running dbwatch daemon'' [] ArbitraryArgs RunAttach
    [string_flag flagName ''default'' daemonNameDesc,
     string_flag ''output'' ''auto'' ''Output mode: auto, tui, json'',
     int_flag ''buffer'' DefaultBufferSize ''Local attach buffer size''] []"

definition daemonStartCmd :: command where
  "daemonStartCmd = Command ''start'' ''Start daemon mode'' [] ArbitraryArgs RunDaemonStart
    (source_flags
     @ [string_flag flagName ''default'' daemonNameDesc,
        bool_flag ''detach'' False ''Run daemon in background'',
        (bool_flag flagDaemonChild False ''Internal: daemon detached child process'')\<lparr>fl_hidden := True\<rparr>]
     @ addMarkerFlags @ addDDLFlags) []"

definition daemonStopCmd :: command where
  "daemonStopCmd = Command ''stop'' ''Stop daemon'' [] ArbitraryArgs RunDaemonStop
    [string_flag flagName ''default'' daemonNameDesc] []"

definition daemonStatusCmd :: command where
  "daemonStatusCmd = Command ''status'' ''Show daemon status'' [] ArbitraryArgs RunDaemonStatus
    [string_flag flagName ''default'' daemonNameDesc] []"

definition daemonListCmd :: command where
  "daemonListCmd = Command ''list'' ''List daemon instances'' [] ArbitraryArgs RunDaemonList [] []"

definition daemonLogsCmd :: command where
  "daemonLogsCmd = Command ''logs'' ''Show daemon log file'' [] ArbitraryArgs RunDaemonLogs
    [string_flag flagName ''default'' daemonNameDesc, bool_flag ''follow'' False ''Follow log output''] []"

definition daemonCmd :: command where
  "daemonCmd = Command ''daemon'' ''Manage dbwatch daemon processes'' [] ArbitraryArgs NoRun []
    [daemonStartCmd, daemonStopCmd, daemonStatusCmd, daemonListCmd, daemonLogsCmd]"

definition versionCmd :: command where
  "versionCmd = Command ''version'' ''Print the version'' [] ArbitraryArgs RunVersion [] []"

definition version_text :: "string \<Rightarrow> string \<Rightarrow> string \<Rightarrow> string" where
  "version_text version commit buildDate =
    ''dbwatch '' @ version @ '' (commit '' @ commit @ '', built '' @ buildDate @ '')'' @ nl"

section \<open>ddltools.go and snapshot.go\<close>

definition addDBURLFlag :: "flag list" where
  "addDBURLFlag = [string_flag ''db-url'' [] ''Postgres connection URL (or set DBWATCH_DB_URL)'']"

definition ddlPrintSQLCmd :: command where
  "ddlPrintSQLCmd = Command ''print-sql'' ''Print the SQL that installs the DDL event trigger'' [] ArbitraryArgs RunPrintSQL [] []"

definition ddlInstallCmd :: command where
  "ddlInstallCmd = Command ''install'' ''Install the DDL event trigger (requires superuser)'' [] ArbitraryArgs RunInstall addDBURLFlag []"

definition ddlUninstallCmd :: command where
  "ddlUninstallCmd = Command ''uninstall'' ''Remove the DDL event trigger'' [] ArbitraryArgs RunUninstall addDBURLFlag []"

definition ddlStatusCmd :: command where
  "ddlStatusCmd = Command ''status'' ''Report whether the DDL event trigger is installed'' [] ArbitraryArgs RunStatus addDBURLFlag []"

definition ddlToolsCmd :: command where
  "ddlToolsCmd = Command ''ddl-tools'' ''Install / inspect the DDL event trigger'' 
    (''Helper subcommands for DDL tracking.'' @ nl @ nl @ ''Installing the event trigger requires superuser. A DBA can run'' @ nl
     @ [CHR 0x60] @ ''ddl-tools install'' @ [CHR 0x60] @ '' once, after which developers use'' @ nl
     @ [CHR 0x60] @ ''dbwatch tail --track-ddl --ddl-install-mode=none'' @ [CHR 0x60] @ ''.'')
    ArbitraryArgs NoRun []
    [ddlPrintSQLCmd, ddlInstallCmd, ddlUninstallCmd, ddlStatusCmd]"

definition flagDataDir :: string where "flagDataDir = ''data-dir''"

definition addDataDirFlag :: "flag list" where
  "addDataDirFlag = [string_flag flagDataDir [] ''Snapshot storage directory (default ~/.dbwatch)'']"

definition snapshotTakeCmd :: command where
  "snapshotTakeCmd = Command ''take'' ''Capture a snapshot of the database now'' [] ArbitraryArgs RunTake
    (addDBURLFlag @ [string_flag ''label'' [] ''Snapshot label (auto-generated if empty)''] @ addDataDirFlag
     @ [\<lparr>fl_name = ''snapshot-tables'', fl_default = SliceFlag [], fl_usage = ''Only capture these tables'', fl_hidden = False\<rparr>,
        \<lparr>fl_name = ''snapshot-exclude'', fl_default = SliceFlag [], fl_usage = ''Skip these tables'', fl_hidden = False\<rparr>,
        \<lparr>fl_name = ''snapshot-timeout'', fl_default = DurationFlag 0,
          fl_usage = ''Per-table statistics timeout (default 30s)'', fl_hidden = False\<rparr>]) []"

definition snapshotListCmd :: command where
  "snapshotListCmd = Command ''list'' ''List stored snapshots'' [] ArbitraryArgs RunList addDataDirFlag []"

definition snapshotShowCmd :: command where
  "snapshotShowCmd = Command ''show <label>'' (''Show a stored snapshot'' @ squote @ ''s schema and statistics'') [] (ExactArgs 1) RunShow
    addDataDirFlag []"

definition snapshotCompareCmd :: command where
  "snapshotCompareCmd = Command ''compare <from> [to]'' ''Compare two snapshots (or a snapshot against the live database)'' 
    (''Compare two stored snapshots. If [to] is omitted, the <from>'' @ nl @ ''snapshot is compared against the current state of the database'' @ nl
     @ ''(requires --db-url).'')
    (RangeArgs 1 2) RunCompare
    (addDBURLFlag @ addDataDirFlag @ [string_flag ''format'' ''text'' ''Output format: text, json, markdown'']) []"

definition snapshotDeleteCmd :: command where
  "snapshotDeleteCmd = Command ''delete <label>'' ''Delete a stored snapshot'' [] (ExactArgs 1) RunDelete addDataDirFlag []"

definition snapshotCmd :: command where
  "snapshotCmd = Command ''snapshot'' ''Capture and compare database snapshots (migration safety)'' 
    (''Capture the schema and per-table statistics of a database,'' @ nl @ ''then compare two snapshots to review what a migration changed.'' @ nl @ nl
     @ ''Snapshots are stored in a local SQLite file (~/.dbwatch/data.db).'')
    ArbitraryArgs NoRun []
    [snapshotTakeCmd, snapshotListCmd, snapshotShowCmd, snapshotCompareCmd, snapshotDeleteCmd]"

definition rootCmd :: command where
  "rootCmd = Command ''dbwatch'' ''tail -f for your Postgres database'' 
    ''DBWatch streams INSERT, UPDATE, and DELETE events from Postgres to your terminal in realtime.''
    ArbitraryArgs NoRun []
    [tailCmd, attachCmd, daemonCmd, ddlToolsCmd, snapshotCmd, versionCmd]"

section \<open>What cobra makes of a command line\<close>

definition lookup_flag :: "flag list \<Rightarrow> string \<Rightarrow> flag_value option" where
  "lookup_flag flags f = map_of (map (\<lambda>fl. (fl_name fl, fl_default fl)) flags) f"

text \<open>The given flags are registered and have a value exactly when they need one.\<close>

definition accepts :: "flag list \<Rightarrow> flag_arg list \<Rightarrow> bool" where
  "accepts flags kvs \<longleftrightarrow> list_all (\<lambda>(f, v).
     case lookup_flag flags f of
       None \<Rightarrow> False
     | Some (BoolFlag _) \<Rightarrow> v = None
     | Some (IntFlag _) \<Rightarrow> (case v of None \<Rightarrow> False | Some x \<Rightarrow> x = itoa (atoi x))
     | Some _ \<Rightarrow> v \<noteq> None) kvs"

text \<open>
  What cobra documents of the values read after an accepted command line: the last value given for
  a flag, else its default; the zero value for a flag that is not registered or has another type.
\<close>

definition given :: "flag_arg list \<Rightarrow> string \<Rightarrow> string option option" where
  "given kvs f = map_of (rev kvs) f"

definition parsed :: "flag list \<Rightarrow> flag_arg list \<Rightarrow> flag_set \<Rightarrow> bool" where
  "parsed flags kvs fs \<longleftrightarrow> (\<forall>f.
     fs_defined fs f = (lookup_flag flags f \<noteq> None)
   \<and> fs_changed fs f = (given kvs f \<noteq> None)
   \<and> fs_string fs f = (case lookup_flag flags f of
        Some (StringFlag s) \<Rightarrow> (case given kvs f of Some (Some v) \<Rightarrow> v | _ \<Rightarrow> s) | _ \<Rightarrow> [])
   \<and> fs_int fs f = (case lookup_flag flags f of
        Some (IntFlag n) \<Rightarrow> (case given kvs f of Some (Some v) \<Rightarrow> atoi v | _ \<Rightarrow> n) | _ \<Rightarrow> 0)
   \<and> fs_bool fs f = (case lookup_flag flags f of
        Some (BoolFlag b) \<Rightarrow> (case given kvs f of Some None \<Rightarrow> True | _ \<Rightarrow> b) | _ \<Rightarrow> False))"

section \<open>Flags that main.go reads\<close>

text \<open>\<open>startMarkerAPI\<close>: the options of the server it starts, none with \<open>--no-marker\<close>.\<close>

definition startMarkerAPI :: "go_time \<Rightarrow> flag_set \<Rightarrow> go_time \<Rightarrow> server_options option" where
  "startMarkerAPI now fs startedAt =
    (if fs_bool fs flagNoMarker then None
     else Some (new_server now
       \<lparr>so_bind = fs_string fs flagMarkerBind, so_port = fs_int fs flagMarkerPort, so_start = startedAt\<rparr>))"

text \<open>What \<open>startDetachedDaemon\<close> reads of the flags of the parent.\<close>

definition marker_args :: "flag_set \<Rightarrow> (int \<times> string) option" where
  "marker_args fs = (if fs_bool fs flagNoMarker then None else Some (fs_int fs flagMarkerPort, fs_string fs flagMarkerBind))"

section \<open>Lemmas\<close>

lemma child_flags_names:
  "map fst (child_flags cfg name marker) =
    [''daemon-child'', ''name'', ''db-url'', ''publication'', ''slot'', ''log-level'', ''buffer'']
    @ (if marker = None then [''no-marker''] else [''marker-port'', ''marker-bind''])
    @ (if TrackDDL cfg then [''track-ddl'', ''ddl-install-mode''] else [])"
  by (simp add: child_flags_def split: option.split)

lemma child_flags_distinct: "distinct (map fst (child_flags cfg name marker))"
  unfolding child_flags_names by (cases "marker = None"; cases "TrackDDL cfg") simp_all

lemma given_iff: "distinct (map fst kvs) \<Longrightarrow> given kvs f = Some v \<longleftrightarrow> (f, v) \<in> set kvs"
  by (simp add: given_def rev_map [symmetric] map_of_eq_Some_iff)

lemma given_None_iff: "given kvs f = None \<longleftrightarrow> f \<notin> fst ` set kvs"
  by (simp add: given_def map_of_eq_None_iff)

lemmas cli_flag_defs = source_flags_def addMarkerFlags_def addDDLFlags_def string_flag_def int_flag_def bool_flag_def
  flagName_def flagDaemonChild_def flagMarkerPort_def flagMarkerBind_def flagNoMarker_def

lemma accepts_member:
  "accepts flags kvs \<Longrightarrow> (f, v) \<in> set kvs \<Longrightarrow> accepts flags [(f, v)]"
  unfolding accepts_def list_all_iff by (drule (1) bspec) simp

lemma accepts_value:
  "accepts flags kvs \<Longrightarrow> (f, Some x) \<in> set kvs \<Longrightarrow> \<exists>d. lookup_flag flags f = Some d \<and> kind_of d \<noteq> BoolKind"
  using accepts_member [of flags kvs f "Some x"] by (simp add: accepts_def split: option.splits flag_value.splits)

lemma accepts_switch:
  "accepts flags kvs \<Longrightarrow> (f, None) \<in> set kvs \<Longrightarrow> \<exists>b. lookup_flag flags f = Some (BoolFlag b)"
  using accepts_member [of flags kvs f None] by (simp add: accepts_def split: option.splits flag_value.splits)

text \<open>The flags of \<open>daemon start\<close>.\<close>

lemma start_flags_alist:
  "map (\<lambda>fl. (fl_name fl, fl_default fl)) (c_flags daemonStartCmd) =
    [(''db-url'', StringFlag []), (''publication'', StringFlag DefaultPublication), (''slot'', StringFlag DefaultSlot),
     (''log-level'', StringFlag DefaultLogLevel), (''buffer'', IntFlag DefaultBufferSize),
     (''name'', StringFlag ''default''), (''detach'', BoolFlag False), (''daemon-child'', BoolFlag False),
     (''marker-port'', IntFlag DefaultPort), (''marker-bind'', StringFlag DefaultBind), (''no-marker'', BoolFlag False),
     (''track-ddl'', BoolFlag False), (''ddl-install-mode'', StringFlag DDLInstallAuto)]"
  by (simp add: daemonStartCmd_def cli_flag_defs)

lemma start_flags_lookup:
  "lookup_flag (c_flags daemonStartCmd) ''db-url'' = Some (StringFlag [])"
  "lookup_flag (c_flags daemonStartCmd) ''publication'' = Some (StringFlag DefaultPublication)"
  "lookup_flag (c_flags daemonStartCmd) ''slot'' = Some (StringFlag DefaultSlot)"
  "lookup_flag (c_flags daemonStartCmd) ''log-level'' = Some (StringFlag DefaultLogLevel)"
  "lookup_flag (c_flags daemonStartCmd) ''buffer'' = Some (IntFlag DefaultBufferSize)"
  "lookup_flag (c_flags daemonStartCmd) ''name'' = Some (StringFlag ''default'')"
  "lookup_flag (c_flags daemonStartCmd) ''detach'' = Some (BoolFlag False)"
  "lookup_flag (c_flags daemonStartCmd) ''daemon-child'' = Some (BoolFlag False)"
  "lookup_flag (c_flags daemonStartCmd) ''marker-port'' = Some (IntFlag DefaultPort)"
  "lookup_flag (c_flags daemonStartCmd) ''marker-bind'' = Some (StringFlag DefaultBind)"
  "lookup_flag (c_flags daemonStartCmd) ''no-marker'' = Some (BoolFlag False)"
  "lookup_flag (c_flags daemonStartCmd) ''track-ddl'' = Some (BoolFlag False)"
  "lookup_flag (c_flags daemonStartCmd) ''ddl-install-mode'' = Some (StringFlag DDLInstallAuto)"
  unfolding lookup_flag_def start_flags_alist by simp_all

lemma start_kinds:
  assumes "lookup_flag (c_flags daemonStartCmd) f = Some d"
  shows "d \<noteq> BoolFlag True" and "(\<exists>n. d = IntFlag n) \<longleftrightarrow> int_valued f" and "kind_of d \<noteq> SliceKind" and "kind_of d \<noteq> DurationKind"
proof -
  let ?ok = "\<lambda>(f, d). d \<noteq> BoolFlag True \<and> ((\<exists>n. d = IntFlag n) \<longleftrightarrow> int_valued f) \<and> kind_of d \<noteq> SliceKind \<and> kind_of d \<noteq> DurationKind"
  have "list_all ?ok (map (\<lambda>fl. (fl_name fl, fl_default fl)) (c_flags daemonStartCmd))"
    unfolding start_flags_alist by (simp add: int_valued_def)
  moreover have "(f, d) \<in> set (map (\<lambda>fl. (fl_name fl, fl_default fl)) (c_flags daemonStartCmd))"
    using assms unfolding lookup_flag_def by (rule map_of_SomeD)
  ultimately have "?ok (f, d)" unfolding list_all_iff by (rule bspec)
  then show "d \<noteq> BoolFlag True" "(\<exists>n. d = IntFlag n) \<longleftrightarrow> int_valued f" "kind_of d \<noteq> SliceKind" "kind_of d \<noteq> DurationKind"
    by simp_all
qed

lemma start_accepts_child: "accepts (c_flags daemonStartCmd) (child_flags cfg name marker)"
  by (simp add: accepts_def child_flags_def start_flags_lookup split: option.split)

text \<open>What an accepted command line without repetitions reads.\<close>

lemma parsed_values:
  assumes "parsed flags kvs fs" and "accepts flags kvs" and "distinct (map fst kvs)"
  shows "(f, Some v) \<in> set kvs \<Longrightarrow> lookup_flag flags f = Some (StringFlag s) \<Longrightarrow> fs_string fs f = v"
    and "(f, Some v) \<in> set kvs \<Longrightarrow> lookup_flag flags f = Some (IntFlag n) \<Longrightarrow> fs_int fs f = atoi v"
    and "f \<notin> fst ` set kvs \<Longrightarrow> lookup_flag flags f = Some (StringFlag s) \<Longrightarrow> fs_string fs f = s"
    and "lookup_flag flags f = Some (BoolFlag False) \<Longrightarrow> fs_bool fs f \<longleftrightarrow> (f, None) \<in> set kvs"
    and "fs_changed fs f \<longleftrightarrow> f \<in> fst ` set kvs"
    and "fs_defined fs f \<longleftrightarrow> lookup_flag flags f \<noteq> None"
proof -
  have p: "fs_string fs f = (case lookup_flag flags f of
        Some (StringFlag s) \<Rightarrow> (case given kvs f of Some (Some v) \<Rightarrow> v | _ \<Rightarrow> s) | _ \<Rightarrow> [])"
    "fs_int fs f = (case lookup_flag flags f of
        Some (IntFlag n) \<Rightarrow> (case given kvs f of Some (Some v) \<Rightarrow> atoi v | _ \<Rightarrow> n) | _ \<Rightarrow> 0)"
    "fs_bool fs f = (case lookup_flag flags f of
        Some (BoolFlag b) \<Rightarrow> (case given kvs f of Some None \<Rightarrow> True | _ \<Rightarrow> b) | _ \<Rightarrow> False)"
    "fs_changed fs f = (given kvs f \<noteq> None)" "fs_defined fs f = (lookup_flag flags f \<noteq> None)"
    using assms(1) unfolding parsed_def by blast+
  note g = given_iff [OF assms(3), of f]
  show "(f, Some v) \<in> set kvs \<Longrightarrow> lookup_flag flags f = Some (StringFlag s) \<Longrightarrow> fs_string fs f = v"
    using p(1) g [of "Some v"] by simp
  show "(f, Some v) \<in> set kvs \<Longrightarrow> lookup_flag flags f = Some (IntFlag n) \<Longrightarrow> fs_int fs f = atoi v"
    using p(2) g [of "Some v"] by simp
  show "f \<notin> fst ` set kvs \<Longrightarrow> lookup_flag flags f = Some (StringFlag s) \<Longrightarrow> fs_string fs f = s"
    using p(1) given_None_iff [of kvs f] by simp
  show "lookup_flag flags f = Some (BoolFlag False) \<Longrightarrow> fs_bool fs f \<longleftrightarrow> (f, None) \<in> set kvs"
    using p(3) g [of None] by (auto split: option.splits)
  show "fs_changed fs f \<longleftrightarrow> f \<in> fst ` set kvs" using p(4) given_None_iff [of kvs f] by simp
  show "fs_defined fs f \<longleftrightarrow> lookup_flag flags f \<noteq> None" using p(5) .
qed

lemma parsed_not_switch: "parsed flags kvs fs \<Longrightarrow> (\<And>b. lookup_flag flags f \<noteq> Some (BoolFlag b)) \<Longrightarrow> \<not> fs_bool fs f"
  unfolding parsed_def by (drule spec [of _ f]) (auto split: option.splits flag_value.splits)

text \<open>The flags of a detached child satisfy what \<open>Config\<close> assumes of them.\<close>

lemma child_reads_flags:
  assumes p: "parsed (c_flags daemonStartCmd) (child_flags cfg name marker) fs"
  shows "reads_flags fs (child_flags cfg name marker)"
proof -
  let ?kvs = "child_flags cfg name marker"
  note v = parsed_values [OF p start_accepts_child child_flags_distinct]
  have "if int_valued f then \<forall>i. x = itoa i \<longrightarrow> fs_int fs f = i else fs_string fs f = x" if m: "(f, Some x) \<in> set ?kvs" for f x
  proof -
    obtain d where d: "lookup_flag (c_flags daemonStartCmd) f = Some d" "kind_of d \<noteq> BoolKind"
      using accepts_value [OF start_accepts_child m] by blast
    note k = start_kinds [OF d(1)]
    show ?thesis
    proof (cases d)
      case (StringFlag s)
      with k(2) v(1) [OF m] d(1) show ?thesis by simp
    next
      case (IntFlag n)
      then have "int_valued f" using k(2) by blast
      with v(2) [OF m] d(1) IntFlag show ?thesis by simp
    qed (use k(3,4) d(2) in simp_all)
  qed
  moreover have "fs_bool fs f \<longleftrightarrow> (f, None) \<in> set ?kvs" for f
  proof (cases "\<exists>b. lookup_flag (c_flags daemonStartCmd) f = Some (BoolFlag b)")
    case True
    then obtain b where b: "lookup_flag (c_flags daemonStartCmd) f = Some (BoolFlag b)" by blast
    with start_kinds(1) [OF b] have "lookup_flag (c_flags daemonStartCmd) f = Some (BoolFlag False)" by (cases b) simp_all
    then show ?thesis by (rule v(4))
  next
    case False
    have "(f, None) \<notin> set ?kvs" using accepts_switch [OF start_accepts_child] False by blast
    with parsed_not_switch [OF p] False show ?thesis by blast
  qed
  ultimately show ?thesis
    unfolding reads_flags_def using v(3) [OF _ start_flags_lookup(13)] by (simp add: v(5,6) start_flags_lookup)
qed

section \<open>Properties\<close>

text \<open>
  C37. A detached daemon is the daemon that was asked for: \<open>daemon start\<close> accepts the command line
  that the parent builds for its child, and the child reads from it the configuration, the name and
  the marker server of its parent and does not detach again. (The install mode is passed on only
  when schema changes are tracked.)
\<close>

theorem detached_child_same:
  assumes "Load uni_print env fs = Inr cfg"
    and "parsed (c_flags daemonStartCmd) (child_flags cfg name (marker_args fs)) fs'"
  shows "detached_args cfg name (marker_args fs) = ''daemon'' # ''start'' # flag_args (child_flags cfg name (marker_args fs))
    \<and> accepts (c_flags daemonStartCmd) (child_flags cfg name (marker_args fs))
    \<and> Load uni_print env' fs' = Inr (cfg\<lparr>DDLInstallMode := (if TrackDDL cfg then DDLInstallMode cfg else DDLInstallAuto)\<rparr>)
    \<and> startMarkerAPI now fs' startedAt = startMarkerAPI now fs startedAt
    \<and> fs_string fs' flagName = name \<and> fs_bool fs' flagDaemonChild \<and> \<not> fs_bool fs' ''detach''"
proof -
  let ?kvs = "child_flags cfg name (marker_args fs)"
  note v = parsed_values [OF assms(2) start_accepts_child child_flags_distinct]
  note load = detached_same_config [OF assms(1) child_reads_flags [OF assms(2)], of env']
  have name: "fs_string fs' flagName = name"
    using v(1) [of "''name''" name] start_flags_lookup(6) by (simp add: flagName_def child_flags_def)
  have child: "fs_bool fs' flagDaemonChild"
    using v(4) [OF start_flags_lookup(8)] by (simp add: flagDaemonChild_def child_flags_def)
  have "''detach'' \<notin> fst ` set ?kvs"
    using child_flags_names [of cfg name "marker_args fs"] by (simp flip: set_map)
  then have "(''detach'', None) \<notin> set ?kvs" by force
  then have detach: "\<not> fs_bool fs' ''detach''" using v(4) [OF start_flags_lookup(7)] by simp
  have "startMarkerAPI now fs' startedAt = startMarkerAPI now fs startedAt"
  proof (cases "fs_bool fs flagNoMarker")
    case True
    then have "(''no-marker'', None) \<in> set ?kvs" by (simp add: marker_args_def child_flags_def)
    then show ?thesis using v(4) [OF start_flags_lookup(11)] True by (simp add: startMarkerAPI_def flagNoMarker_def)
  next
    case False
    then have m: "marker_args fs = Some (fs_int fs flagMarkerPort, fs_string fs flagMarkerBind)" by (simp add: marker_args_def)
    have "''no-marker'' \<notin> fst ` set ?kvs"
      using child_flags_names [of cfg name "marker_args fs"] m by (simp flip: set_map)
    then have "(''no-marker'', None) \<notin> set ?kvs" by force
    then have off: "\<not> fs_bool fs' flagNoMarker" using v(4) [OF start_flags_lookup(11)] by (simp add: flagNoMarker_def)
    have "(''marker-port'', Some (itoa (fs_int fs flagMarkerPort))) \<in> set ?kvs"
      "(''marker-bind'', Some (fs_string fs flagMarkerBind)) \<in> set ?kvs" by (simp_all add: m child_flags_def)
    from v(2) [OF this(1) start_flags_lookup(9)] v(1) [OF this(2) start_flags_lookup(10)]
    have "fs_int fs' flagMarkerPort = fs_int fs flagMarkerPort" "fs_string fs' flagMarkerBind = fs_string fs flagMarkerBind"
      by (simp_all add: flagMarkerPort_def flagMarkerBind_def)
    with False off show ?thesis by (simp add: startMarkerAPI_def)
  qed
  with load name child detach start_accepts_child show ?thesis by blast
qed

text \<open>The flag set that is read from a command line.\<close>

definition read_flags :: "flag list \<Rightarrow> flag_arg list \<Rightarrow> flag_set" where
  "read_flags flags kvs =
    \<lparr>fs_defined = (\<lambda>f. lookup_flag flags f \<noteq> None), fs_changed = (\<lambda>f. given kvs f \<noteq> None),
     fs_string = (\<lambda>f. case lookup_flag flags f of
        Some (StringFlag s) \<Rightarrow> (case given kvs f of Some (Some v) \<Rightarrow> v | _ \<Rightarrow> s) | _ \<Rightarrow> []),
     fs_int = (\<lambda>f. case lookup_flag flags f of
        Some (IntFlag n) \<Rightarrow> (case given kvs f of Some (Some v) \<Rightarrow> atoi v | _ \<Rightarrow> n) | _ \<Rightarrow> 0),
     fs_bool = (\<lambda>f. case lookup_flag flags f of
        Some (BoolFlag b) \<Rightarrow> (case given kvs f of Some None \<Rightarrow> True | _ \<Rightarrow> b) | _ \<Rightarrow> False)\<rparr>"

lemma read_flags_parsed: "parsed flags kvs (read_flags flags kvs)"
  by (simp add: parsed_def read_flags_def)

definition demo_start :: "flag_arg list" where
  "demo_start = [(''db-url'', Some ''postgres://localhost/app''), (''detach'', None), (''marker-port'', Some ''7000''), (''slot'', Some ''s1'')]"

theorem detached_child_same_witness:
  "\<exists>cfg. Load (\<lambda>r. True) (\<lambda>v. []) (read_flags (c_flags daemonStartCmd) demo_start) = Inr cfg \<and> Slot cfg = ''s1''
    \<and> Load (\<lambda>r. True) (\<lambda>v. ''x'') (read_flags (c_flags daemonStartCmd)
        (child_flags cfg ''app'' (marker_args (read_flags (c_flags daemonStartCmd) demo_start)))) = Inr cfg"
proof -
  let ?fs = "read_flags (c_flags daemonStartCmd) demo_start"
  let ?cfg = "\<lparr>DBURL = ''postgres://localhost/app'', Publication = DefaultPublication, Slot = ''s1'',
     BufferSize = DefaultBufferSize, LogLevel = DefaultLogLevel, TrackDDL = False, DDLInstallMode = DDLInstallAuto\<rparr>"
  have load: "Load (\<lambda>r. True) (\<lambda>v. []) ?fs = Inr ?cfg"
    by (simp add: Load_def Let_def read_flags_def demo_start_def given_def start_flags_lookup override_string_def envOr_def
        DDLInstallAuto_def)
  from detached_child_same [OF load read_flags_parsed, where env' = "\<lambda>v. ''x''" and name = "''app''"] load show ?thesis
    by (intro exI [of _ ?cfg]) simp
qed

end
