(* ===== verification/Reader.thy ===== *)
theory Reader
  imports Feed_Store
begin

text \<open>
  A reader of the store: a goroutine with a subscription to all events, which takes them from its
  channel while others push. The locale \<open>subscription\<close> extends the contract \<open>pusher\<close> of the store to
  what the two viewers of \<open>cmd/dbwatch/main.go\<close> rely on.
\<close>

section \<open>The contract\<close>

text \<open>\<open>reads w ch ps got\<close>: \<open>ps\<close> was pushed since the subscription, \<open>got\<close> was taken from \<open>ch\<close>.\<close>

locale subscription = pusher push ok recent bound
  for push :: "'w \<Rightarrow> event \<Rightarrow> 'p + 'w" and ok :: "'w \<Rightarrow> bool" and recent :: "'w \<Rightarrow> event list" and bound :: "'w \<Rightarrow> nat" +
  fixes receive :: "'w \<Rightarrow> nat \<Rightarrow> event received \<times> 'w"
    and reads :: "'w \<Rightarrow> nat \<Rightarrow> event list \<Rightarrow> event list \<Rightarrow> bool"
    and waiting :: "'w \<Rightarrow> nat \<Rightarrow> event list"
  assumes reads_ok: "reads w ch ps got \<Longrightarrow> ok w"
    and push_reads: "reads w ch ps got \<Longrightarrow> \<exists>w'. push w e = Inr w' \<and> reads w' ch (ps @ [e]) got"
    and receive_got: "reads w ch ps got \<Longrightarrow> receive w ch = (Got e, w') \<Longrightarrow> reads w' ch ps (got @ [e])"
    and receive_idle: "reads w ch ps got \<Longrightarrow> receive w ch = (r, w') \<Longrightarrow> (\<And>e. r \<noteq> Got e)
      \<Longrightarrow> r = WouldBlock \<and> w' = w \<and> waiting w ch = []"
    and in_order: "reads w ch ps got \<Longrightarrow> subseq (got @ waiting w ch) ps"
    and no_loss: "reads w ch ps got \<Longrightarrow> length ps \<le> defaultSubChanCap \<Longrightarrow> got @ waiting w ch = ps"
begin

lemma pushes_reads: "reads w ch ps got \<Longrightarrow> \<exists>w'. fold_ok push w es = Inr w' \<and> reads w' ch (ps @ es) got"
proof (induction es arbitrary: w ps)
  case (Cons e es)
  obtain w1 where w1: "push w e = Inr w1" "reads w1 ch (ps @ [e]) got" using push_reads [OF Cons.prems] by blast
  from Cons.IH [OF w1(2)] w1(1) show ?case by auto
qed simp

text \<open>What the reader finds in the feed itself after these pushes.\<close>

lemma pushes_shown:
  assumes "reads w ch ps got"
  shows "\<exists>w'. fold_ok push w es = Inr w' \<and> reads w' ch (ps @ es) got
    \<and> bound w' = bound w \<and> recent w' = lastn (bound w) (recent w @ es)"
  using pushes_reads [OF assms, of es] pushed_list [OF reads_ok [OF assms], of es] by blast

text \<open>One turn of a reader's loop: the next event, or nothing to do; the channel never ends.\<close>

lemma receive_cases:
  assumes "reads w ch ps got"
  obtains (event) e w' where "receive w ch = (Got e, w')" "reads w' ch ps (got @ [e])"
    | (idle) "receive w ch = (WouldBlock, w)" "waiting w ch = []"
proof (cases "receive w ch")
  case (Pair r w')
  show ?thesis
  proof (cases "\<exists>e. r = Got e")
    case True
    then obtain e where "r = Got e" by blast
    with Pair receive_got [OF assms] show ?thesis by (intro event [of e w']) simp_all
  next
    case False
    with receive_idle [OF assms Pair] Pair show ?thesis by (intro idle) auto
  qed
qed

lemma got_in_order: "reads w ch ps got \<Longrightarrow> subseq got ps"
  by (rule subseq_order.trans [OF _ in_order]) (simp_all add: prefix_imp_subseq)

end

section \<open>The store\<close>

definition feed_waiting :: "feed_world \<Rightarrow> nat \<Rightarrow> event list" where
  "feed_waiting w ch = buf (w_chans w ! ch)"

definition feed_reads :: "feed_world \<Rightarrow> nat \<Rightarrow> event list \<Rightarrow> event list \<Rightarrow> bool" where
  "feed_reads w ch ps got \<longleftrightarrow> world_inv w \<and> ch < length (w_chans w)
     \<and> \<lparr>sub_ch = ch, sub_filter = AllowAllFilter\<rparr> \<in> set (subs (w_store w))
     \<and> subseq (got @ feed_waiting w ch) ps
     \<and> (length ps \<le> defaultSubChanCap \<longrightarrow> got @ feed_waiting w ch = ps)"

lemma feed_push_reads:
  assumes r: "feed_reads w ch ps got"
  shows "\<exists>w'. Push w e = Inr w' \<and> feed_reads w' ch (ps @ [e]) got"
proof -
  let ?c = "w_chans w ! ch"
  have inv: "world_inv w" and ch: "ch < length (w_chans w)" using r by (simp_all add: feed_reads_def)
  have "listens (subs (w_store w)) e ch" using r by (force simp: feed_reads_def listens_def)
  with Push_spec [OF inv, of e] ch obtain w' where w': "Push w e = Inr w'" "world_inv w'"
      "length (w_chans w') = length (w_chans w)" "w_chans w' ! ch = enqueue e ?c" by auto
  have s: "subs (w_store w') = subs (w_store w)" using Push_subs [OF inv w'(1)] .
  have cap: "ccap ?c = defaultSubChanCap" using inv ch by (simp add: world_inv_def)
  have sub: "subseq (got @ buf ?c) ps" using r by (simp add: feed_reads_def feed_waiting_def)
  have "subseq (got @ buf (w_chans w' ! ch)) (ps @ [e])"
    using subseq_snoc [OF sub] subseq_snoc_same [OF sub] by (simp add: w'(4) enqueue_def)
  moreover have "got @ buf (w_chans w' ! ch) = ps @ [e]" if l: "length (ps @ [e]) \<le> defaultSubChanCap"
  proof -
    have eq: "got @ buf ?c = ps" using r l by (simp add: feed_reads_def feed_waiting_def)
    then have "length (buf ?c) < ccap ?c" using l cap by (simp flip: eq)
    with eq show ?thesis by (simp add: w'(4) enqueue_def)
  qed
  ultimately show ?thesis using r w' s by (auto simp: feed_reads_def feed_waiting_def)
qed

lemma feed_receive_got:
  assumes r: "feed_reads w ch ps got" and e: "Receive w ch = (Got e, w')"
  shows "feed_reads w' ch ps (got @ [e])"
proof -
  have inv: "world_inv w" and ch: "ch < length (w_chans w)" using r by (simp_all add: feed_reads_def)
  obtain es where es: "buf (w_chans w ! ch) = e # es"
      "w' = w\<lparr>w_chans := (w_chans w)[ch := (w_chans w ! ch)\<lparr>buf := es\<rparr>]\<rparr>"
    using e by (auto simp: Receive_def Let_def recv_def split: list.splits if_splits)
  have "world_inv w'" using Receive_inv [OF inv ch] e by simp
  with r es ch show ?thesis by (simp add: feed_reads_def feed_waiting_def)
qed

lemma feed_receive_idle:
  assumes r: "feed_reads w ch ps got" and e: "Receive w ch = (x, w')" and n: "\<And>e. x \<noteq> Got e"
  shows "x = WouldBlock \<and> w' = w \<and> feed_waiting w ch = []"
proof -
  have o: "\<not> closed (w_chans w ! ch)" using r by (force simp: feed_reads_def world_inv_def)
  show ?thesis
  proof (cases "buf (w_chans w ! ch)")
    case Nil
    then have "recv (w_chans w ! ch) = (WouldBlock, w_chans w ! ch)" using o by (simp add: recv_def)
    with e have "(x, w') = (WouldBlock, w)" by (simp add: Receive_def)
    with Nil show ?thesis by (simp add: feed_waiting_def)
  next
    case (Cons e1 es)
    then have "fst (Receive w ch) = Got e1" by (simp add: Receive_def Let_def recv_def)
    with e n show ?thesis by simp
  qed
qed

interpretation sub: subscription Push world_inv "\<lambda>w. Snapshot (w_store w)" "\<lambda>w. capacity (w_store w)"
    Receive feed_reads feed_waiting
proof unfold_locales
  show "\<exists>w'. Push w e = Inr w' \<and> feed_reads w' ch (ps @ [e]) got" if "feed_reads w ch ps got" for w ch ps got e
    using that by (rule feed_push_reads)
  show "feed_reads w' ch ps (got @ [e])" if "feed_reads w ch ps got" "Receive w ch = (Got e, w')" for w ch ps got e w'
    using that by (rule feed_receive_got)
  show "r = WouldBlock \<and> w' = w \<and> feed_waiting w ch = []"
    if "feed_reads w ch ps got" "Receive w ch = (r, w')" "\<And>e. r \<noteq> Got e" for w ch ps got r w'
    using that by (rule feed_receive_idle)
qed (simp_all add: feed_reads_def)

lemma Subscribe_reads:
  assumes "world_inv w" and "Subscribe w = (ch, w')"
  shows "feed_reads w' ch [] []" "Snapshot (w_store w') = Snapshot (w_store w)" "capacity (w_store w') = capacity (w_store w)"
proof -
  have s: "SubscribeWithFilter w AllowAllFilter = (ch, w')" using assms(2) by (simp add: Subscribe_def)
  from Subscribe_inv [OF assms(1) s] Subscribe_fresh [OF s]
  show "feed_reads w' ch [] []" by (simp add: feed_reads_def feed_waiting_def make_chan_def)
  from s show "Snapshot (w_store w') = Snapshot (w_store w)" "capacity (w_store w') = capacity (w_store w)"
    by (auto simp: SubscribeWithFilter_def Let_def Snapshot_def)
qed

text \<open>A reader that leaves is no longer served.\<close>

lemma Unsubscribe_reads:
  assumes "feed_reads w ch ps got"
  shows "\<exists>w'. Unsubscribe w ch = Inr w' \<and> world_inv w' \<and> ch \<notin> sub_ch ` set (subs (w_store w'))
    \<and> Snapshot (w_store w') = Snapshot (w_store w)"
proof -
  have inv: "world_inv w" and m: "\<lparr>sub_ch = ch, sub_filter = AllowAllFilter\<rparr> \<in> set (subs (w_store w))"
    using assms by (simp_all add: feed_reads_def)
  have "ch \<in> sub_ch ` set (subs (w_store w))" by (rule image_eqI [OF _ m]) simp
  from Unsubscribe_present [OF inv this] obtain w' where w': "Unsubscribe w ch = Inr w'" "world_inv w'"
      "w_store w' = (w_store w)\<lparr>subs := [s \<leftarrow> subs (w_store w). sub_ch s \<noteq> ch]\<rparr>" by blast
  have "ch \<notin> sub_ch ` set (subs (w_store w'))" by (simp add: w'(3) image_iff)
  moreover have "Snapshot (w_store w') = Snapshot (w_store w)" by (simp add: w'(3) Snapshot_def)
  ultimately show ?thesis using w'(1,2) by blast
qed

end
