(* ===== verification/Run_Modes.thy ===== *)
theory Run_Modes
  imports Reader Tail_Modes
begin

text \<open>
  The two viewing modes of \<open>cmd/dbwatch/main.go\<close> as they run: \<open>runJSONMode\<close> with its ticker, and
  \<open>runTUIMode\<close> with its two goroutines and the Bubble Tea program. An action is one step of one
  goroutine, of the user or of the rest of the process; the theorems hold for all their orders.
\<close>

section \<open>JSON mode\<close>

text \<open>
  \<open>j_source\<close> is the error waiting in the channel of the source, once it has ended, \<open>j_result\<close>
  what the function has returned. \<open>marshal\<close> is \<open>json.Marshal\<close>.
\<close>

record json_state =
  j_world :: feed_world
  j_sub :: nat
  j_out :: "string list"
  j_log :: "string list"
  j_ticking :: bool
  j_cancelled :: bool
  j_waiting :: bool
  j_source :: "string option option"
  j_result :: "string option option"

datatype json_action =
    JsonPush event
  | JsonCancel
  | JsonSourceEnds "string option"
  | JsonTick
  | JsonTickerStops
  | EventBranch
  | SourceBranch
  | DoneBranch

definition print_event :: "(event \<Rightarrow> string + string) \<Rightarrow> json_state \<Rightarrow> event \<Rightarrow> json_state" where
  "print_event marshal st e =
    (case marshal e of
       Inl err \<Rightarrow> st\<lparr>j_log := j_log st @ [''marshal event: '' @ err]\<rparr>
     | Inr b \<Rightarrow> st\<lparr>j_out := j_out st @ [b]\<rparr>)"

definition json_stats_line :: "stats \<Rightarrow> string" where
  "json_stats_line s = ''[stats] received='' @ nat_str (unat (Total s)) @ '' buffered='' @ nat_str (Buffered s)"

text \<open>The state in which the loop starts.\<close>

definition json_init :: "feed_world \<Rightarrow> nat \<Rightarrow> string option option \<Rightarrow> json_state" where
  "json_init w sub source =
    \<lparr>j_world = w, j_sub = sub, j_out = [], j_log = [], j_ticking = True, j_cancelled = False,
     j_waiting = False, j_source = source, j_result = None\<rparr>"

definition json_open :: "(event \<Rightarrow> string + string) \<Rightarrow> feed_world \<Rightarrow> event list \<Rightarrow> go_panic + json_state" where
  "json_open marshal w between =
    and_then (open_json w between) (\<lambda>(history, sub, w1).
      Inr (foldl (print_event marshal) (json_init w1 sub None) history))"

text \<open>Returning runs the deferred \<open>Unsubscribe\<close>.\<close>

definition json_return :: "string option \<Rightarrow> json_state \<Rightarrow> go_panic + json_state" where
  "json_return r st =
    and_then (Unsubscribe (j_world st) (j_sub st)) (\<lambda>w. Inr (st\<lparr>j_world := w, j_result := Some r\<rparr>))"

definition json_event :: "(event \<Rightarrow> string + string) \<Rightarrow> json_state \<Rightarrow> go_panic + json_state" where
  "json_event marshal st =
    (case Receive (j_world st) (j_sub st) of
       (Got e, w) \<Rightarrow> Inr (print_event marshal (st\<lparr>j_world := w\<rparr>) e)
     | (EndOfChan, w) \<Rightarrow> json_return None st
     | (WouldBlock, w) \<Rightarrow> Inr st)"

definition json_source :: "string \<Rightarrow> json_state \<Rightarrow> go_panic + json_state" where
  "json_source label st =
    (case j_source st of
       None \<Rightarrow> Inr st
     | Some err \<Rightarrow>
         json_return (if j_waiting st then waitSourceOnShutdown err label else wrapSourceError label err) st)"

text \<open>
  A branch that is not ready does nothing. After a cancellation the function waits for the source
  alone. The source ends once.
\<close>

definition json_step :: "(event \<Rightarrow> string + string) \<Rightarrow> string \<Rightarrow> json_state \<Rightarrow> json_action \<Rightarrow> go_panic + json_state" where
  "json_step marshal label st act =
    (case act of
       JsonPush e \<Rightarrow> and_then (Push (j_world st) e) (\<lambda>w. Inr (st\<lparr>j_world := w\<rparr>))
     | JsonCancel \<Rightarrow> Inr (st\<lparr>j_cancelled := True\<rparr>)
     | JsonSourceEnds err \<Rightarrow> Inr (if j_source st = None then st\<lparr>j_source := Some err\<rparr> else st)
     | JsonTick \<Rightarrow>
         Inr (if j_ticking st then st\<lparr>j_log := j_log st @ [json_stats_line (Stats (w_store (j_world st)))]\<rparr> else st)
     | JsonTickerStops \<Rightarrow> Inr (if j_cancelled st then st\<lparr>j_ticking := False\<rparr> else st)
     | EventBranch \<Rightarrow> if j_result st \<noteq> None \<or> j_waiting st then Inr st else json_event marshal st
     | SourceBranch \<Rightarrow> if j_result st \<noteq> None then Inr st else json_source label st
     | DoneBranch \<Rightarrow> Inr (if j_cancelled st \<and> j_result st = None then st\<lparr>j_waiting := True\<rparr> else st))"

definition runJSONMode :: "(event \<Rightarrow> string + string) \<Rightarrow> string \<Rightarrow> feed_world \<Rightarrow> event list \<Rightarrow> json_action list
    \<Rightarrow> go_panic + json_state" where
  "runJSONMode marshal label w between acts =
    and_then (json_open marshal w between) (\<lambda>st. fold_ok (json_step marshal label) st acts)"

section \<open>Terminal mode\<close>

text \<open>
  \<open>t_quit\<close>: the program has met a \<open>QuitMsg\<close>, after which \<open>p.Send\<close> does nothing. It is sent by a
  goroutine, or by the command that an update returned, which \<open>t_quitting\<close> holds until it has run.
  \<open>t_log\<close> is the standard error output.
\<close>

record tui_state =
  t_world :: feed_world
  t_sub :: nat
  t_model :: model
  t_forwarding :: bool
  t_watching :: bool
  t_cancelled :: bool
  t_source :: "string option option"
  t_quitting :: bool
  t_quit :: bool
  t_log :: string
  t_result :: "string option option"

datatype tui_action =
    TuiPush event
  | TuiCancel
  | TuiSourceEnds "string option"
  | TuiForward
  | TuiForwardStops
  | TuiWatchSource
  | TuiWatchCancel
  | TuiMsg tea_msg
  | TuiQuitCommand
  | ProgramEnds "string option"

definition tui_init :: "feed_world \<Rightarrow> nat \<Rightarrow> model \<Rightarrow> tui_state" where
  "tui_init w sub m =
    \<lparr>t_world = w, t_sub = sub, t_model = m, t_forwarding = True, t_watching = True, t_cancelled = False,
     t_source = None, t_quitting = False, t_quit = False, t_log = [], t_result = None\<rparr>"

definition tui_open :: "string \<Rightarrow> feed_world \<Rightarrow> event list \<Rightarrow> go_panic + tui_state" where
  "tui_open target w between =
    and_then (open_tui target w between) (\<lambda>(m, sub, w1).
      Inr (tui_init w1 sub m))"

text \<open>A message that reaches the program.\<close>

definition program_msg :: "tea_msg \<Rightarrow> tui_state \<Rightarrow> go_panic + tui_state" where
  "program_msg msg st =
    (if t_quit st then Inr st
     else and_then (Update (t_model st) msg) (\<lambda>(m, cmd). Inr (st\<lparr>t_model := m, t_quitting := (t_quitting st \<or> cmd = Quit)\<rparr>)))"

definition send_quit :: "tui_state \<Rightarrow> tui_state" where
  "send_quit st = st\<lparr>t_quit := True\<rparr>"

definition lost_text :: "string \<Rightarrow> string \<Rightarrow> string" where
  "lost_text sourceLabel err =
    (if sourceLabel = ''daemon'' then nl @ ''Connection to daemon lost: '' @ err @ nl
     else nl @ sourceLabel @ '' error: '' @ err @ nl)"

definition tui_forward :: "tui_state \<Rightarrow> go_panic + tui_state" where
  "tui_forward st =
    (if \<not> t_forwarding st then Inr st
     else (case Receive (t_world st) (t_sub st) of
         (Got e, w) \<Rightarrow> program_msg (EventMsg e) (st\<lparr>t_world := w\<rparr>)
       | (EndOfChan, w) \<Rightarrow> Inr (st\<lparr>t_forwarding := False\<rparr>)
       | (WouldBlock, w) \<Rightarrow> Inr st))"

definition tui_watch :: "string \<Rightarrow> tui_state \<Rightarrow> tui_state" where
  "tui_watch label st =
    (case (t_watching st, t_source st) of
       (True, Some err) \<Rightarrow>
         (let st1 = st\<lparr>t_watching := False\<rparr>
          in case err of None \<Rightarrow> st1 | Some e \<Rightarrow> (send_quit st1)\<lparr>t_log := t_log st @ lost_text label e\<rparr>)
     | _ \<Rightarrow> st)"

text \<open>\<open>p.Run\<close> returns without error after a \<open>QuitMsg\<close>; then the mode unsubscribes and cancels.\<close>

definition program_ends :: "string option \<Rightarrow> tui_state \<Rightarrow> go_panic + tui_state" where
  "program_ends err st =
    (if t_result st \<noteq> None \<or> err = None \<and> \<not> t_quit st then Inr st
     else and_then (Unsubscribe (t_world st) (t_sub st)) (\<lambda>w.
       Inr (st\<lparr>t_world := w, t_quit := True, t_cancelled := True, t_result := Some err\<rparr>)))"

definition tui_step :: "string \<Rightarrow> tui_state \<Rightarrow> tui_action \<Rightarrow> go_panic + tui_state" where
  "tui_step label st act =
    (case act of
       TuiPush e \<Rightarrow> and_then (Push (t_world st) e) (\<lambda>w. Inr (st\<lparr>t_world := w\<rparr>))
     | TuiCancel \<Rightarrow> Inr (st\<lparr>t_cancelled := True\<rparr>)
     | TuiSourceEnds err \<Rightarrow> Inr (if t_source st = None then st\<lparr>t_source := Some err\<rparr> else st)
     | TuiForward \<Rightarrow> tui_forward st
     | TuiForwardStops \<Rightarrow> Inr (if t_cancelled st then st\<lparr>t_forwarding := False\<rparr> else st)
     | TuiWatchSource \<Rightarrow> Inr (tui_watch label st)
     | TuiWatchCancel \<Rightarrow> Inr (if t_watching st \<and> t_cancelled st then (send_quit st)\<lparr>t_watching := False\<rparr> else st)
     | TuiMsg msg \<Rightarrow> program_msg msg st
     | TuiQuitCommand \<Rightarrow> Inr (if t_quitting st then send_quit st else st)
     | ProgramEnds err \<Rightarrow> program_ends err st)"

definition runTUIMode :: "string \<Rightarrow> string \<Rightarrow> feed_world \<Rightarrow> event list \<Rightarrow> tui_action list \<Rightarrow> go_panic + tui_state" where
  "runTUIMode target label w between acts =
    and_then (tui_open target w between) (\<lambda>st. fold_ok (tui_step label) st acts)"

section \<open>Lemmas on JSON mode\<close>

fun json_pushed :: "json_action list \<Rightarrow> event list" where
  "json_pushed [] = []"
| "json_pushed (JsonPush e # as) = e # json_pushed as"
| "json_pushed (_ # as) = json_pushed as"

text \<open>The lines of the events that can be encoded.\<close>

definition lines :: "(event \<Rightarrow> string + string) \<Rightarrow> event list \<Rightarrow> string list" where
  "lines marshal es = concat (map (\<lambda>e. case marshal e of Inl _ \<Rightarrow> [] | Inr b \<Rightarrow> [b]) es)"

lemma lines_append [simp]: "lines marshal (xs @ ys) = lines marshal xs @ lines marshal ys"
  by (simp add: lines_def)

lemma lines_Nil [simp]: "lines marshal [] = []"
  by (simp add: lines_def)

lemma print_event_frame [simp]:
  "j_world (print_event marshal st e) = j_world st" "j_sub (print_event marshal st e) = j_sub st"
  "j_result (print_event marshal st e) = j_result st" "j_source (print_event marshal st e) = j_source st"
  "j_out (print_event marshal st e) = j_out st @ lines marshal [e]"
  by (simp_all add: print_event_def lines_def split: sum.split)

lemma print_events_frame:
  "j_world (foldl (print_event marshal) st es) = j_world st" "j_sub (foldl (print_event marshal) st es) = j_sub st"
  "j_result (foldl (print_event marshal) st es) = j_result st" "j_source (foldl (print_event marshal) st es) = j_source st"
  "j_out (foldl (print_event marshal) st es) = j_out st @ lines marshal es"
proof (induction es arbitrary: st)
  case (Cons e es)
  {
    case 1 show ?case using Cons.IH(1) [of "print_event marshal st e"] by simp
  next
    case 2 show ?case using Cons.IH(2) [of "print_event marshal st e"] by simp
  next
    case 3 show ?case using Cons.IH(3) [of "print_event marshal st e"] by simp
  next
    case 4 show ?case using Cons.IH(4) [of "print_event marshal st e"] by simp
  next
    case 5 show ?case using Cons.IH(5) [of "print_event marshal st e"] lines_append [of marshal "[e]" es] by simp
  }
qed simp_all

text \<open>While it runs the loop is a reader of the store; it returns what the source ended with.\<close>

definition json_inv :: "(event \<Rightarrow> string + string) \<Rightarrow> string \<Rightarrow> event list \<Rightarrow> event list \<Rightarrow> event list \<Rightarrow> json_state \<Rightarrow> bool" where
  "json_inv marshal label hist ps got st \<longleftrightarrow>
     world_inv (j_world st) \<and> j_out st = lines marshal (hist @ got) \<and> subseq got ps
     \<and> (case j_result st of
          None \<Rightarrow> feed_reads (j_world st) (j_sub st) ps got
        | Some r \<Rightarrow> j_sub st \<notin> sub_ch ` set (subs (w_store (j_world st)))
            \<and> (\<exists>err. j_source st = Some err \<and> r = wrapSourceError label err))"

lemma feed_reads_world: "feed_reads w ch ps got \<Longrightarrow> world_inv w"
  by (simp add: feed_reads_def)

lemma json_inv_change:
  "json_inv marshal label hist ps got st \<Longrightarrow> j_world st' = j_world st \<Longrightarrow> j_sub st' = j_sub st
    \<Longrightarrow> j_out st' = j_out st \<Longrightarrow> j_source st' = j_source st \<Longrightarrow> j_result st' = j_result st
    \<Longrightarrow> json_inv marshal label hist ps got st'"
  by (cases "j_result st") (simp_all add: json_inv_def)

lemma json_return_inv:
  assumes "json_inv marshal label hist ps got st" and "j_result st = None" and "j_source st = Some err"
  shows "\<exists>st'. json_return (wrapSourceError label err) st = Inr st' \<and> json_inv marshal label hist ps got st'
    \<and> j_result st' = Some (wrapSourceError label err)"
proof -
  have "feed_reads (j_world st) (j_sub st) ps got" using assms(1,2) by (simp add: json_inv_def)
  from Unsubscribe_reads [OF this] obtain w where "Unsubscribe (j_world st) (j_sub st) = Inr w" "world_inv w"
    "j_sub st \<notin> sub_ch ` set (subs (w_store w))" by blast
  with assms show ?thesis by (simp add: json_return_def json_inv_def)
qed

lemma json_source_inv:
  assumes "json_inv marshal label hist ps got st" and "j_result st = None" and "j_source st = Some err"
  shows "\<exists>st'. json_source label st = Inr st' \<and> json_inv marshal label hist ps got st'
    \<and> j_result st' = Some (wrapSourceError label err)"
  using json_return_inv [OF assms] by (simp add: json_source_def waitSourceOnShutdown_def assms(3))

lemma json_event_inv:
  assumes i: "json_inv marshal label hist ps got st" and n: "j_result st = None"
  shows "\<exists>st' got'. json_event marshal st = Inr st' \<and> json_inv marshal label hist ps got' st'"
proof -
  have r: "feed_reads (j_world st) (j_sub st) ps got" using i n by (simp add: json_inv_def)
  show ?thesis
  proof (rule sub.receive_cases [OF r])
    fix e w
    assume e: "Receive (j_world st) (j_sub st) = (Got e, w)" "feed_reads w (j_sub st) ps (got @ [e])"
    with i n sub.got_in_order [OF e(2)] feed_reads_world [OF e(2)]
    have "json_inv marshal label hist ps (got @ [e]) (print_event marshal (st\<lparr>j_world := w\<rparr>) e)"
      by (simp add: json_inv_def)
    with e(1) show ?thesis by (auto simp: json_event_def)
  next
    assume "Receive (j_world st) (j_sub st) = (WouldBlock, j_world st)"
    with i show ?thesis by (auto simp: json_event_def)
  qed
qed

lemma json_push_inv:
  assumes i: "json_inv marshal label hist ps got st"
  shows "\<exists>w. Push (j_world st) e = Inr w \<and> json_inv marshal label hist (ps @ [e]) got (st\<lparr>j_world := w\<rparr>)"
proof (cases "j_result st")
  case None
  with i have "feed_reads (j_world st) (j_sub st) ps got" by (simp add: json_inv_def)
  from sub.push_reads [OF this, of e] obtain w where w: "Push (j_world st) e = Inr w"
    "feed_reads w (j_sub st) (ps @ [e]) got" by blast
  with i None feed_reads_world [OF w(2)] show ?thesis by (simp add: json_inv_def subseq_snoc)
next
  case (Some r)
  have inv: "world_inv (j_world st)" using i by (simp add: json_inv_def)
  obtain w where w: "Push (j_world st) e = Inr w" using feed.push_ok [OF inv] by blast
  with i Some Push_inv [OF inv w] Push_subs [OF inv w] show ?thesis by (simp add: json_inv_def subseq_snoc)
qed

lemma json_step_inv:
  assumes i: "json_inv marshal label hist ps got st"
  shows "\<exists>st' got'. json_step marshal label st act = Inr st'
    \<and> json_inv marshal label hist (ps @ json_pushed [act]) got' st'"
proof (cases act)
  case (JsonPush e)
  with json_push_inv [OF i, of e] show ?thesis by (auto simp: json_step_def)
next
  case (JsonSourceEnds err)
  have "json_inv marshal label hist ps got (if j_source st = None then st\<lparr>j_source := Some err\<rparr> else st)"
    using i by (auto simp: json_inv_def split: option.splits)
  with JsonSourceEnds show ?thesis by (auto simp: json_step_def)
next
  case EventBranch
  with i json_event_inv [OF i] show ?thesis by (auto simp: json_step_def)
next
  case SourceBranch
  show ?thesis
  proof (cases "j_result st = None \<and> j_source st \<noteq> None")
    case True
    then obtain err where e: "j_result st = None" "j_source st = Some err" by blast
    from json_source_inv [OF i e] obtain st' where "json_source label st = Inr st'"
      "json_inv marshal label hist ps got st'" by blast
    with e(1) SourceBranch show ?thesis by (intro exI [of _ st'] exI [of _ got]) (simp add: json_step_def)
  next
    case False
    with i SourceBranch show ?thesis by (auto simp: json_step_def json_source_def)
  qed
next
  case JsonTick
  have "json_inv marshal label hist ps got (st\<lparr>j_log := j_log st @ [json_stats_line (Stats (w_store (j_world st)))]\<rparr>)"
    by (rule json_inv_change [OF i]) simp_all
  with i JsonTick show ?thesis by (auto simp: json_step_def)
next
  case JsonCancel
  have "json_inv marshal label hist ps got (st\<lparr>j_cancelled := True\<rparr>)" by (rule json_inv_change [OF i]) simp_all
  with JsonCancel show ?thesis by (auto simp: json_step_def)
next
  case JsonTickerStops
  have "json_inv marshal label hist ps got (st\<lparr>j_ticking := False\<rparr>)" by (rule json_inv_change [OF i]) simp_all
  with i JsonTickerStops show ?thesis by (auto simp: json_step_def)
next
  case DoneBranch
  have "json_inv marshal label hist ps got (st\<lparr>j_waiting := True\<rparr>)" by (rule json_inv_change [OF i]) simp_all
  with i DoneBranch show ?thesis by (auto simp: json_step_def)
qed

lemma json_steps_inv:
  "json_inv marshal label hist ps got st \<Longrightarrow> \<exists>st' got'. fold_ok (json_step marshal label) st acts = Inr st'
    \<and> json_inv marshal label hist (ps @ json_pushed acts) got' st'"
proof (induction acts arbitrary: ps got st)
  case (Cons act acts)
  obtain st1 got1 where s: "json_step marshal label st act = Inr st1"
    "json_inv marshal label hist (ps @ json_pushed [act]) got1 st1" using json_step_inv [OF Cons.prems] by blast
  have "json_pushed (act # acts) = json_pushed [act] @ json_pushed acts" by (cases act) simp_all
  with Cons.IH [OF s(2)] s(1) show ?case by auto
qed auto

lemma json_open_inv:
  assumes "world_inv w"
  shows "\<exists>st. json_open marshal w between = Inr st \<and> j_source st = None
    \<and> json_inv marshal label (lastn (capacity (w_store w)) (Snapshot (w_store w) @ between)) between [] st"
proof -
  obtain ch w1 where s: "Subscribe w = (ch, w1)" by (cases "Subscribe w")
  note s1 = Subscribe_reads [OF assms s]
  from sub.pushes_shown [OF s1(1), of between] obtain w2 where
    w2: "fold_ok Push w1 between = Inr w2" "feed_reads w2 ch between []" and
    snap: "Snapshot (w_store w2) = lastn (capacity (w_store w)) (Snapshot (w_store w) @ between)"
    using s1(2,3) by auto
  have "open_json w between = Inr (Snapshot (w_store w2), ch, w2)"
    using s w2(1) by (simp add: open_json_def Push_all_def)
  then show ?thesis
    using w2(2) snap feed_reads_world [OF w2(2)]
    by (simp add: json_open_def json_init_def json_inv_def print_events_frame)
qed

lemma json_returns:
  assumes "world_inv w" and "runJSONMode marshal label w between acts = Inr st" and "j_source st = Some err"
  shows "\<exists>st'. runJSONMode marshal label w between (acts @ [SourceBranch]) = Inr st'
    \<and> j_result st' = Some (wrapSourceError label err) \<and> j_out st' = j_out st"
proof -
  obtain st0 where o: "json_open marshal w between = Inr st0"
    "json_inv marshal label (lastn (capacity (w_store w)) (Snapshot (w_store w) @ between)) between [] st0"
    using json_open_inv [OF assms(1)] by blast
  have s: "fold_ok (json_step marshal label) st0 acts = Inr st" using assms(2) o(1) by (simp add: runJSONMode_def)
  with json_steps_inv [OF o(2), of acts] obtain got where
    i: "json_inv marshal label (lastn (capacity (w_store w)) (Snapshot (w_store w) @ between)) (between @ json_pushed acts) got st"
    by auto
  have "\<exists>st'. json_step marshal label st SourceBranch = Inr st'
    \<and> j_result st' = Some (wrapSourceError label err) \<and> j_out st' = j_out st"
  proof (cases "j_result st")
    case None
    from json_source_inv [OF i None assms(3)] i show ?thesis
      by (auto simp: json_step_def None json_source_def json_return_def assms(3) and_then_Inr_iff)
  next
    case (Some r)
    with i assms(3) show ?thesis by (simp add: json_step_def json_inv_def)
  qed
  with o(1) s show ?thesis by (auto simp: runJSONMode_def fold_ok_append)
qed

lemma json_mode_facts:
  assumes "world_inv w"
  shows "\<exists>st got. runJSONMode marshal label w between acts = Inr st \<and> world_inv (j_world st)
    \<and> j_out st = lines marshal (lastn (capacity (w_store w)) (Snapshot (w_store w) @ between)) @ lines marshal got
    \<and> subseq got (between @ json_pushed acts)
    \<and> (case j_result st of
         None \<Rightarrow> length (between @ json_pushed acts) \<le> 100 \<longrightarrow>
           got @ feed_waiting (j_world st) (j_sub st) = between @ json_pushed acts
       | Some r \<Rightarrow> j_sub st \<notin> sub_ch ` set (subs (w_store (j_world st)))
           \<and> (\<exists>err. j_source st = Some err \<and> r = wrapSourceError label err))"
proof -
  obtain st0 where o: "json_open marshal w between = Inr st0"
    "json_inv marshal label (lastn (capacity (w_store w)) (Snapshot (w_store w) @ between)) between [] st0"
    using json_open_inv [OF assms] by blast
  obtain st got where s: "fold_ok (json_step marshal label) st0 acts = Inr st"
    and i: "json_inv marshal label (lastn (capacity (w_store w)) (Snapshot (w_store w) @ between)) (between @ json_pushed acts) got st"
    using json_steps_inv [OF o(2)] by blast
  have "runJSONMode marshal label w between acts = Inr st" using o(1) s by (simp add: runJSONMode_def)
  moreover have "length (between @ json_pushed acts) \<le> 100 \<longrightarrow>
           got @ feed_waiting (j_world st) (j_sub st) = between @ json_pushed acts" if "j_result st = None"
    using i that sub.no_loss [of "j_world st" "j_sub st" "between @ json_pushed acts" got]
    by (simp add: json_inv_def defaultSubChanCap_def)
  ultimately show ?thesis using i
    by (intro exI [of _ st] exI [of _ got]) (auto simp: json_inv_def split: option.splits)
qed

section \<open>Properties of JSON mode\<close>

text \<open>
  The JSON mode prints, whatever happens in whatever order, the history of the store (with what
  was pushed while it opened) and then a selection in order of what is pushed, all of it up to
  100 events; it returns only when the source has ended, with the error of the source, and is
  then no longer subscribed.
\<close>

theorem json_mode_prints:
  assumes "world_inv w"
  shows "\<exists>st got. runJSONMode marshal label w between acts = Inr st \<and> world_inv (j_world st)
    \<and> j_out st = lines marshal (lastn (capacity (w_store w)) (Snapshot (w_store w) @ between)) @ lines marshal got
    \<and> subseq got (between @ json_pushed acts)
    \<and> (case j_result st of
         None \<Rightarrow> length (between @ json_pushed acts) \<le> 100 \<longrightarrow>
           got @ feed_waiting (j_world st) (j_sub st) = between @ json_pushed acts
       | Some r \<Rightarrow> j_sub st \<notin> sub_ch ` set (subs (w_store (j_world st)))
           \<and> (\<exists>err. j_source st = Some err \<and> r = wrapSourceError label err))"
  by (rule json_mode_facts [OF assms])

text \<open>
  Once the source has ended, the JSON mode returns as soon as it looks at the source, cancelled
  or not, with the error of the source under its label.
\<close>

theorem json_mode_ends:
  assumes "world_inv w" and "runJSONMode marshal label w between acts = Inr st" and "j_source st = Some err"
  shows "\<exists>st'. runJSONMode marshal label w between (acts @ [SourceBranch]) = Inr st'
    \<and> j_result st' = Some (wrapSourceError label err) \<and> j_out st' = j_out st"
  by (rule json_returns [OF assms])

theorem json_mode_prints_witness:
  "\<exists>w st got. world_inv w \<and> runJSONMode (\<lambda>e. Inr (ev_label e)) ''listener'' w [] [JsonPush demo_mark, EventBranch] = Inr st
     \<and> j_out st = lines (\<lambda>e. Inr (ev_label e)) got \<and> subseq got [demo_mark]"
proof -
  obtain w where w: "world_inv w" "Snapshot (w_store w) = []" using demo_world by blast
  from json_mode_prints [OF w(1), of "\<lambda>e. Inr (ev_label e)" "''listener''" "[]" "[JsonPush demo_mark, EventBranch]"] w
  show ?thesis by auto
qed

theorem json_mode_ends_witness:
  "\<exists>w st. world_inv w \<and> runJSONMode (\<lambda>e. Inr []) ''daemon'' w [] ([JsonSourceEnds (Some ''EOF'')] @ [SourceBranch]) = Inr st
     \<and> j_result st = Some (Some ''connection to daemon lost: EOF'')"
proof -
  obtain w where w: "world_inv w" "Snapshot (w_store w) = []" using demo_world by blast
  obtain st0 where o: "json_open (\<lambda>e. Inr []) w [] = Inr st0" "j_source st0 = None" using json_open_inv [OF w(1)] by blast
  then have r: "runJSONMode (\<lambda>e. Inr []) ''daemon'' w [] [JsonSourceEnds (Some ''EOF'')] = Inr (st0\<lparr>j_source := Some (Some ''EOF'')\<rparr>)"
    by (simp add: runJSONMode_def json_step_def)
  show ?thesis using json_mode_ends [OF w(1) r, of "Some ''EOF''"] w(1)
    by (auto simp: wrapSourceError_def simp del: append.simps)
qed

section \<open>Lemmas on terminal mode\<close>

fun tui_pushed :: "tui_action list \<Rightarrow> event list" where
  "tui_pushed [] = []"
| "tui_pushed (TuiPush e # as) = e # tui_pushed as"
| "tui_pushed (_ # as) = tui_pushed as"

text \<open>What a user or the terminal may send, and what clears the feed.\<close>

fun user_act :: "tui_action \<Rightarrow> bool" where
  "user_act (TuiPush e) = named_event e"
| "user_act (TuiMsg msg) = (case msg of EventMsg e \<Rightarrow> False | _ \<Rightarrow> True)"
| "user_act _ = True"

definition clearing :: "tui_action \<Rightarrow> bool" where
  "clearing act \<longleftrightarrow> act \<in> {TuiMsg (KeyMsg ''c''), TuiMsg (KeyMsg ''M'')}"

text \<open>
  Until it has quit the program has shown all that was taken from the channel; the model keeps the
  newest of it, all of it (\<open>keep\<close>) if no clearing key was pressed.
\<close>

definition tui_run_inv :: "event list \<Rightarrow> event list \<Rightarrow> bool \<Rightarrow> event list \<Rightarrow> event list \<Rightarrow> tui_state \<Rightarrow> bool" where
  "tui_run_inv hist ps keep got seen st \<longleftrightarrow>
     world_inv (t_world st) \<and> t_sub st < length (w_chans (t_world st)) \<and> list_all named_event ps
     \<and> subseq got ps \<and> prefix seen got \<and> (\<not> t_quit st \<longrightarrow> seen = got)
     \<and> tui_inv (t_model st) \<and> settled (t_model st) \<and> suffix (items (t_model st)) (hist @ seen)
     \<and> (keep \<longrightarrow> items (t_model st) = hist @ seen)
     \<and> (if t_result st = None then feed_reads (t_world st) (t_sub st) ps got
        else t_quit st \<and> t_sub st \<notin> sub_ch ` set (subs (w_store (t_world st))))"

lemma tui_run_inv_change:
  "tui_run_inv hist ps keep got seen st \<Longrightarrow> t_world st' = t_world st \<Longrightarrow> t_sub st' = t_sub st
    \<Longrightarrow> t_model st' = t_model st \<Longrightarrow> (t_quit st \<longrightarrow> t_quit st') \<Longrightarrow> t_result st' = t_result st
    \<Longrightarrow> tui_run_inv hist ps keep got seen st'"
  by (auto simp: tui_run_inv_def)

lemma program_msg_ok:
  assumes "tui_inv (t_model st)" and "settled (t_model st)" and "named_msg msg" and "\<not> t_quit st"
  shows "\<exists>m q. program_msg msg st = Inr (st\<lparr>t_model := m, t_quitting := q\<rparr>) \<and> tui_inv m \<and> settled m
    \<and> suffix (items m) (items (t_model st) @ received_of msg)
    \<and> (msg \<notin> {KeyMsg ''c'', KeyMsg ''M''} \<longrightarrow> items m = items (t_model st) @ received_of msg)"
proof -
  obtain m cmd where u: "Update (t_model st) msg = Inr (m, cmd)" "tui_inv m"
    using Update_inv [OF assms(1,3)] by auto
  then have "update_model (t_model st) msg = Inr m" by (simp add: update_model_def)
  from update_model_items [OF assms(2) this] u assms(4) show ?thesis
    by (auto simp: program_msg_def)
qed

lemma tui_push_inv:
  assumes i: "tui_run_inv hist ps keep got seen st" and n: "named_event e"
  shows "\<exists>w. Push (t_world st) e = Inr w \<and> tui_run_inv hist (ps @ [e]) keep got seen (st\<lparr>t_world := w\<rparr>)"
proof -
  have inv: "world_inv (t_world st)" using i by (simp add: tui_run_inv_def)
  from Push_spec [OF inv, of e] obtain w where w: "Push (t_world st) e = Inr w" "world_inv w"
    "length (w_chans w) = length (w_chans (t_world st))" by blast
  have "feed_reads w (t_sub st) (ps @ [e]) got" if "t_result st = None"
    using i that sub.push_reads [of "t_world st" "t_sub st" ps got e] w(1) by (auto simp: tui_run_inv_def)
  with i n w Push_subs [OF inv w(1)] show ?thesis by (auto simp: tui_run_inv_def subseq_snoc)
qed

lemma tui_forward_inv:
  assumes i: "tui_run_inv hist ps keep got seen st"
  shows "\<exists>st' got' seen'. tui_forward st = Inr st' \<and> tui_run_inv hist ps keep got' seen' st'"
proof (cases "t_forwarding st")
  case False
  with i show ?thesis by (auto simp: tui_forward_def)
next
  case f: True
  obtain r w where rw: "Receive (t_world st) (t_sub st) = (r, w)" by (cases "Receive (t_world st) (t_sub st)")
  have w: "world_inv w" "w_store w = w_store (t_world st)" "length (w_chans w) = length (w_chans (t_world st))"
    using Receive_inv [of "t_world st" "t_sub st"] i rw by (auto simp: tui_run_inv_def Receive_def Let_def)
  show ?thesis
  proof (cases r)
    case (Got e)
    have taken: "feed_reads w (t_sub st) ps (got @ [e])" if "t_result st = None"
      using i that rw Got sub.receive_got by (auto simp: tui_run_inv_def)
    show ?thesis
    proof (cases "t_quit st")
      case True
      define got' where "got' = (if t_result st = None then got @ [e] else got)"
      have "subseq got' ps" using i taken sub.got_in_order by (auto simp: got'_def tui_run_inv_def)
      moreover have "prefix seen got'" using i by (auto simp: got'_def tui_run_inv_def intro: prefix_prefix)
      ultimately have "tui_run_inv hist ps keep got' seen (st\<lparr>t_world := w\<rparr>)"
        using i True w taken by (auto simp: tui_run_inv_def got'_def)
      with True f rw Got show ?thesis by (auto simp: tui_forward_def program_msg_def)
    next
      case False
      then have none: "t_result st = None" using i by (auto simp: tui_run_inv_def split: if_splits)
      note tk = taken [OF none] and ord = sub.got_in_order [OF taken [OF none]]
      have "e \<in> set ps" using ord by (auto dest: list_emb_set)
      then have n: "named_msg (EventMsg e)" using i by (auto simp: named_msg_def list_all_iff tui_run_inv_def)
      from i have mi: "tui_inv (t_model (st\<lparr>t_world := w\<rparr>))" "settled (t_model (st\<lparr>t_world := w\<rparr>))"
        "\<not> t_quit (st\<lparr>t_world := w\<rparr>)" using False by (simp_all add: tui_run_inv_def)
      from program_msg_ok [OF mi(1,2) n mi(3)] obtain m q where
        p: "program_msg (EventMsg e) (st\<lparr>t_world := w\<rparr>) = Inr (st\<lparr>t_world := w, t_model := m, t_quitting := q\<rparr>)"
        "tui_inv m" "settled m" "items m = items (t_model st) @ [e]"
        by (auto simp: received_of_def)
      have "suffix (items m) (hist @ got @ [e])" "keep \<longrightarrow> items m = hist @ got @ [e]"
        using i False p(4) by (auto simp: tui_run_inv_def suffix_def)
      then have "tui_run_inv hist ps keep (got @ [e]) (got @ [e]) (st\<lparr>t_world := w, t_model := m, t_quitting := q\<rparr>)"
        using i w tk ord none p by (simp add: tui_run_inv_def)
      with f rw Got p(1) show ?thesis by (auto simp: tui_forward_def)
    qed
  next
    case EndOfChan
    have "tui_run_inv hist ps keep got seen (st\<lparr>t_forwarding := False\<rparr>)" by (rule tui_run_inv_change [OF i]) simp_all
    with f rw EndOfChan show ?thesis by (auto simp: tui_forward_def)
  next
    case WouldBlock
    with i f rw show ?thesis by (auto simp: tui_forward_def)
  qed
qed

lemma program_ends_inv:
  assumes i: "tui_run_inv hist ps keep got seen st"
  shows "\<exists>st'. program_ends err st = Inr st' \<and> tui_run_inv hist ps keep got seen st'
    \<and> (t_result st' = t_result st \<or> t_result st' = Some err)"
proof (cases "t_result st \<noteq> None \<or> err = None \<and> \<not> t_quit st")
  case True
  with i show ?thesis by (auto simp: program_ends_def)
next
  case False
  with i have r: "feed_reads (t_world st) (t_sub st) ps got" by (simp add: tui_run_inv_def)
  from Unsubscribe_reads [OF r] obtain w where w: "Unsubscribe (t_world st) (t_sub st) = Inr w" "world_inv w"
    "t_sub st \<notin> sub_ch ` set (subs (w_store w))" by blast
  have "length (w_chans w) = length (w_chans (t_world st))"
    using w(1) by (auto simp: Unsubscribe_def Let_def and_then_Inr_iff split: option.splits)
  with i w have "tui_run_inv hist ps keep got seen
      (st\<lparr>t_world := w, t_quit := True, t_cancelled := True, t_result := Some err\<rparr>)"
    by (auto simp: tui_run_inv_def)
  with False w(1) show ?thesis by (auto simp: program_ends_def)
qed

lemma tui_msg_inv:
  assumes i: "tui_run_inv hist ps keep got seen st" and u: "user_act (TuiMsg msg)"
  shows "\<exists>st'. program_msg msg st = Inr st'
    \<and> tui_run_inv hist ps (keep \<and> \<not> clearing (TuiMsg msg)) got seen st'"
proof (cases "t_quit st")
  case True
  with i show ?thesis by (auto simp: program_msg_def tui_run_inv_def)
next
  case False
  have n: "named_msg msg" and rec: "received_of msg = []"
    using u by (auto simp: named_msg_def received_of_def split: tea_msg.splits)
  have m0: "tui_inv (t_model st)" "settled (t_model st)" using i by (simp_all add: tui_run_inv_def)
  from program_msg_ok [OF m0 n False] rec obtain m q where
    p: "program_msg msg st = Inr (st\<lparr>t_model := m, t_quitting := q\<rparr>)" "tui_inv m" "settled m"
    "suffix (items m) (items (t_model st))" "\<not> clearing (TuiMsg msg) \<Longrightarrow> items m = items (t_model st)"
    by (auto simp: clearing_def)
  have "suffix (items m) (hist @ seen)"
    using p(4) i by (auto simp: tui_run_inv_def intro: suffix_order.trans)
  with i p False have "tui_run_inv hist ps (keep \<and> \<not> clearing (TuiMsg msg)) got seen (st\<lparr>t_model := m, t_quitting := q\<rparr>)"
    by (auto simp: tui_run_inv_def split: if_splits)
  with p(1) show ?thesis by auto
qed

text \<open>The steps that touch neither the store nor the model.\<close>

definition quiet_act :: "tui_action \<Rightarrow> bool" where
  "quiet_act act \<longleftrightarrow> (case act of TuiPush _ \<Rightarrow> False | TuiForward \<Rightarrow> False | TuiMsg _ \<Rightarrow> False | ProgramEnds _ \<Rightarrow> False | _ \<Rightarrow> True)"

lemma quiet_act_simps [simp]:
  "quiet_act TuiCancel" "quiet_act (TuiSourceEnds err)" "quiet_act TuiForwardStops" "quiet_act TuiWatchSource"
  "quiet_act TuiWatchCancel" "quiet_act TuiQuitCommand"
  by (simp_all add: quiet_act_def)

lemma quiet_step:
  "quiet_act act \<Longrightarrow> \<exists>st'. tui_step label st act = Inr st' \<and> t_world st' = t_world st \<and> t_sub st' = t_sub st
    \<and> t_model st' = t_model st \<and> (t_quit st \<longrightarrow> t_quit st') \<and> t_result st' = t_result st"
  by (cases act)
    (simp_all add: quiet_act_def tui_step_def tui_watch_def send_quit_def Let_def split: bool.split option.split)

lemma tui_step_inv:
  assumes i: "tui_run_inv hist ps keep got seen st" and u: "user_act act"
  shows "\<exists>st' got' seen'. tui_step label st act = Inr st'
    \<and> tui_run_inv hist (ps @ tui_pushed [act]) (keep \<and> \<not> clearing act) got' seen' st'"
proof -
  have quiet: "\<exists>st' got' seen'. tui_step label st act = Inr st' \<and> tui_run_inv hist ps keep got' seen' st'" if "quiet_act act"
    using quiet_step [OF that] tui_run_inv_change [OF i] by metis
  show ?thesis
  proof (cases act)
    case (TuiPush e)
    with u have "named_event e" by simp
    from tui_push_inv [OF i this] obtain w where "Push (t_world st) e = Inr w"
      "tui_run_inv hist (ps @ [e]) keep got seen (st\<lparr>t_world := w\<rparr>)" by blast
    with TuiPush show ?thesis
      by (intro exI [of _ "st\<lparr>t_world := w\<rparr>"] exI [of _ got] exI [of _ seen]) (simp add: tui_step_def clearing_def)
  next
    case TuiForward
    with tui_forward_inv [OF i] show ?thesis by (auto simp: tui_step_def clearing_def)
  next
    case (TuiMsg msg)
    with u have "user_act (TuiMsg msg)" by simp
    from tui_msg_inv [OF i this] obtain st' where "program_msg msg st = Inr st'"
      "tui_run_inv hist ps (keep \<and> \<not> clearing (TuiMsg msg)) got seen st'" by blast
    with TuiMsg show ?thesis by (intro exI [of _ st'] exI [of _ got] exI [of _ seen]) (simp add: tui_step_def)
  next
    case (ProgramEnds err)
    from program_ends_inv [OF i, of err] obtain st' where "program_ends err st = Inr st'"
      "tui_run_inv hist ps keep got seen st'" by blast
    with ProgramEnds show ?thesis
      by (intro exI [of _ st'] exI [of _ got] exI [of _ seen]) (simp add: tui_step_def clearing_def)
  qed (use quiet in \<open>simp_all add: clearing_def\<close>)
qed

text \<open>The result is what the program ended with; the error of the source has no part in it.\<close>

lemma tui_step_result:
  assumes "tui_step label st act = Inr st'"
  shows "t_result st' = t_result st \<or> (\<exists>err. act = ProgramEnds err \<and> t_result st' = Some err)"
  using assms
  by (cases act) (auto simp: tui_step_def tui_forward_def program_msg_def tui_watch_def send_quit_def program_ends_def
      and_then_Inr_iff Let_def split: if_splits prod.splits received.splits option.splits bool.splits)

lemma tui_steps_inv:
  assumes "tui_run_inv hist ps keep got seen st" and "list_all user_act acts"
  shows "\<exists>st' got' seen'. fold_ok (tui_step label) st acts = Inr st'
    \<and> tui_run_inv hist (ps @ tui_pushed acts) (keep \<and> \<not> list_ex clearing acts) got' seen' st'
    \<and> (\<forall>r. t_result st' = Some r \<longrightarrow> t_result st = Some r \<or> ProgramEnds r \<in> set acts)"
  using assms
proof (induction acts arbitrary: ps keep got seen st)
  case (Cons act acts)
  obtain st1 got1 seen1 where s: "tui_step label st act = Inr st1"
    "tui_run_inv hist (ps @ tui_pushed [act]) (keep \<and> \<not> clearing act) got1 seen1 st1"
    using tui_step_inv [OF Cons.prems(1)] Cons.prems(2) by force
  have split: "tui_pushed (act # acts) = tui_pushed [act] @ tui_pushed acts" by (cases act) simp_all
  from Cons.IH [OF s(2)] Cons.prems(2) obtain st2 got2 seen2 where
    "fold_ok (tui_step label) st1 acts = Inr st2"
    "tui_run_inv hist ((ps @ tui_pushed [act]) @ tui_pushed acts) ((keep \<and> \<not> clearing act) \<and> \<not> list_ex clearing acts) got2 seen2 st2"
    "\<forall>r. t_result st2 = Some r \<longrightarrow> t_result st1 = Some r \<or> ProgramEnds r \<in> set acts" by auto
  with s(1) split tui_step_result [OF s(1)] show ?case
    by (intro exI [of _ st2] exI [of _ got2] exI [of _ seen2]) (auto simp: conj_ac)
qed auto

lemma tui_open_inv:
  assumes "world_inv w" and "list_all named_event (Snapshot (w_store w))"
  shows "\<exists>st. tui_open target w between = Inr st \<and> tui_run_inv (Snapshot (w_store w)) [] True [] [] st
    \<and> t_result st = None \<and> t_source st = None \<and> t_watching st \<and> t_log st = [] \<and> \<not> t_quit st"
proof -
  from open_tui_spec [OF assms, of target between] obtain m ch w2 where
    o: "open_tui target w between = Inr (m, ch, w2)" "world_inv w2" "items m = Snapshot (w_store w)" "settled m" "tui_inv m"
      "\<lparr>sub_ch = ch, sub_filter = AllowAllFilter\<rparr> \<in> set (subs (w_store w2))" "ch < length (w_chans w2)"
      "buf (w_chans w2 ! ch) = []" by blast
  then have "feed_reads w2 ch [] []" by (simp add: feed_reads_def feed_waiting_def)
  with o show ?thesis by (simp add: tui_open_def tui_init_def tui_run_inv_def)
qed

lemma tui_mode_facts:
  assumes "world_inv w" and "list_all named_event (Snapshot (w_store w))" and "list_all user_act acts"
  shows "\<exists>st seen. runTUIMode target label w between acts = Inr st \<and> tui_inv (t_model st)
    \<and> subseq seen (tui_pushed acts)
    \<and> suffix (m_all (t_model st) @ m_pending (t_model st)) (Snapshot (w_store w) @ seen)
    \<and> (\<not> list_ex clearing acts \<longrightarrow> m_all (t_model st) @ m_pending (t_model st) = Snapshot (w_store w) @ seen)
    \<and> (\<not> t_quit st \<and> length (tui_pushed acts) \<le> 100 \<longrightarrow>
         seen @ feed_waiting (t_world st) (t_sub st) = tui_pushed acts)
    \<and> (\<forall>r. t_result st = Some r \<longrightarrow> ProgramEnds r \<in> set acts
         \<and> t_sub st \<notin> sub_ch ` set (subs (w_store (t_world st))))"
proof -
  obtain st0 where o: "tui_open target w between = Inr st0"
    "tui_run_inv (Snapshot (w_store w)) [] True [] [] st0" "t_result st0 = None"
    using tui_open_inv [OF assms(1,2)] by blast
  from tui_steps_inv [OF o(2) assms(3), of label] o(3) obtain st got seen where
    s: "fold_ok (tui_step label) st0 acts = Inr st"
    "tui_run_inv (Snapshot (w_store w)) (tui_pushed acts) (\<not> list_ex clearing acts) got seen st"
    "\<forall>r. t_result st = Some r \<longrightarrow> ProgramEnds r \<in> set acts" by auto
  have sub: "subseq seen (tui_pushed acts)"
    using s(2) by (auto simp: tui_run_inv_def intro: subseq_order.trans prefix_imp_subseq)
  have full: "seen @ feed_waiting (t_world st) (t_sub st) = tui_pushed acts"
    if "\<not> t_quit st" "length (tui_pushed acts) \<le> 100"
    using s(2) that sub.no_loss [of "t_world st" "t_sub st" "tui_pushed acts" got]
    by (auto simp: tui_run_inv_def defaultSubChanCap_def split: if_splits)
  have "runTUIMode target label w between acts = Inr st" using o(1) s(1) by (simp add: runTUIMode_def)
  with s sub full show ?thesis
    by (intro exI [of _ st] exI [of _ seen]) (auto simp: tui_run_inv_def items_def)
qed

section \<open>Properties of terminal mode\<close>

text \<open>
  C12. In terminal mode over a store whose events are all named, if whatever is pushed
  after the mode subscribed is named too (a change without a table name can make the viewer
  panic), nothing panics under any order of the goroutines, the user's input and the rest
  of the process. The viewer holds the history of the store when it opened, followed by a selection in order of
  what is pushed after it subscribed, if no clearing key is pressed, and the newest part of that otherwise.
  Until it quits, and up to 100 pushed events, only those are missing that still wait in its channel.
  If the mode returns, it returns what the program ended with, and is no longer subscribed.
\<close>

theorem tui_mode_shows:
  assumes "world_inv w" and "list_all named_event (Snapshot (w_store w))" and "list_all user_act acts"
  shows "\<exists>st seen. runTUIMode target label w between acts = Inr st \<and> tui_inv (t_model st)
    \<and> subseq seen (tui_pushed acts)
    \<and> suffix (m_all (t_model st) @ m_pending (t_model st)) (Snapshot (w_store w) @ seen)
    \<and> (\<not> list_ex clearing acts \<longrightarrow> m_all (t_model st) @ m_pending (t_model st) = Snapshot (w_store w) @ seen)
    \<and> (\<not> t_quit st \<and> length (tui_pushed acts) \<le> 100 \<longrightarrow>
         seen @ feed_waiting (t_world st) (t_sub st) = tui_pushed acts)
    \<and> (\<forall>r. t_result st = Some r \<longrightarrow> ProgramEnds r \<in> set acts
         \<and> t_sub st \<notin> sub_ch ` set (subs (w_store (t_world st))))"
  by (rule tui_mode_facts [OF assms])

theorem tui_mode_shows_witness:
  "\<exists>w st seen. world_inv w \<and> runTUIMode ''db'' ''listener'' w [] [TuiPush demo_mark, TuiForward] = Inr st
     \<and> subseq seen [demo_mark] \<and> m_all (t_model st) @ m_pending (t_model st) = seen"
proof -
  obtain w where w: "world_inv w" "Snapshot (w_store w) = []" using demo_world by blast
  have "list_all named_event (Snapshot (w_store w))" "list_all user_act [TuiPush demo_mark, TuiForward]"
    by (simp_all add: w named_event_def)
  from tui_mode_shows [OF w(1) this, of "''db''" "''listener''" "[]"] w show ?thesis
    by (auto simp: clearing_def)
qed

text \<open>What a run keeps of the errors of its source.\<close>

definition tui_errors :: "string \<Rightarrow> tui_action list \<Rightarrow> tui_state \<Rightarrow> bool" where
  "tui_errors label acts st \<longleftrightarrow>
     (\<forall>r. t_result st = Some r \<longrightarrow> ProgramEnds r \<in> set acts)
   \<and> (\<forall>err. t_source st = Some err \<longrightarrow> TuiSourceEnds err \<in> set acts)
   \<and> (t_log st = [] \<or> (\<exists>e. t_source st = Some (Some e) \<and> t_log st = lost_text label e \<and> t_quit st \<and> \<not> t_watching st))"

lemma program_msg_errors:
  "program_msg m st = Inr st' \<Longrightarrow> t_result st' = t_result st \<and> t_source st' = t_source st \<and> t_log st' = t_log st
     \<and> t_watching st' = t_watching st \<and> (t_quit st \<longrightarrow> t_quit st')"
  by (auto simp: program_msg_def and_then_Inr_iff split: if_splits prod.splits)

lemma tui_step_errors:
  assumes "tui_errors label acts st" and "tui_step label st act = Inr st'"
  shows "tui_errors label (acts @ [act]) st'"
proof -
  have msg: "tui_errors label (acts @ [act]) st'" if "program_msg m (st\<lparr>t_world := w\<rparr>) = Inr st'" for m w
    using program_msg_errors [OF that] assms(1) by (auto simp: tui_errors_def)
  have "st\<lparr>t_world := t_world st\<rparr> = st" by simp
  with msg [of _ "t_world st"] have msg0: "tui_errors label (acts @ [act]) st'" if "program_msg m st = Inr st'" for m
    using that by simp
  show ?thesis
  proof (cases act)
    case TuiForward
    then show ?thesis using assms msg
      by (auto simp: tui_step_def tui_forward_def split: if_splits prod.splits received.splits)
        (auto simp: tui_errors_def)
  next
    case (TuiMsg m)
    then show ?thesis using assms(2) msg0 by (simp add: tui_step_def)
  next
    case TuiWatchSource
    then show ?thesis using assms
      by (auto simp: tui_step_def tui_watch_def send_quit_def tui_errors_def Let_def split: option.splits bool.splits)
  qed (use assms in \<open>auto simp: tui_step_def send_quit_def program_ends_def and_then_Inr_iff tui_errors_def split: if_splits\<close>)
qed

lemma tui_steps_errors:
  "tui_errors label acts st \<Longrightarrow> fold_ok (tui_step label) st bs = Inr st' \<Longrightarrow> tui_errors label (acts @ bs) st'"
proof (induction bs arbitrary: acts st)
  case (Cons b bs)
  then obtain st1 where "tui_step label st b = Inr st1" "fold_ok (tui_step label) st1 bs = Inr st'"
    by (auto simp: and_then_Inr_iff)
  with Cons.IH [OF tui_step_errors [OF Cons.prems(1)]] show ?case by fastforce
qed simp

definition json_errors :: "json_action list \<Rightarrow> json_state \<Rightarrow> bool" where
  "json_errors acts st \<longleftrightarrow> (\<forall>err. j_source st = Some err \<longrightarrow> JsonSourceEnds err \<in> set acts)"

lemma json_step_errors:
  assumes "json_errors acts st" and "json_step marshal label st act = Inr st'"
  shows "json_errors (acts @ [act]) st'"
  using assms by (cases act) (auto simp: json_step_def json_errors_def json_event_def json_source_def json_return_def
      and_then_Inr_iff split: if_splits prod.splits received.splits option.splits)

lemma json_steps_errors:
  "json_errors acts st \<Longrightarrow> fold_ok (json_step marshal label) st bs = Inr st' \<Longrightarrow> json_errors (acts @ bs) st'"
proof (induction bs arbitrary: acts st)
  case (Cons b bs)
  then obtain st1 where "json_step marshal label st b = Inr st1" "fold_ok (json_step marshal label) st1 bs = Inr st'"
    by (auto simp: and_then_Inr_iff)
  with Cons.IH [OF json_step_errors [OF Cons.prems(1)]] show ?case by fastforce
qed simp

text \<open>
  C39. Only the JSON mode returns the error of its source. Whatever the goroutines, the user and the
  rest of the process do (the history and what is pushed being named events), terminal mode
  returns nothing but what the terminal program returned, and writes at most the one error of the
  source to standard error, quitting the program; if the source has failed and the goroutine has not seen
  it yet, the next step of that goroutine does so, and the mode then returns success. JSON mode
  returns only the labelled error that the source ended with, and once the source has failed it
  returns that error, which is not success, at its next look at the source.
\<close>

theorem tui_mode_hides_error:
  assumes "world_inv w" and "list_all named_event (Snapshot (w_store w))" and "list_all user_act tacts"
  shows "(\<exists>t. runTUIMode target label w between tacts = Inr t
      \<and> (\<forall>r. t_result t = Some r \<longrightarrow> ProgramEnds r \<in> set tacts)
      \<and> (t_log t = [] \<or> (\<exists>e. TuiSourceEnds (Some e) \<in> set tacts \<and> t_log t = lost_text label e \<and> t_quit t))
      \<and> (\<forall>e. t_source t = Some (Some e) \<and> t_watching t \<and> t_result t = None \<longrightarrow>
           (\<exists>t'. runTUIMode target label w between (tacts @ [TuiWatchSource, ProgramEnds None]) = Inr t'
              \<and> t_result t' = Some None \<and> t_log t' = lost_text label e)))
    \<and> (\<exists>j. runJSONMode marshal label w between jacts = Inr j
      \<and> (\<forall>r. j_result j = Some r \<longrightarrow> (\<exists>err. JsonSourceEnds err \<in> set jacts \<and> r = wrapSourceError label err))
      \<and> (\<forall>e. j_source j = Some (Some e) \<longrightarrow>
           (\<exists>j' r. runJSONMode marshal label w between (jacts @ [SourceBranch]) = Inr j'
              \<and> j_result j' = Some (Some r) \<and> Some r = wrapSourceError label (Some e))))"
proof (rule conjI)
  obtain st0 where o: "tui_open target w between = Inr st0" "tui_run_inv (Snapshot (w_store w)) [] True [] [] st0"
    "t_result st0 = None" "t_source st0 = None" "t_watching st0" "t_log st0 = []"
    using tui_open_inv [OF assms(1,2)] by blast
  from tui_steps_inv [OF o(2) assms(3), of label] obtain t keep got took where
    t: "fold_ok (tui_step label) st0 tacts = Inr t" "tui_run_inv (Snapshot (w_store w)) (tui_pushed tacts) keep got took t" by auto
  have run: "runTUIMode target label w between tacts = Inr t" using o(1) t(1) by (simp add: runTUIMode_def)
  have "tui_errors label [] st0" using o(3-6) by (simp add: tui_errors_def)
  from tui_steps_errors [OF this t(1)] have err: "tui_errors label tacts t" by simp
  have ends: "\<exists>t'. runTUIMode target label w between (tacts @ [TuiWatchSource, ProgramEnds None]) = Inr t'
      \<and> t_result t' = Some None \<and> t_log t' = lost_text label e"
    if e: "t_source t = Some (Some e)" "t_watching t" "t_result t = None" for e
  proof -
    let ?t = "t\<lparr>t_watching := False, t_quit := True, t_log := lost_text label e\<rparr>"
    have "t_log t = []" using err e(2) by (auto simp: tui_errors_def)
    then have f: "fold_ok (tui_step label) t [TuiWatchSource, ProgramEnds None] = program_ends None ?t"
      using e by (simp add: tui_step_def tui_watch_def send_quit_def Let_def and_then_def split: sum.split)
    have "feed_reads (t_world ?t) (t_sub ?t) (tui_pushed tacts) got" using t(2) e(3) by (simp add: tui_run_inv_def)
    from Unsubscribe_reads [OF this] obtain w' where "Unsubscribe (t_world ?t) (t_sub ?t) = Inr w'" by blast
    with o(1) t(1) f e(3) show ?thesis by (simp add: runTUIMode_def fold_ok_append program_ends_def del: fold_ok.simps)
  qed
  show "\<exists>t. runTUIMode target label w between tacts = Inr t
      \<and> (\<forall>r. t_result t = Some r \<longrightarrow> ProgramEnds r \<in> set tacts)
      \<and> (t_log t = [] \<or> (\<exists>e. TuiSourceEnds (Some e) \<in> set tacts \<and> t_log t = lost_text label e \<and> t_quit t))
      \<and> (\<forall>e. t_source t = Some (Some e) \<and> t_watching t \<and> t_result t = None \<longrightarrow>
           (\<exists>t'. runTUIMode target label w between (tacts @ [TuiWatchSource, ProgramEnds None]) = Inr t'
              \<and> t_result t' = Some None \<and> t_log t' = lost_text label e))"
    using run err ends unfolding tui_errors_def by blast
next
  obtain st0 where o: "json_open marshal w between = Inr st0" "j_source st0 = None"
    "json_inv marshal label (lastn (capacity (w_store w)) (Snapshot (w_store w) @ between)) between [] st0"
    using json_open_inv [OF assms(1)] by blast
  obtain j got where j: "fold_ok (json_step marshal label) st0 jacts = Inr j"
    "json_inv marshal label (lastn (capacity (w_store w)) (Snapshot (w_store w) @ between)) (between @ json_pushed jacts) got j"
    using json_steps_inv [OF o(3), of jacts] by auto
  have run: "runJSONMode marshal label w between jacts = Inr j" using o(1) j(1) by (simp add: runJSONMode_def)
  have "json_errors [] st0" using o(2) by (simp add: json_errors_def)
  from json_steps_errors [OF this j(1)] have err: "json_errors jacts j" by simp
  have res: "\<exists>err. j_source j = Some err \<and> r = wrapSourceError label err" if "j_result j = Some r" for r
    using j(2) that by (simp add: json_inv_def)
  have ends: "\<exists>j' r. runJSONMode marshal label w between (jacts @ [SourceBranch]) = Inr j'
      \<and> j_result j' = Some (Some r) \<and> Some r = wrapSourceError label (Some e)"
    if "j_source j = Some (Some e)" for e
    using json_returns [OF assms(1) run that] by (auto simp: wrapSourceError_def)
  show "\<exists>j. runJSONMode marshal label w between jacts = Inr j
      \<and> (\<forall>r. j_result j = Some r \<longrightarrow> (\<exists>err. JsonSourceEnds err \<in> set jacts \<and> r = wrapSourceError label err))
      \<and> (\<forall>e. j_source j = Some (Some e) \<longrightarrow>
           (\<exists>j' r. runJSONMode marshal label w between (jacts @ [SourceBranch]) = Inr j'
              \<and> j_result j' = Some (Some r) \<and> Some r = wrapSourceError label (Some e)))"
    using run err res ends unfolding json_errors_def by blast
qed

theorem tui_mode_hides_error_witness:
  "\<exists>w t. world_inv w
     \<and> runTUIMode ''db'' ''listener'' w [] ([TuiSourceEnds (Some ''EOF'')] @ [TuiWatchSource, ProgramEnds None]) = Inr t
     \<and> t_result t = Some None \<and> t_log t = nl @ ''listener error: EOF'' @ nl"
proof -
  obtain w where w: "world_inv w" "Snapshot (w_store w) = []" using demo_world by blast
  have n: "list_all named_event (Snapshot (w_store w))" "list_all user_act [TuiSourceEnds (Some ''EOF'')]" by (simp_all add: w)
  obtain st0 where o: "tui_open ''db'' w [] = Inr st0" "t_result st0 = None" "t_source st0 = None" "t_watching st0"
    using tui_open_inv [OF w(1) n(1)] by blast
  then have run: "runTUIMode ''db'' ''listener'' w [] [TuiSourceEnds (Some ''EOF'')] = Inr (st0\<lparr>t_source := Some (Some ''EOF'')\<rparr>)"
    by (simp add: runTUIMode_def tui_step_def)
  have "\<exists>t. runTUIMode ''db'' ''listener'' w [] ([TuiSourceEnds (Some ''EOF'')] @ [TuiWatchSource, ProgramEnds None]) = Inr t
     \<and> t_result t = Some None \<and> t_log t = lost_text ''listener'' ''EOF''"
    using tui_mode_hides_error [OF w(1) n, of "''db''" "''listener''" "[]" "\<lambda>e. Inr []" "[]"] o run
    by (auto simp del: append.simps)
  moreover have "lost_text ''listener'' ''EOF'' = nl @ ''listener error: EOF'' @ nl" by (simp add: lost_text_def)
  ultimately show ?thesis using w(1) by metis
qed

end
