(* ===== verification/Serving.thy ===== *)
theory Serving
  imports Daemon Ipc Marker_Api
begin

text \<open>
  The servers of the daemon from their start to their end: \<open>ListenAndServe\<close> of \<open>ipc/server.go\<close> and
  of \<open>markerapi/server.go\<close>, and the other end, \<open>Dial\<close> of \<open>ipc/client.go\<close>. What the operating system
  answers to a step is an argument: \<open>fault\<close> for the files and sockets, a list for what a loop meets.
\<close>

section \<open>The socket of the daemon (ipc/server.go)\<close>

text \<open>\<open>os.RemoveAll\<close> takes a directory with all that is in it, and a missing path is no error.\<close>

definition os_RemoveAll :: "faults \<Rightarrow> string \<Rightarrow> files \<Rightarrow> string + files" where
  "os_RemoveAll fault path fs =
    (case fault ''removeall'' path of
       Some e \<Rightarrow> Inl e
     | None \<Rightarrow> Inr (\<lambda>q. if q = path \<or> prefix (path @ ''/'') q then None else fs q))"

definition net_Listen :: "faults \<Rightarrow> string \<Rightarrow> files \<Rightarrow> string + files" where
  "net_Listen fault path fs =
    (case fault ''listen'' path of
       Some e \<Rightarrow> Inl e
     | None \<Rightarrow> if fs path \<noteq> None then Inl (''listen unix '' @ path @ '': bind: address already in use'')
               else Inr (fs(path \<mapsto> Socket)))"

text \<open>Closing a listener removes the socket that it made.\<close>

definition net_Close :: "faults \<Rightarrow> string \<Rightarrow> files \<Rightarrow> files" where
  "net_Close fault path fs = (case os_Remove fault path fs of Inl e \<Rightarrow> fs | Inr fs1 \<Rightarrow> fs1)"

text \<open>
  What \<open>Accept\<close> returns: a connection, the error of a closed listener (also any error once the
  context is cancelled), or another error.
\<close>

datatype accept = Accepted | AcceptClosed | AcceptError string

text \<open>\<open>ip_conns\<close> counts the handlers that were started, \<open>ip_err\<close> is what waits in \<open>errCh\<close>.\<close>

record ipc_server =
  ip_conns :: nat
  ip_err :: "string option"
  ip_files :: files
  ip_result :: "string option option"

fun accept_loop :: "faults \<Rightarrow> string \<Rightarrow> accept list \<Rightarrow> ipc_server \<Rightarrow> ipc_server" where
  "accept_loop fault path [] s = s"
| "accept_loop fault path (Accepted # as) s = accept_loop fault path as (s\<lparr>ip_conns := ip_conns s + 1\<rparr>)"
| "accept_loop fault path (AcceptClosed # as) s =
     s\<lparr>ip_files := net_Close fault path (ip_files s), ip_result := Some None\<rparr>"
| "accept_loop fault path (AcceptError e # as) s =
     accept_loop fault path as
       (if ip_err s = None then s\<lparr>ip_err := Some (''accept connection: '' @ e)\<rparr> else s)"

definition ListenAndServe :: "faults \<Rightarrow> string \<Rightarrow> files \<Rightarrow> accept list \<Rightarrow> ipc_server" where
  "ListenAndServe fault path fs as =
    (let s = \<lparr>ip_conns = 0, ip_err = None, ip_files = fs, ip_result = None\<rparr>
     in case os_RemoveAll fault path fs of
       Inl e \<Rightarrow> s\<lparr>ip_result := Some (Some (''remove stale socket: '' @ e))\<rparr>
     | Inr fs1 \<Rightarrow>
         (case net_Listen fault path fs1 of
            Inl e \<Rightarrow> s\<lparr>ip_files := fs1, ip_result := Some (Some (''listen unix socket: '' @ e))\<rparr>
          | Inr fs2 \<Rightarrow>
              (case fault ''chmod'' path of
                 Some e \<Rightarrow> s\<lparr>ip_files := net_Close fault path fs2,
                             ip_result := Some (Some (''set socket permissions: '' @ e))\<rparr>
               | None \<Rightarrow> accept_loop fault path as (s\<lparr>ip_files := fs2\<rparr>))))"

section \<open>The other end (ipc/client.go)\<close>

text \<open>\<open>hs\<close>: the first two messages that are read from the connection.\<close>

definition Dial :: "(nat \<Rightarrow> bool) \<Rightarrow> codec \<Rightarrow> string option \<Rightarrow> decoded \<times> decoded \<Rightarrow> string + client" where
  "Dial uni cd connect hs =
    (case connect of
       Some e \<Rightarrow> Inl (''connect to daemon socket: '' @ e)
     | None \<Rightarrow> readHandshake uni cd (fst hs) (snd hs))"

text \<open>The JSON text of \<open>SubscribeData\<close>, whose empty list of tables is omitted.\<close>

definition subscribeEnvelope :: envelope where
  "subscribeEnvelope = \<lparr>env_type = TypeSubscribe, env_data = ''{'' @ dquote @ ''filter'' @ dquote @ '':{}}''\<rparr>"

definition Client_Ping :: "string option \<Rightarrow> string option \<Rightarrow> string option" where
  "Client_Ping enc flush = client_send enc flush"

definition SubscribeAll :: "string option \<Rightarrow> string option \<Rightarrow> string option" where
  "SubscribeAll enc flush = client_send enc flush"

definition nowSeconds :: "go_time \<Rightarrow> go_time \<Rightarrow> int" where
  "nowSeconds start now = (if unix_ns start = unix_ns zero_time then 0 else seconds_since start now)"

definition Client_Snapshot :: "client \<Rightarrow> event list" where
  "Client_Snapshot c = cl_snapshot c"

section \<open>The marker server (markerapi/server.go)\<close>

record marker_server =
  ms_opts :: server_options
  ms_addr :: string

definition setAddr :: "string \<Rightarrow> marker_server \<Rightarrow> marker_server" where
  "setAddr addr s = s\<lparr>ms_addr := addr\<rparr>"

definition marker_handlers :: "string \<Rightarrow> server_options \<Rightarrow> handlers" where
  "marker_handlers version opts = \<lparr>h_start = so_start opts, h_version = version\<rparr>"

text \<open>
  What the \<open>select\<close> sees: the context is cancelled, or \<open>Serve\<close> has returned, with the error it puts
  into \<open>errCh\<close> (none for \<open>ErrServerClosed\<close>). After a cancellation \<open>Shutdown\<close> makes \<open>Serve\<close> return.
\<close>

datatype serve_event = CtxCancelled | ServeReturned "string option"

fun serve_wait :: "bool \<Rightarrow> serve_event list \<Rightarrow> string option option" where
  "serve_wait cancelled [] = None"
| "serve_wait cancelled (CtxCancelled # es) = serve_wait True es"
| "serve_wait cancelled (ServeReturned err # es) = Some (if cancelled then None else err)"

text \<open>\<open>bound\<close>: the address that was bound, or why it could not be.\<close>

definition marker_ListenAndServe :: "bool \<Rightarrow> string + string \<Rightarrow> serve_event list \<Rightarrow> marker_server
    \<Rightarrow> string option option \<times> marker_server" where
  "marker_ListenAndServe has_store bound es s =
    (if \<not> has_store then (Some (Some ''markerapi: Store is required''), s)
     else (case bound of
         Inl e \<Rightarrow> (Some (Some (''marker api listen '' @ listen_addr (ms_opts s) @ '': '' @ e)), s)
       | Inr addr \<Rightarrow> (serve_wait False es, setAddr addr s)))"

section \<open>Lemmas\<close>

definition served :: "accept list \<Rightarrow> accept list" where
  "served as = takeWhile (\<lambda>a. a \<noteq> AcceptClosed) as"

lemma served_simps [simp]:
  "served [] = []" "served (Accepted # as) = Accepted # served as" "served (AcceptClosed # as) = []"
  "served (AcceptError e # as) = AcceptError e # served as"
  by (simp_all add: served_def)

fun first_error :: "accept list \<Rightarrow> string option" where
  "first_error [] = None"
| "first_error (AcceptError e # as) = Some (''accept connection: '' @ e)"
| "first_error (a # as) = first_error as"

lemma accept_loop_spec:
  "ip_result s = None \<Longrightarrow> accept_loop fault path as s = s
     \<lparr>ip_conns := ip_conns s + count_list (served as) Accepted,
      ip_err := (if ip_err s = None then first_error (served as) else ip_err s),
      ip_files := (if AcceptClosed \<in> set as then net_Close fault path (ip_files s) else ip_files s),
      ip_result := (if AcceptClosed \<in> set as then Some None else None)\<rparr>"
  by (induction fault path as s rule: accept_loop.induct) auto

section \<open>Properties\<close>

text \<open>
  C30. The socket server, once it listens, ends only when its listener is closed, then without an
  error and with its socket removed; until then it starts a handler for every connection that was
  accepted. Other errors of \<open>Accept\<close> neither end it nor get out: the first of them waits in a channel that
  nothing reads. No file is touched but the socket and what was below its path.
\<close>

theorem ipc_server_ends:
  assumes "fault ''removeall'' path = None" and "fault ''listen'' path = None" and "fault ''chmod'' path = None"
    and "fault ''remove'' path = None"
  shows "ip_result (ListenAndServe fault path fs as) = (if AcceptClosed \<in> set as then Some None else None)
    \<and> ip_conns (ListenAndServe fault path fs as) = count_list (served as) Accepted
    \<and> ip_err (ListenAndServe fault path fs as) = first_error (served as)
    \<and> (\<forall>q. ip_files (ListenAndServe fault path fs as) q =
         (if q = path then (if AcceptClosed \<in> set as then None else Some Socket)
          else if prefix (path @ ''/'') q then None else fs q))"
proof -
  let ?fs = "(\<lambda>q. if q = path \<or> prefix (path @ ''/'') q then None else fs q)(path \<mapsto> Socket)"
  let ?s = "\<lparr>ip_conns = 0, ip_err = None, ip_files = ?fs, ip_result = None\<rparr>"
  have l: "ListenAndServe fault path fs as = accept_loop fault path as ?s"
    using assms(1-3) by (simp add: ListenAndServe_def os_RemoveAll_def net_Listen_def Let_def)
  have c: "net_Close fault path ?fs = ?fs(path := None)" using assms(4) by (simp add: net_Close_def os_Remove_def)
  show ?thesis unfolding l accept_loop_spec [of ?s, simplified] by (simp add: c)
qed

definition no_faults :: faults where
  "no_faults = (\<lambda>op path. None)"

theorem ipc_server_ends_witness:
  "ip_result (ListenAndServe no_faults ''/run/d.sock'' (\<lambda>q. None) [Accepted, AcceptError ''EMFILE'', Accepted, AcceptClosed]) = Some None
   \<and> ip_conns (ListenAndServe no_faults ''/run/d.sock'' (\<lambda>q. None) [Accepted, AcceptError ''EMFILE'', Accepted, AcceptClosed]) = 2"
  using ipc_server_ends [of no_faults "''/run/d.sock''" "\<lambda>q. None" "[Accepted, AcceptError ''EMFILE'', Accepted, AcceptClosed]"]
  by (simp add: no_faults_def)

end
