(* ===== verification/Tail_Cmd.thy ===== *)
theory Tail_Cmd
  imports Cli Run_Modes Serving Attach
begin

text \<open>
  The command \<open>tail\<close> of \<open>cmd/dbwatch/main.go\<close> up to its viewing mode, and what the modes do to a
  store that others feed.
\<close>

section \<open>Set-up\<close>

datatype slog_level = LevelDebug | LevelInfo | LevelWarn | LevelError

definition setupLogger :: "string \<Rightarrow> slog_level" where
  "setupLogger level =
    (if level = ''debug'' then LevelDebug else if level = ''info'' then LevelInfo
     else if level = ''error'' then LevelError else LevelWarn)"

text \<open>The levels are ordered, and a handler drops what is below its own.\<close>

fun level_rank :: "slog_level \<Rightarrow> int" where
  "level_rank LevelDebug = -4"
| "level_rank LevelInfo = 0"
| "level_rank LevelWarn = 4"
| "level_rank LevelError = 8"

instantiation slog_level :: linorder
begin

definition less_eq_slog_level :: "slog_level \<Rightarrow> slog_level \<Rightarrow> bool" where
  "less_eq_slog_level a b \<longleftrightarrow> level_rank a \<le> level_rank b"

definition less_slog_level :: "slog_level \<Rightarrow> slog_level \<Rightarrow> bool" where
  "less_slog_level a b \<longleftrightarrow> level_rank a < level_rank b"

instance
proof
  show "a = b" if "a \<le> b" "b \<le> a" for a b :: slog_level
    using that by (cases a; cases b) (simp_all add: less_eq_slog_level_def)
qed (auto simp: less_eq_slog_level_def less_slog_level_def)

end

definition logged :: "slog_level \<Rightarrow> (slog_level \<times> string) list \<Rightarrow> string list" where
  "logged level msgs = map snd (filter (\<lambda>m. level \<le> fst m) msgs)"

text \<open>What \<open>runTail\<close> has before it starts the source and the mode.\<close>

record tail_setup =
  ts_config :: config
  ts_level :: slog_level
  ts_tui :: bool
  ts_world :: feed_world
  ts_marker :: "server_options option"

definition tail_setup_of :: "(nat \<Rightarrow> bool) \<Rightarrow> (string \<Rightarrow> string) \<Rightarrow> flag_set \<Rightarrow> bool \<Rightarrow> go_time
    \<Rightarrow> string + (go_panic + tail_setup)" where
  "tail_setup_of uni env fs tty now =
    (case Load uni env fs of
       Inl e \<Rightarrow> Inl e
     | Inr cfg \<Rightarrow> Inr (and_then (New (BufferSize cfg)) (\<lambda>s.
         Inr \<lparr>ts_config = cfg, ts_level = setupLogger (LogLevel cfg), ts_tui = shouldUseTUI tty (fs_string fs ''output''),
              ts_world = new_world s, ts_marker = startMarkerAPI now fs now\<rparr>)))"

text \<open>\<open>main\<close>: what goes to standard error and the exit status.\<close>

definition main_exit :: "string option \<Rightarrow> string \<times> int" where
  "main_exit err = (case err of None \<Rightarrow> ([], 0) | Some e \<Rightarrow> (e @ nl, 1))"

section \<open>Lemmas\<close>

text \<open>A higher level logs less, and an unknown one is taken as the default.\<close>

lemma logged_mono: "a \<le> b \<Longrightarrow> subseq (logged b msgs) (logged a msgs)"
  unfolding logged_def by (induction msgs) auto

lemma setupLogger_unknown:
  "level \<notin> {''debug'', ''info'', ''warn'', ''error''} \<Longrightarrow> setupLogger level = setupLogger DefaultLogLevel"
  by (simp add: setupLogger_def DefaultLogLevel_def)


lemma json_pushes_inv:
  "json_inv marshal label hist ps got j \<Longrightarrow> fold_ok Push (j_world j) es = Inr w
    \<Longrightarrow> json_inv marshal label hist (ps @ es) got (j\<lparr>j_world := w\<rparr>)"
proof (induction es arbitrary: ps j)
  case (Cons e es)
  obtain w1 where w1: "Push (j_world j) e = Inr w1" "json_inv marshal label hist (ps @ [e]) got (j\<lparr>j_world := w1\<rparr>)"
    using json_push_inv [OF Cons.prems(1), of e] by blast
  with Cons.prems(2) have "fold_ok Push (j_world (j\<lparr>j_world := w1\<rparr>)) es = Inr w" by simp
  from Cons.IH [OF w1(2) this] show ?case by simp
qed (auto intro: json_inv_change)

definition viewer_own :: "json_action \<Rightarrow> bool" where
  "viewer_own x \<longleftrightarrow> (case x of JsonPush _ \<Rightarrow> False | JsonSourceEnds _ \<Rightarrow> False | _ \<Rightarrow> True)"

text \<open>The viewer's own steps change neither what the store shows nor the source.\<close>

definition same_shown :: "json_state \<Rightarrow> json_state \<Rightarrow> bool" where
  "same_shown j j' \<longleftrightarrow> same_feed (j_world j) (j_world j') \<and> j_source j' = j_source j"

lemma json_return_shown: "json_return r j = Inr j' \<Longrightarrow> same_shown j j'"
  by (auto simp: json_return_def and_then_Inr_iff same_shown_def dest: Unsubscribe_feed)

lemma json_event_shown: "json_event marshal j = Inr j' \<Longrightarrow> same_shown j j'"
  by (auto simp: json_event_def same_shown_def dest: Receive_feed json_return_shown same_feed_trans split: prod.splits received.splits)

lemma json_source_shown: "json_source label j = Inr j' \<Longrightarrow> same_shown j j'"
  by (auto simp: json_source_def dest: json_return_shown split: option.splits) (simp add: same_shown_def)

lemma viewer_own_shown:
  assumes "viewer_own x" and "json_step marshal label j x = Inr j'"
  shows "same_shown j j'"
  using assms json_event_shown json_source_shown
  by (cases x) (auto simp: viewer_own_def json_step_def same_shown_def split: if_splits)

lemma json_inv_source:
  assumes "json_inv marshal label hist ps got j" and "\<And>e. j_source j = Some e \<Longrightarrow> src = Some e"
  shows "json_inv marshal label hist ps got (j\<lparr>j_source := src\<rparr>)"
  using assms by (auto simp: json_inv_def split: option.splits)


end
