(* ===== verification/Tail_Stream.thy ===== *)
theory Tail_Stream
  imports Tail_Source Tail_Cmd
begin

text \<open>
  \<open>dbwatch tail\<close> from the replication stream to what its user sees: the source of \<open>Tail_Source\<close> and
  one of the two modes of \<open>Run_Modes\<close> over one store and one context. The locale \<open>feed_viewer\<close> says
  what a mode owes to its source, and both modes are interpretations of it.
\<close>

section \<open>A source and a viewer\<close>

text \<open>
  What the composition needs of a mode: the store it reads, the cancellation and the error channel
  it shares with the source, and its own steps.
\<close>

record ('v, 'x) viewer =
  vw_world :: "'v \<Rightarrow> feed_world"
  vw_put :: "bool \<Rightarrow> feed_world \<Rightarrow> 'v \<Rightarrow> 'v"
  vw_source :: "'v \<Rightarrow> string option option"
  vw_send :: "string option \<Rightarrow> 'v \<Rightarrow> 'v"
  vw_cancelled :: "'v \<Rightarrow> bool"
  vw_own :: "'x \<Rightarrow> bool"
  vw_step :: "'v \<Rightarrow> 'x \<Rightarrow> go_panic + 'v"

datatype 'x tail_act = SourceSide source_act | SourceSends | ModeSide 'x

fun tail_step :: "('s, 'd) tail_env \<Rightarrow> config \<Rightarrow> ('v, 'x) viewer \<Rightarrow> tail_source \<times> 'v \<Rightarrow> 'x tail_act
    \<Rightarrow> go_panic + (tail_source \<times> 'v)" where
  "tail_step TE cfg V (src, v) (SourceSide x) =
     and_then (source_step TE cfg (src, vw_world V v) x) (\<lambda>(src1, w1).
       Inr (src1, vw_put V (src_cancelled src1) w1 v))"
| "tail_step TE cfg V (src, v) SourceSends =
     Inr (src, case source_result src of
       Some r \<Rightarrow> if vw_source V v = None then vw_send V r v else v
     | None \<Rightarrow> v)"
| "tail_step TE cfg V (src, v) (ModeSide x) =
     (if \<not> vw_own V x then Inr (src, v)
      else and_then (vw_step V v x) (\<lambda>v1.
        if vw_cancelled V v1 then
          and_then (source_step TE cfg (src, vw_world V v1) Interrupt) (\<lambda>(src1, w1). Inr (src1, v1))
        else Inr (src, v1)))"

text \<open>The two modes. A push, the end of the source and an interrupt are not their own steps.\<close>

definition json_viewer :: "(event \<Rightarrow> string + string) \<Rightarrow> string \<Rightarrow> (json_state, json_action) viewer" where
  "json_viewer marshal label =
    \<lparr>vw_world = j_world, vw_put = (\<lambda>c w j. j\<lparr>j_world := w, j_cancelled := c\<rparr>), vw_source = j_source,
     vw_send = (\<lambda>r j. j\<lparr>j_source := Some r\<rparr>), vw_cancelled = j_cancelled,
     vw_own = (\<lambda>x. viewer_own x \<and> x \<noteq> JsonCancel), vw_step = json_step marshal label\<rparr>"

definition tui_own :: "tui_action \<Rightarrow> bool" where
  "tui_own x \<longleftrightarrow> (case x of TuiPush _ \<Rightarrow> False | TuiCancel \<Rightarrow> False | TuiSourceEnds _ \<Rightarrow> False | _ \<Rightarrow> True)"

definition tui_viewer :: "string \<Rightarrow> (tui_state, tui_action) viewer" where
  "tui_viewer label =
    \<lparr>vw_world = t_world, vw_put = (\<lambda>c w t. t\<lparr>t_world := w, t_cancelled := c\<rparr>), vw_source = t_source,
     vw_send = (\<lambda>r t. t\<lparr>t_source := Some r\<rparr>), vw_cancelled = t_cancelled,
     vw_own = tui_own, vw_step = tui_step label\<rparr>"

section \<open>The command\<close>

text \<open>
  \<open>before\<close>: what the source does before the mode looks at the store, \<open>mid\<close>: what it does before the
  mode has subscribed and read the history, in the mode's own order.
\<close>

definition tail_start :: "('s, 'd) tail_env \<Rightarrow> config \<Rightarrow> feed_world \<Rightarrow> source_act list \<Rightarrow> go_panic + (tail_source \<times> feed_world)" where
  "tail_start TE cfg w before = fold_ok (source_step TE cfg) (\<lparr>src_phase = CoreStarting, src_cancelled = False\<rparr>, w) before"

definition runTailJSON :: "('s, 'd) tail_env \<Rightarrow> config \<Rightarrow> (event \<Rightarrow> string + string) \<Rightarrow> feed_world \<Rightarrow> source_act list \<Rightarrow> source_act list
    \<Rightarrow> json_action tail_act list \<Rightarrow> go_panic + (tail_source \<times> json_state)" where
  "runTailJSON TE cfg marshal w0 before mid acts =
    and_then (tail_start TE cfg w0 before) (\<lambda>(src, w).
      let (sub, w1) = Subscribe w in
      and_then (fold_ok (source_step TE cfg) (src, w1) mid) (\<lambda>(src2, w2).
        fold_ok (tail_step TE cfg (json_viewer marshal ''listener''))
          (src2, (foldl (print_event marshal) (json_init w2 sub None) (Snapshot (w_store w2)))
             \<lparr>j_cancelled := src_cancelled src2\<rparr>) acts))"

definition runTailTUI :: "('s, 'd) tail_env \<Rightarrow> config \<Rightarrow> feed_world \<Rightarrow> source_act list \<Rightarrow> source_act list
    \<Rightarrow> tui_action tail_act list \<Rightarrow> go_panic + (tail_source \<times> tui_state)" where
  "runTailTUI TE cfg w0 before mid acts =
    and_then (tail_start TE cfg w0 before) (\<lambda>(src, w).
      let m = NewWithEvents (DBURL cfg) (Snapshot (w_store w)) in
      and_then (fold_ok (source_step TE cfg) (src, w) mid) (\<lambda>(src2, w2).
        let (sub, w3) = Subscribe w2 in
        fold_ok (tail_step TE cfg (tui_viewer ''listener''))
          (src2, (tui_init w3 sub m)\<lparr>t_cancelled := src_cancelled src2\<rparr>) acts))"

datatype mode_run = TuiRun tui_state | JsonRun json_state

definition runTail :: "(nat \<Rightarrow> bool) \<Rightarrow> (string \<Rightarrow> string) \<Rightarrow> flag_set \<Rightarrow> bool \<Rightarrow> ('s, 'd) tail_env
    \<Rightarrow> (event \<Rightarrow> string + string) \<Rightarrow> source_act list \<Rightarrow> source_act list \<Rightarrow> tui_action tail_act list \<Rightarrow> json_action tail_act list
    \<Rightarrow> string + (go_panic + (tail_source \<times> mode_run))" where
  "runTail uni env fs tty TE marshal before mid tacts jacts =
    (case tail_setup_of uni env fs tty (te_now TE) of
       Inl e \<Rightarrow> Inl e
     | Inr r \<Rightarrow> Inr (and_then r (\<lambda>ts.
         if ts_tui ts
         then and_then (runTailTUI TE (ts_config ts) (ts_world ts) before mid tacts) (\<lambda>(src, t). Inr (src, TuiRun t))
         else and_then (runTailJSON TE (ts_config ts) marshal (ts_world ts) before mid jacts) (\<lambda>(src, j). Inr (src, JsonRun j)))))"

section \<open>The contract of a viewer\<close>

text \<open>
  \<open>inv ps v\<close>: the viewer is in order after the pushes \<open>ps\<close>. It takes pushes by others, and its own
  steps, if they are \<open>ok\<close>, succeed and leave the feed and the source alone.
\<close>

locale feed_viewer =
  fixes V :: "('v, 'x) viewer"
    and named :: bool
    and ok :: "'x \<Rightarrow> bool"
    and inv :: "event list \<Rightarrow> 'v \<Rightarrow> bool"
  assumes put_world: "vw_world V (vw_put V c w v) = w"
    and put_source: "vw_source V (vw_put V c w v) = vw_source V v"
    and put_inv: "inv ps v \<Longrightarrow> fold_ok Push (vw_world V v) es = Inr w \<Longrightarrow> (named \<Longrightarrow> list_all named_event es)
      \<Longrightarrow> inv (ps @ es) (vw_put V c w v)"
    and send_world: "vw_world V (vw_send V r v) = vw_world V v"
    and send_source: "vw_source V (vw_send V r v) = Some r' \<Longrightarrow> r' = r"
    and send_inv: "inv ps v \<Longrightarrow> vw_source V v = None \<Longrightarrow> inv ps (vw_send V r v)"
    and inv_world: "inv ps v \<Longrightarrow> world_inv (vw_world V v)"
    and step_inv: "inv ps v \<Longrightarrow> vw_own V x \<Longrightarrow> ok x \<Longrightarrow> \<exists>v'. vw_step V v x = Inr v' \<and> inv ps v'
      \<and> same_feed (vw_world V v) (vw_world V v') \<and> vw_source V v' = vw_source V v"
begin

text \<open>The composed system: the invariants of both sides, and no error but that of the source.\<close>

definition sound :: "('s, 'd) tail_env \<Rightarrow> config \<Rightarrow> bool \<Rightarrow> nat \<Rightarrow> event list \<Rightarrow> event list \<Rightarrow> core_act list
    \<Rightarrow> tail_source \<times> 'v \<Rightarrow> bool" where
  "sound TE cfg alone cap pre ps acts s \<longleftrightarrow>
    source_inv TE cfg alone named cap (pre @ ps) acts (fst s) (vw_world V (snd s)) \<and> inv ps (snd s)
    \<and> (\<forall>r. vw_source V (snd s) = Some r \<longrightarrow> source_result (fst s) = Some r)"

end

fun source_acts :: "'x tail_act list \<Rightarrow> source_act list" where
  "source_acts [] = []"
| "source_acts (SourceSide x # xs) = x # source_acts xs"
| "source_acts (_ # xs) = source_acts xs"

definition tail_ok :: "bool \<Rightarrow> bool \<Rightarrow> ('x \<Rightarrow> bool) \<Rightarrow> 'x tail_act \<Rightarrow> bool" where
  "tail_ok alone nm ok x \<longleftrightarrow>
    (case x of SourceSide y \<Rightarrow> source_ok alone nm y | ModeSide y \<Rightarrow> ok y | SourceSends \<Rightarrow> True)"

context feed_viewer begin

text \<open>One step of the system: what it pushes, what the core does, and its share of the turns.\<close>

definition advances :: "('s, 'd) tail_env \<Rightarrow> config \<Rightarrow> bool \<Rightarrow> nat \<Rightarrow> event list \<Rightarrow> event list \<Rightarrow> core_act list
    \<Rightarrow> tail_source \<times> 'v \<Rightarrow> 'x tail_act list \<Rightarrow> bool" where
  "advances TE cfg alone cap pre ps acts s xs \<longleftrightarrow>
    (\<exists>s' ps' acts'. fold_ok (tail_step TE cfg V) s xs = Inr s' \<and> sound TE cfg alone cap pre (ps @ ps') (acts @ acts') s'
      \<and> (\<forall>ys. source_turns (opened (fst s)) (source_acts xs @ ys) = turns_of acts' @ source_turns (opened (fst s')) ys))"

lemma advancesI:
  assumes "fold_ok (tail_step TE cfg V) s xs = Inr s'" and "sound TE cfg alone cap pre (ps @ ps') (acts @ acts') s'"
    and "\<And>ys. source_turns (opened (fst s)) (source_acts xs @ ys) = turns_of acts' @ source_turns (opened (fst s')) ys"
  shows "advances TE cfg alone cap pre ps acts s xs"
  using assms unfolding advances_def by blast

lemma source_side:
  assumes i: "sound TE cfg alone cap pre ps acts (src, v)" and x: "source_ok alone named x"
    and h: "0 < BufferSize cfg" "alone \<longrightarrow> \<not> TrackDDL cfg" "named \<longrightarrow> wire_named (co_wire (te_core TE))"
  shows "advances TE cfg alone cap pre ps acts (src, v) [SourceSide x]"
proof -
  have "source_inv TE cfg alone named cap (pre @ ps) acts src (vw_world V v)" using i by (simp add: sound_def)
  from source_step_does [OF this x h] obtain src1 w1 ps1 acts1 where
    s: "source_step TE cfg (src, vw_world V v) x = Inr (src1, w1)"
      "source_does TE cfg alone named cap (pre @ ps) acts (src, vw_world V v) [x] (src1, w1) ps1 acts1" by blast
  let ?v = "vw_put V (src_cancelled src1) w1 v"
  have d: "source_inv TE cfg alone named cap ((pre @ ps) @ ps1) (acts @ acts1) src1 w1"
      "fold_ok Push (vw_world V v) ps1 = Inr w1" "named \<longrightarrow> list_all named_event ps1"
      "source_turns (opened src) ([x] @ ys) = turns_of acts1 @ source_turns (opened src1) ys" for ys
    using s(2) by (simp_all add: source_does_def)
  have "inv (ps @ ps1) ?v" using i d(3) by (intro put_inv [OF _ d(2)]) (simp_all add: sound_def)
  moreover have "source_result src1 = Some r" if "vw_source V ?v = Some r" for r
    using that i source_result_kept [OF s(1)] by (simp add: put_source sound_def)
  ultimately have "sound TE cfg alone cap pre (ps @ ps1) (acts @ acts1) (src1, ?v)"
    using d(1) by (simp add: sound_def put_world)
  then show ?thesis using s(1) d(4) by (intro advancesI [of TE cfg _ _ "(src1, ?v)" _ _ _ _ ps1 _ acts1]) simp_all
qed

lemma source_sends:
  assumes i: "sound TE cfg alone cap pre ps acts (src, v)"
  shows "advances TE cfg alone cap pre ps acts (src, v) [SourceSends]"
proof -
  let ?v = "case source_result src of Some r \<Rightarrow> if vw_source V v = None then vw_send V r v else v | None \<Rightarrow> v"
  have "sound TE cfg alone cap pre (ps @ []) (acts @ []) (src, ?v)"
    using i send_inv [of ps v] by (auto simp: sound_def send_world dest: send_source split: option.splits)
  then show ?thesis by (intro advancesI [of TE cfg _ _ "(src, ?v)" _ _ _ _ "[]" _ "[]"]) simp_all
qed

lemma mode_side:
  assumes i: "sound TE cfg alone cap pre ps acts (src, v)" and x: "ok x"
  shows "advances TE cfg alone cap pre ps acts (src, v) [ModeSide x]"
proof (cases "vw_own V x")
  case False
  with i show ?thesis by (intro advancesI [of TE cfg _ _ "(src, v)" _ _ _ _ "[]" _ "[]"]) simp_all
next
  case True
  have v: "inv ps v" using i by (simp add: sound_def)
  from step_inv [OF v True x] obtain v1 where v1: "vw_step V v x = Inr v1" "inv ps v1"
    "same_feed (vw_world V v) (vw_world V v1)" "vw_source V v1 = vw_source V v" by blast
  have "source_inv TE cfg alone named cap (pre @ ps) acts src (vw_world V v)" using i by (simp add: sound_def)
  from source_inv_feed [OF this v1(3) inv_world [OF v1(2)]]
  have s1: "source_inv TE cfg alone named cap (pre @ ps) acts src (vw_world V v1)" .
  show ?thesis
  proof (cases "vw_cancelled V v1")
    case False
    have "sound TE cfg alone cap pre (ps @ []) (acts @ []) (src, v1)" using i v1 s1 by (simp add: sound_def)
    with True v1(1) False show ?thesis by (intro advancesI [of TE cfg _ _ "(src, v1)" _ _ _ _ "[]" _ "[]"]) simp_all
  next
    case cancelled: True
    from source_interrupts [OF s1] obtain src2 acts2 where
      s2: "source_step TE cfg (src, vw_world V v1) Interrupt = Inr (src2, vw_world V v1)"
        "source_inv TE cfg alone named cap (pre @ ps) (acts @ acts2) src2 (vw_world V v1)"
        "turns_of acts2 = []" "opened src2 = opened src" by blast
    have "source_result src2 = Some r" if "source_result src = Some r" for r using source_result_kept [OF s2(1) that] .
    with s2(2) i v1(2,4) have "sound TE cfg alone cap pre (ps @ []) (acts @ acts2) (src2, v1)" by (simp add: sound_def)
    with True v1(1) cancelled s2 show ?thesis
      by (intro advancesI [of TE cfg _ _ "(src2, v1)" _ _ _ _ "[]" _ acts2]) simp_all
  qed
qed

text \<open>Any number of steps.\<close>

lemma advances_Cons:
  assumes "advances TE cfg alone cap pre ps acts s [x]"
    and "\<And>s' ps' acts'. sound TE cfg alone cap pre (ps @ ps') (acts @ acts') s'
      \<Longrightarrow> advances TE cfg alone cap pre (ps @ ps') (acts @ acts') s' xs"
  shows "advances TE cfg alone cap pre ps acts s (x # xs)"
proof -
  from assms(1) obtain s1 ps1 acts1 where 1: "tail_step TE cfg V s x = Inr s1"
    "sound TE cfg alone cap pre (ps @ ps1) (acts @ acts1) s1"
    "\<forall>ys. source_turns (opened (fst s)) (source_acts [x] @ ys) = turns_of acts1 @ source_turns (opened (fst s1)) ys"
    by (auto simp: advances_def and_then_Inr_iff)
  from assms(2) [OF 1(2)] obtain s2 ps2 acts2 where 2: "fold_ok (tail_step TE cfg V) s1 xs = Inr s2"
    "sound TE cfg alone cap pre ((ps @ ps1) @ ps2) ((acts @ acts1) @ acts2) s2"
    "\<forall>ys. source_turns (opened (fst s1)) (source_acts xs @ ys) = turns_of acts2 @ source_turns (opened (fst s2)) ys"
    by (auto simp: advances_def)
  have split: "source_acts (x # xs) = source_acts [x] @ source_acts xs" by (cases x) simp_all
  show ?thesis
  proof (rule advancesI [of TE cfg _ _ s2 _ _ _ _ "ps1 @ ps2" _ "acts1 @ acts2"])
    show "source_turns (opened (fst s)) (source_acts (x # xs) @ ys)
        = turns_of (acts1 @ acts2) @ source_turns (opened (fst s2)) ys" for ys
      unfolding split using 1(3) 2(3) by (simp del: source_acts.simps)
  qed (use 1 2 in simp_all)
qed

lemma tail_steps:
  assumes h: "0 < BufferSize cfg" "alone \<longrightarrow> \<not> TrackDDL cfg" "named \<longrightarrow> wire_named (co_wire (te_core TE))"
  shows "sound TE cfg alone cap pre ps acts s \<Longrightarrow> list_all (tail_ok alone named ok) xs
    \<Longrightarrow> advances TE cfg alone cap pre ps acts s xs"
proof (induction xs arbitrary: ps acts s)
  case Nil
  then show ?case by (intro advancesI [of TE cfg _ _ s _ _ _ _ "[]" _ "[]"]) simp_all
next
  case (Cons x xs)
  obtain src v where s: "s = (src, v)" by (cases s)
  from Cons.prems(2) have x: "tail_ok alone named ok x" and xs: "list_all (tail_ok alone named ok) xs" by simp_all
  have "advances TE cfg alone cap pre ps acts (src, v) [x]"
  proof (cases x)
    case (SourceSide y)
    then have "source_ok alone named y" using x by (simp add: tail_ok_def)
    from source_side [OF Cons.prems(1) [unfolded s] this h] show ?thesis unfolding SourceSide .
  next
    case SourceSends
    from source_sends [OF Cons.prems(1) [unfolded s]] show ?thesis unfolding SourceSends .
  next
    case (ModeSide y)
    then have "ok y" using x by (simp add: tail_ok_def)
    from mode_side [OF Cons.prems(1) [unfolded s] this] show ?thesis unfolding ModeSide .
  qed
  then show ?case unfolding s by (rule advances_Cons) (rule Cons.IH [OF _ xs])
qed

end

section \<open>The two modes keep the contract\<close>

text \<open>JSON mode, which has printed \<open>hist\<close>.\<close>

definition json_reads :: "(event \<Rightarrow> string + string) \<Rightarrow> string \<Rightarrow> event list \<Rightarrow> event list \<Rightarrow> json_state \<Rightarrow> bool" where
  "json_reads marshal label hist ps j \<longleftrightarrow> (\<exists>got. json_inv marshal label hist ps got j)"

lemma json_reads_step:
  assumes "json_reads marshal label hist ps j" and "viewer_own x"
  shows "\<exists>j'. json_step marshal label j x = Inr j' \<and> json_reads marshal label hist ps j'
    \<and> same_feed (j_world j) (j_world j') \<and> j_source j' = j_source j"
proof -
  obtain got where "json_inv marshal label hist ps got j" using assms(1) by (auto simp: json_reads_def)
  moreover have "json_pushed [x] = []" using assms(2) by (cases x) (simp_all add: viewer_own_def)
  ultimately obtain j' got' where s: "json_step marshal label j x = Inr j'"
    "json_inv marshal label hist ps got' j'" using json_step_inv [of marshal label hist ps got j x] by auto
  with viewer_own_shown [OF assms(2) s(1)] show ?thesis by (auto simp: json_reads_def same_shown_def same_feed_def)
qed

lemma json_reads_put:
  assumes "json_reads marshal label hist ps j" and "fold_ok Push (j_world j) es = Inr w"
  shows "json_reads marshal label hist (ps @ es) (j\<lparr>j_world := w, j_cancelled := c\<rparr>)"
proof -
  obtain got where "json_inv marshal label hist ps got j" using assms(1) by (auto simp: json_reads_def)
  from json_pushes_inv [OF this assms(2)] have "json_inv marshal label hist (ps @ es) got (j\<lparr>j_world := w\<rparr>)" .
  then have "json_inv marshal label hist (ps @ es) got (j\<lparr>j_world := w, j_cancelled := c\<rparr>)"
    by (rule json_inv_change) simp_all
  then show ?thesis unfolding json_reads_def by blast
qed

lemma json_reads_send:
  assumes "json_reads marshal label hist ps j" and "j_source j = None"
  shows "json_reads marshal label hist ps (j\<lparr>j_source := Some r\<rparr>)"
proof -
  obtain got where "json_inv marshal label hist ps got j" using assms(1) by (auto simp: json_reads_def)
  then have "json_inv marshal label hist ps got (j\<lparr>j_source := Some r\<rparr>)"
    by (rule json_inv_source) (simp add: assms(2))
  then show ?thesis unfolding json_reads_def by blast
qed

interpretation js: feed_viewer "json_viewer marshal label" False "\<lambda>x. True" "json_reads marshal label hist" for marshal label hist
proof (rule feed_viewer.intro, goal_cases)
  case (3 ps v es w c)
  then show ?case by (simp add: json_viewer_def json_reads_put)
next
  case (6 ps v r)
  then show ?case by (simp add: json_viewer_def json_reads_send)
next
  case (7 ps v)
  then show ?case by (auto simp: json_viewer_def json_reads_def json_inv_def)
next
  case (8 ps v x)
  then show ?case using json_reads_step [of marshal label hist ps v x] by (simp add: json_viewer_def)
qed (simp_all add: json_viewer_def)

text \<open>Terminal mode, which has started from \<open>hist\<close>; with \<open>b\<close> no clearing key is pressed.\<close>

definition tui_reads :: "event list \<Rightarrow> bool \<Rightarrow> event list \<Rightarrow> tui_state \<Rightarrow> bool" where
  "tui_reads hist b ps t \<longleftrightarrow> (\<exists>keep got took. tui_run_inv hist ps keep got took t \<and> (b \<longrightarrow> keep))"

lemma tui_own_shown:
  assumes "tui_own x" and "tui_step label t x = Inr t'"
  shows "same_feed (t_world t) (t_world t') \<and> t_source t' = t_source t"
proof -
  have refl: "same_feed w w" for w by (simp add: same_feed_def)
  show ?thesis using assms refl
    by (cases x) (auto simp: tui_own_def tui_step_def tui_forward_def program_msg_def tui_watch_def send_quit_def
        program_ends_def and_then_Inr_iff Let_def dest: Unsubscribe_feed Receive_feed
        split: if_splits prod.splits received.splits option.splits bool.splits)
qed

lemma tui_reads_step:
  assumes "tui_reads hist b ps t" and "tui_own x" and "user_act x" and "b \<longrightarrow> \<not> clearing x"
  shows "\<exists>t'. tui_step label t x = Inr t' \<and> tui_reads hist b ps t'
    \<and> same_feed (t_world t) (t_world t') \<and> t_source t' = t_source t"
proof -
  obtain keep got took where i: "tui_run_inv hist ps keep got took t" "b \<longrightarrow> keep" using assms(1) by (auto simp: tui_reads_def)
  have p: "tui_pushed [x] = []" using assms(2) by (cases x) (simp_all add: tui_own_def)
  from tui_step_inv [OF i(1) assms(3), of label] p obtain t' got' took' where s: "tui_step label t x = Inr t'"
    "tui_run_inv hist ps (keep \<and> \<not> clearing x) got' took' t'" by auto
  from s(2) i(2) assms(4) have "tui_reads hist b ps t'" unfolding tui_reads_def by blast
  with s(1) tui_own_shown [OF assms(2) s(1)] show ?thesis by simp
qed

lemma tui_pushes_inv:
  "tui_run_inv hist ps keep got took t \<Longrightarrow> fold_ok Push (t_world t) es = Inr w \<Longrightarrow> list_all named_event es
    \<Longrightarrow> tui_run_inv hist (ps @ es) keep got took (t\<lparr>t_world := w\<rparr>)"
proof (induction es arbitrary: ps t)
  case (Cons e es)
  obtain w1 where w1: "Push (t_world t) e = Inr w1" "tui_run_inv hist (ps @ [e]) keep got took (t\<lparr>t_world := w1\<rparr>)"
    using tui_push_inv [OF Cons.prems(1), of e] Cons.prems(3) by auto
  with Cons.prems(2) have "fold_ok Push (t_world (t\<lparr>t_world := w1\<rparr>)) es = Inr w" by simp
  from Cons.IH [OF w1(2) this] Cons.prems(3) show ?case by simp
qed (auto intro: tui_run_inv_change)

lemma tui_reads_put:
  assumes "tui_reads hist b ps t" and "fold_ok Push (t_world t) es = Inr w" and "list_all named_event es"
  shows "tui_reads hist b (ps @ es) (t\<lparr>t_world := w, t_cancelled := c\<rparr>)"
proof -
  obtain keep got took where i: "tui_run_inv hist ps keep got took t" "b \<longrightarrow> keep" using assms(1) by (auto simp: tui_reads_def)
  from tui_pushes_inv [OF i(1) assms(2,3)]
  have "tui_run_inv hist (ps @ es) keep got took (t\<lparr>t_world := w, t_cancelled := c\<rparr>)" by (rule tui_run_inv_change) simp_all
  with i(2) show ?thesis unfolding tui_reads_def by blast
qed

lemma tui_reads_send:
  assumes "tui_reads hist b ps t"
  shows "tui_reads hist b ps (t\<lparr>t_source := Some r\<rparr>)"
proof -
  obtain keep got took where i: "tui_run_inv hist ps keep got took t" "b \<longrightarrow> keep" using assms by (auto simp: tui_reads_def)
  from i(1) have "tui_run_inv hist ps keep got took (t\<lparr>t_source := Some r\<rparr>)" by (rule tui_run_inv_change) simp_all
  with i(2) show ?thesis unfolding tui_reads_def by blast
qed

interpretation ts: feed_viewer "tui_viewer label" True "\<lambda>x. user_act x \<and> (b \<longrightarrow> \<not> clearing x)" "tui_reads hist b" for label hist b
proof (rule feed_viewer.intro, goal_cases)
  case (3 ps v es w c)
  then show ?case by (simp add: tui_viewer_def tui_reads_put)
next
  case (6 ps v r)
  then show ?case by (simp add: tui_viewer_def tui_reads_send)
next
  case (7 ps v)
  then show ?case by (auto simp: tui_viewer_def tui_reads_def tui_run_inv_def)
next
  case (8 ps v x)
  then show ?case using tui_reads_step [of hist b ps v x] by (simp add: tui_viewer_def)
qed (simp_all add: tui_viewer_def)

section \<open>From the start\<close>

text \<open>The source before the mode: the store is new, so all it shows has been pushed by somebody.\<close>

lemma tail_start_does:
  assumes h: "0 < BufferSize cfg" "alone \<longrightarrow> \<not> TrackDDL cfg" "nm \<longrightarrow> wire_named (co_wire (te_core TE))"
    and new: "New (BufferSize cfg) = Inr s" and ok: "list_all (source_ok alone nm) before"
  shows "\<exists>src w pre acts. tail_start TE cfg (new_world s) before = Inr (src, w)
    \<and> source_inv TE cfg alone nm (nat (BufferSize cfg)) pre acts src w \<and> (nm \<longrightarrow> list_all named_event pre)
    \<and> (\<forall>ys. source_turns False (before @ ys) = turns_of acts @ source_turns (opened src) ys)"
proof -
  let ?src = "\<lparr>src_phase = CoreStarting, src_cancelled = False\<rparr>"
  have w: "world_inv (new_world s)" "Snapshot (w_store (new_world s)) = []" "capacity (w_store (new_world s)) = nat (BufferSize cfg)"
    using new_world_inv [OF h(1) new] New_ring_inv [OF h(1) new] by (simp_all add: new_world_def)
  moreover have "w_log (new_world s) = []" by (simp add: new_world_def)
  ultimately have "source_inv TE cfg alone nm (nat (BufferSize cfg)) [] [] ?src (new_world s)" by (simp add: source_inv_def)
  from source_steps_does [OF h this ok] obtain src w1 ps acts where
    d: "fold_ok (source_step TE cfg) (?src, new_world s) before = Inr (src, w1)"
      "source_does TE cfg alone nm (nat (BufferSize cfg)) [] [] (?src, new_world s) before (src, w1) ps acts" by blast
  have "tail_start TE cfg (new_world s) before = Inr (src, w1)" using d(1) by (simp add: tail_start_def)
  with d(2) show ?thesis
    by (intro exI [of _ src] exI [of _ w1] exI [of _ ps] exI [of _ acts]) (simp add: source_does_def opened_def)
qed

lemma tail_json_facts:
  assumes h: "0 < BufferSize cfg" "alone \<longrightarrow> \<not> TrackDDL cfg" and new: "New (BufferSize cfg) = Inr s"
    and ok: "list_all (source_ok alone False) (before @ mid @ source_acts acts)"
  shows "\<exists>src0 w0 src1 w1 src j pre m ps cacts. runTailJSON TE cfg marshal (new_world s) before mid acts = Inr (src, j) \<and> (mid = [] \<longrightarrow> m = [])
    \<and> tail_start TE cfg (new_world s) before = Inr (src0, w0) \<and> w_log w0 = pre
    \<and> fold_ok (source_step TE cfg) (src0, snd (Subscribe w0)) mid = Inr (src1, w1) \<and> w_log w1 = pre @ m
    \<and> source_inv TE cfg alone False (nat (BufferSize cfg)) (pre @ m @ ps) cacts src (j_world j)
    \<and> json_reads marshal ''listener'' (lastn (nat (BufferSize cfg)) (pre @ m)) (m @ ps) j
    \<and> (\<forall>r. j_source j = Some r \<longrightarrow> source_result src = Some r)
    \<and> turns_of cacts = source_turns False (before @ mid @ source_acts acts)"
proof -
  have ok1: "list_all (source_ok alone False) before" "list_all (source_ok alone False) mid" using ok by simp_all
  have "list_all (source_ok alone False) (source_acts acts)" using ok by simp
  then have ok2: "list_all (tail_ok alone False (\<lambda>x. True)) acts"
    by (induction acts rule: source_acts.induct) (simp_all add: tail_ok_def)
  let ?cap = "nat (BufferSize cfg)"
  from tail_start_does [OF h _ new ok1(1), of TE] obtain src w pre a1 where
    1: "tail_start TE cfg (new_world s) before = Inr (src, w)" "source_inv TE cfg alone False ?cap pre a1 src w"
      "\<forall>ys. source_turns False (before @ ys) = turns_of a1 @ source_turns (opened src) ys" by auto
  have w: "world_inv w" "w_log w = pre" using 1(2) by (simp_all add: source_inv_def)
  obtain ch w1 where sub: "Subscribe w = (ch, w1)" by (cases "Subscribe w")
  note s1 = Subscribe_reads [OF w(1) sub]
  have i1: "source_inv TE cfg alone False ?cap pre a1 src w1"
    by (rule source_inv_feed [OF 1(2) Subscribe_feed(2) [OF sub] feed_reads_world [OF s1(1)]])
  from source_steps_does [OF h _ i1 ok1(2)] obtain src2 w2 m a2 where
    2: "fold_ok (source_step TE cfg) (src, w1) mid = Inr (src2, w2)"
      "source_does TE cfg alone False ?cap pre a1 (src, w1) mid (src2, w2) m a2" "mid = [] \<longrightarrow> m = []" by auto
  have d2: "source_inv TE cfg alone False ?cap (pre @ m) (a1 @ a2) src2 w2" "fold_ok Push w1 m = Inr w2"
      "\<forall>ys. source_turns (opened src) (mid @ ys) = turns_of a2 @ source_turns (opened src2) ys" "w_log w2 = pre @ m"
    using 2(2) by (simp_all add: source_does_def source_inv_def)
  have reads: "feed_reads w2 ch m []" using sub.pushes_reads [OF s1(1), of m] d2(2) by auto
  let ?hist = "Snapshot (w_store w2)"
  have hist: "?hist = lastn ?cap (pre @ m)" using d2(1) by (simp add: source_inv_def)
  let ?j = "(foldl (print_event marshal) (json_init w2 ch None) ?hist)\<lparr>j_cancelled := src_cancelled src2\<rparr>"
  have "json_inv marshal ''listener'' ?hist m [] ?j"
    using reads feed_reads_world [OF reads] by (simp add: json_inv_def print_events_frame json_init_def)
  then have "js.sound marshal ''listener'' ?hist TE cfg alone ?cap pre m (a1 @ a2) (src2, ?j)"
    using d2(1) unfolding js.sound_def
    by (auto simp: json_reads_def json_viewer_def print_events_frame json_init_def)
  from js.tail_steps [OF h _ this ok2] obtain s' ps acts' where
    3: "fold_ok (tail_step TE cfg (json_viewer marshal ''listener'')) (src2, ?j) acts = Inr s'"
      "js.sound marshal ''listener'' ?hist TE cfg alone ?cap pre (m @ ps) ((a1 @ a2) @ acts') s'"
      "\<forall>ys. source_turns (opened src2) (source_acts acts @ ys) = turns_of acts' @ source_turns (opened (fst s')) ys"
    unfolding js.advances_def by auto
  obtain src3 j where s': "s' = (src3, j)" by (cases s')
  have "source_turns False (before @ mid @ source_acts acts) = turns_of ((a1 @ a2) @ acts')"
    using 1(3) d2(3) 3(3) [rule_format, of "[]"] by simp
  moreover have "runTailJSON TE cfg marshal (new_world s) before mid acts = Inr (src3, j)"
    using 1(1) sub 2(1) 3(1) s' by (simp add: runTailJSON_def)
  ultimately show ?thesis using 2(3) 3(2) s' hist unfolding js.sound_def
    using 1(1) 2(1) sub w(2) d2(4)
    by (intro exI [of _ src] exI [of _ w] exI [of _ src2] exI [of _ w2] exI [of _ src3] exI [of _ j] exI [of _ pre] exI [of _ m] exI [of _ ps] exI [of _ "(a1 @ a2) @ acts'"])
      (simp add: json_viewer_def)
qed

lemma tail_tui_facts:
  assumes h: "0 < BufferSize cfg" "alone \<longrightarrow> \<not> TrackDDL cfg" "wire_named (co_wire (te_core TE))" and new: "New (BufferSize cfg) = Inr s"
    and ok: "list_all (source_ok alone True) (before @ mid)"
    and ok2: "list_all (tail_ok alone True (\<lambda>x. user_act x \<and> (b \<longrightarrow> \<not> clearing x))) acts"
  shows "\<exists>src0 w0 src1 w1 src t pre m ps cacts. runTailTUI TE cfg (new_world s) before mid acts = Inr (src, t) \<and> (mid = [] \<longrightarrow> m = [])
    \<and> tail_start TE cfg (new_world s) before = Inr (src0, w0) \<and> w_log w0 = pre
    \<and> fold_ok (source_step TE cfg) (src0, w0) mid = Inr (src1, w1) \<and> w_log w1 = pre @ m
    \<and> source_inv TE cfg alone True (nat (BufferSize cfg)) (pre @ m @ ps) cacts src (t_world t)
    \<and> tui_reads (lastn (nat (BufferSize cfg)) pre) b ps t
    \<and> turns_of cacts = source_turns False (before @ mid @ source_acts acts)"
proof -
  have ok1: "list_all (source_ok alone True) before" "list_all (source_ok alone True) mid" using ok by simp_all
  let ?cap = "nat (BufferSize cfg)"
  from tail_start_does [OF h(1,2) _ new ok1(1), of TE] h(3) obtain src w pre a1 where
    1: "tail_start TE cfg (new_world s) before = Inr (src, w)" "source_inv TE cfg alone True ?cap pre a1 src w" "list_all named_event pre"
      "\<forall>ys. source_turns False (before @ ys) = turns_of a1 @ source_turns (opened src) ys" by auto
  let ?hist = "Snapshot (w_store w)"
  have hist: "?hist = lastn ?cap pre" using 1(2) by (simp add: source_inv_def)
  then have named: "list_all named_event ?hist" using 1(3) by (auto simp: list_all_iff lastn_def dest: in_set_dropD)
  let ?m = "NewWithEvents (DBURL cfg) ?hist"
  from source_steps_does [OF h(1,2) _ 1(2) ok1(2)] h(3) obtain src2 w2 mp a2 where
    2: "fold_ok (source_step TE cfg) (src, w) mid = Inr (src2, w2)"
      "source_does TE cfg alone True ?cap pre a1 (src, w) mid (src2, w2) mp a2" "mid = [] \<longrightarrow> mp = []" by auto
  have d2: "source_inv TE cfg alone True ?cap (pre @ mp) (a1 @ a2) src2 w2" "Push_all w mp = Inr w2"
      "\<forall>ys. source_turns (opened src) (mid @ ys) = turns_of a2 @ source_turns (opened src2) ys"
    using 2(2) by (simp_all add: source_does_def Push_all_def)
  have w2: "world_inv w2" and log: "w_log w = pre" "w_log w2 = pre @ mp" using 1(2) d2(1) by (simp_all add: source_inv_def)
  obtain ch w3 where sub: "Subscribe w2 = (ch, w3)" by (cases "Subscribe w2")
  note s3 = Subscribe_reads [OF w2 sub]
  have i3: "source_inv TE cfg alone True ?cap (pre @ mp) (a1 @ a2) src2 w3"
    by (rule source_inv_feed [OF d2(1) Subscribe_feed(2) [OF sub] feed_reads_world [OF s3(1)]])
  have "world_inv w" using 1(2) by (simp add: source_inv_def)
  then have "tui_open (DBURL cfg) w mp = Inr (tui_init w3 ch ?m)"
    using d2(2) sub by (simp add: tui_open_def open_tui_def Let_def)
  with tui_open_inv [OF \<open>world_inv w\<close> named, of "DBURL cfg" mp]
  have "tui_run_inv ?hist [] True [] [] (tui_init w3 ch ?m)" by auto
  then have "tui_run_inv ?hist [] True [] [] ((tui_init w3 ch ?m)\<lparr>t_cancelled := src_cancelled src2\<rparr>)" (is "tui_run_inv _ _ _ _ _ ?t")
    by (rule tui_run_inv_change) simp_all
  then have "ts.sound ''listener'' ?hist b TE cfg alone ?cap (pre @ mp) [] (a1 @ a2) (src2, ?t)"
    using i3 unfolding ts.sound_def by (auto simp: tui_reads_def tui_viewer_def tui_init_def)
  from ts.tail_steps [OF h(1,2) _ this ok2] h(3) obtain s' ps acts' where
    3: "fold_ok (tail_step TE cfg (tui_viewer ''listener'')) (src2, ?t) acts = Inr s'"
      "ts.sound ''listener'' ?hist b TE cfg alone ?cap (pre @ mp) ps ((a1 @ a2) @ acts') s'"
      "\<forall>ys. source_turns (opened src2) (source_acts acts @ ys) = turns_of acts' @ source_turns (opened (fst s')) ys"
    unfolding ts.advances_def by auto
  obtain src3 t where s': "s' = (src3, t)" by (cases s')
  have "source_turns False (before @ mid @ source_acts acts) = turns_of ((a1 @ a2) @ acts')"
    using 1(4) d2(3) 3(3) [rule_format, of "[]"] by simp
  moreover have "runTailTUI TE cfg (new_world s) before mid acts = Inr (src3, t)"
    using 1(1) sub 2(1) 3(1) s' by (simp add: runTailTUI_def Let_def)
  ultimately show ?thesis using 2(3) 3(2) s' hist unfolding ts.sound_def
    using 1(1) 2(1) log
    by (intro exI [of _ src] exI [of _ w] exI [of _ src2] exI [of _ w2] exI [of _ src3] exI [of _ t] exI [of _ pre] exI [of _ mp] exI [of _ ps] exI [of _ "(a1 @ a2) @ acts'"])
      (simp add: tui_viewer_def)
qed

text \<open>The mode that the flags choose, over a new store.\<close>

lemma runTail_modes:
  assumes "Load uni env fs = Inr cfg" and "New (BufferSize cfg) = Inr s"
  shows "shouldUseTUI tty (fs_string fs ''output'') \<Longrightarrow> runTailTUI TE cfg (new_world s) before mid tacts = Inr (src, t)
      \<Longrightarrow> runTail uni env fs tty TE marshal before mid tacts jacts = Inr (Inr (src, TuiRun t))"
    and "\<not> shouldUseTUI tty (fs_string fs ''output'') \<Longrightarrow> runTailJSON TE cfg marshal (new_world s) before mid jacts = Inr (src, j)
      \<Longrightarrow> runTail uni env fs tty TE marshal before mid tacts jacts = Inr (Inr (src, JsonRun j))"
  using assms by (simp_all add: runTail_def tail_setup_of_def)

text \<open>The buffer size is not checked: a negative one panics before anything is shown.\<close>

lemma runTail_negative:
  "Load uni env fs = Inr cfg \<Longrightarrow> BufferSize cfg < 0
    \<Longrightarrow> runTail uni env fs tty TE marshal before mid tacts jacts = Inr (Inl MakeLenOutOfRange)"
  by (simp add: runTail_def tail_setup_of_def New_def)

lemma New_positive: "0 < n \<Longrightarrow> \<exists>s. New n = Inr s"
  by (simp add: New_def)

section \<open>Properties\<close>

text \<open>
  C2. From the replication stream to the printed lines of \<open>dbwatch tail\<close> in JSON mode (the flags select
  it), for a positive buffer size, no empty CopyData message, different message bytes of the library, and turns of the
  listener that deliver a stream of at most as many messages as the buffer holds and then end with a failing receive. Then no schedule
  panics. \<open>w0\<close> is the store when the mode subscribes, \<open>w1\<close> when it reads the history, and \<open>w_log\<close>
  records what has been pushed: the mode prints the newest events of \<open>w1\<close> and then a selection, in order, of
  what was pushed since \<open>w0\<close>; until it returns, and up to 100 such events, all but those that still wait in
  its channel. It returns only with the error of the source. Once the source has ended
  uncancelled, and not already while it was set up, what the core forwarded
  means exactly the changes of the stream; it is in order part of what was pushed, and all of it if
  nobody else pushes and schema changes are not tracked.
\<close>

theorem tail_prints_stream:
  assumes "Load uni env fs = Inr cfg" and "\<not> shouldUseTUI tty (fs_string fs ''output'')" and "0 < BufferSize cfg" and "alone \<longrightarrow> \<not> TrackDDL cfg"
    and "list_all (source_ok alone False) (before @ mid @ source_acts acts)"
    and "source_turns False (before @ mid @ source_acts acts) = ts @ [tend]" and "t_recv tend = ReceiveFailed m"
    and "list_all2 (delivers (co_wire (te_core TE))) ts msgs"
    and "XLogDataByteID (co_wire (te_core TE)) \<noteq> PrimaryKeepaliveMessageByteID (co_wire (te_core TE))"
    and "length msgs \<le> nat (BufferSize cfg)"
  shows "\<exists>s src0 w0 src1 w1 src j mp ps got.
      New (BufferSize cfg) = Inr s \<and> tail_start TE cfg (new_world s) before = Inr (src0, w0)
    \<and> fold_ok (source_step TE cfg) (src0, snd (Subscribe w0)) mid = Inr (src1, w1) \<and> w_log w1 = w_log w0 @ mp
    \<and> runTail uni env fs tty TE marshal before mid tacts acts = Inr (Inr (src, JsonRun j))
    \<and> w_log (j_world j) = w_log w0 @ mp @ ps
    \<and> (mid = [] \<longrightarrow> mp = [])
    \<and> j_out j = lines marshal (lastn (nat (BufferSize cfg)) (w_log w1)) @ lines marshal got \<and> subseq got (mp @ ps)
    \<and> (j_result j = None \<and> length (mp @ ps) \<le> 100 \<longrightarrow> got @ feed_waiting (j_world j) (j_sub j) = mp @ ps)
    \<and> (\<forall>r. j_result j = Some r \<longrightarrow> (\<exists>err. source_result src = Some err \<and> r = wrapSourceError ''listener'' err))
    \<and> (\<forall>c. src_phase src = CoreRunning c \<and> core_result c \<noteq> None \<and> \<not> src_cancelled src \<longrightarrow>
         map change_of (c_forwarded c) = stream_meaning [] msgs \<and> subseq (c_forwarded c) (w_log (j_world j))
         \<and> (alone \<longrightarrow> c_forwarded c = w_log (j_world j)))"
proof -
  obtain s where s: "New (BufferSize cfg) = Inr s" using New_positive [OF assms(3)] by blast
  from tail_json_facts [OF assms(3,4) s assms(5), of TE marshal] obtain src0 w0 src1 w1 src j pre mp ps cacts where
    f: "runTailJSON TE cfg marshal (new_world s) before mid acts = Inr (src, j)" "mid = [] \<longrightarrow> mp = []"
      "source_inv TE cfg alone False (nat (BufferSize cfg)) (pre @ mp @ ps) cacts src (j_world j)"
      "json_reads marshal ''listener'' (lastn (nat (BufferSize cfg)) (pre @ mp)) (mp @ ps) j"
      "\<forall>r. j_source j = Some r \<longrightarrow> source_result src = Some r"
      "turns_of cacts = ts @ [tend]"
      and st: "tail_start TE cfg (new_world s) before = Inr (src0, w0)"
      "fold_ok (source_step TE cfg) (src0, snd (Subscribe w0)) mid = Inr (src1, w1)"
      and log: "w_log w0 = pre" "w_log w1 = pre @ mp" unfolding assms(6) by blast
  obtain got where i: "json_inv marshal ''listener'' (lastn (nat (BufferSize cfg)) (pre @ mp)) (mp @ ps) got j"
    using f(4) by (auto simp: json_reads_def)
  have run: "runTail uni env fs tty TE marshal before mid tacts acts = Inr (Inr (src, JsonRun j))"
    by (rule runTail_modes(2) [OF assms(1) s assms(2) f(1)])
  have log': "w_log (j_world j) = pre @ mp @ ps" using f(3) by (simp add: source_inv_def)
  have stream: "map change_of (c_forwarded c) = stream_meaning [] msgs \<and> subseq (c_forwarded c) (w_log (j_world j))
         \<and> (alone \<longrightarrow> c_forwarded c = w_log (j_world j))"
    if "src_phase src = CoreRunning c \<and> core_result c \<noteq> None \<and> \<not> src_cancelled src" for c
    using source_stream [OF f(3) _ _ _ f(6) assms(7-10)] that unfolding log' by blast
  have loss: "j_result j = None \<and> length (mp @ ps) \<le> 100 \<longrightarrow> got @ feed_waiting (j_world j) (j_sub j) = mp @ ps"
    using i sub.no_loss [of "j_world j" "j_sub j" "mp @ ps" got] by (auto simp: json_inv_def defaultSubChanCap_def)
  show ?thesis
    by (rule exI [of _ s], rule exI [of _ src0], rule exI [of _ w0], rule exI [of _ src1], rule exI [of _ w1], rule exI [of _ src], rule exI [of _ j],
      rule exI [of _ mp], rule exI [of _ ps], rule exI [of _ got])
      (use s st run log log' loss i f(2,5) stream in \<open>auto simp: json_inv_def\<close>)
qed

definition demo_tail_env :: "(string list, unit) tail_env" where
  "demo_tail_env = \<lparr>te_core = demo_core, te_now = zero_time, te_ns = 0, te_counter = 0, te_server = [], te_ddl = ()\<rparr>"

definition demo_tail :: "string \<Rightarrow> flag_set" where
  "demo_tail out = read_flags (c_flags tailCmd) [(''db-url'', Some ''u''), (''publication'', Some ''p''), (''slot'', Some ''s''),
     (''buffer'', Some ''3''), (''output'', Some out)]"

definition demo_tail_cfg :: config where
  "demo_tail_cfg = \<lparr>DBURL = ''u'', Publication = ''p'', Slot = ''s'', BufferSize = 3, LogLevel = DefaultLogLevel,
     TrackDDL = False, DDLInstallMode = DDLInstallAuto\<rparr>"

lemma demo_tail_load:
  "Load (\<lambda>r. True) (\<lambda>v. []) (demo_tail ''json'') = Inr demo_tail_cfg" "\<not> shouldUseTUI True (fs_string (demo_tail ''json'') ''output'')"
  "Load (\<lambda>r. True) (\<lambda>v. []) (demo_tail ''tui'') = Inr demo_tail_cfg" "shouldUseTUI True (fs_string (demo_tail ''tui'') ''output'')"
  by code_simp+

definition demo_stream :: "message list" where
  "demo_stream = [RelationMessage \<lparr>rel_id = 5, rel_namespace = ''public'', rel_name = ''orders'',
      rel_columns = [\<lparr>rc_flags = 1, rc_name = ''id'', rc_type = 23\<rparr>]\<rparr>,
    InsertMessage 5 (Some [\<lparr>tc_kind = TupleText, tc_data = ''42''\<rparr>])]"

definition demo_turns :: "turn list" where
  "demo_turns = [demo_turn (Received (CopyData ''wR'')), demo_turn (Received (CopyData ''wI''))]"

definition demo_source :: "source_act list" where
  "demo_source = [SourceStep (ListenerTurn (demo_turn (Received (CopyData ''wR'')))),
     SourceStep (ListenerTurn (demo_turn (Received (CopyData ''wI'')))), SourceStep Forward,
     SourceStep (ListenerTurn (demo_turn (ReceiveFailed ''EOF''))), SourceStep Forward]"

lemma demo_source_facts:
  "0 < BufferSize demo_tail_cfg" "\<not> TrackDDL demo_tail_cfg"
  "source_turns False ([SourceOpens] @ [] @ demo_source) = demo_turns @ [demo_turn (ReceiveFailed ''EOF'')]"
  "t_recv (demo_turn (ReceiveFailed ''EOF'')) = ReceiveFailed ''EOF''"
  "list_all2 (delivers (co_wire (te_core demo_tail_env))) demo_turns demo_stream"
  "XLogDataByteID (co_wire (te_core demo_tail_env)) \<noteq> PrimaryKeepaliveMessageByteID (co_wire (te_core demo_tail_env))"
  "length demo_stream \<le> nat (BufferSize demo_tail_cfg)"
  "stream_meaning [] demo_stream = [(''INSERT'', ''public'', ''orders'', Some [(''id'', StrValue ''42'')], None)]"
  "list_all (source_ok True b) ([SourceOpens] @ [] @ demo_source)"
  by (simp_all add: demo_tail_cfg_def demo_source_def demo_turns_def demo_stream_def demo_turn_def
      demo_tail_env_def demo_core_def demo_wire_def delivers_def source_ok_def
      meaning_def last_relation_def decodeTuple_def cell_value_def column_of_def EventInsert_def)

theorem tail_prints_stream_witness:
  "\<exists>src j. runTail (\<lambda>r. True) (\<lambda>v. []) (demo_tail ''json'') True demo_tail_env (\<lambda>e. Inr (ev_table e))
        [SourceOpens] [] [] (map SourceSide demo_source @ [ModeSide EventBranch]) = Inr (Inr (src, JsonRun j))
     \<and> map change_of (w_log (j_world j)) = [(''INSERT'', ''public'', ''orders'', Some [(''id'', StrValue ''42'')], None)]
     \<and> j_out j = lines (\<lambda>e. Inr (ev_table e)) (w_log (j_world j))"
proof -
  let ?marshal = "\<lambda>e. Inr (ev_table e)" and ?acts = "map SourceSide demo_source @ [ModeSide EventBranch]"
  have sa: "source_acts ?acts = demo_source" by (simp add: demo_source_def)
  have run: "case runTail (\<lambda>r. True) (\<lambda>v. []) (demo_tail ''json'') True demo_tail_env ?marshal [SourceOpens] [] [] ?acts of
      Inr (Inr (src, JsonRun j)) \<Rightarrow> \<not> src_cancelled src \<and> (case src_phase src of CoreRunning c \<Rightarrow> core_result c \<noteq> None | _ \<Rightarrow> False)
        \<and> j_result j = None \<and> feed_waiting (j_world j) (j_sub j) = [] | _ \<Rightarrow> False"
    by code_simp
  have pos: "True \<longrightarrow> \<not> TrackDDL demo_tail_cfg" by (simp add: demo_source_facts)
  from tail_prints_stream [where alone = True and before = "[SourceOpens]" and mid = "[]" and acts = ?acts and TE = demo_tail_env
        and marshal = ?marshal and tacts = "[]", unfolded sa, OF demo_tail_load(1,2) demo_source_facts(1) pos demo_source_facts(9,3-7)]
  obtain w0 w1 :: feed_world and src j mp ps got where r: "runTail (\<lambda>r. True) (\<lambda>v. []) (demo_tail ''json'') True demo_tail_env ?marshal [SourceOpens] [] [] ?acts = Inr (Inr (src, JsonRun j))"
      "w_log w1 = w_log w0 @ mp" "w_log (j_world j) = w_log w0 @ mp @ ps" "mp = []"
      "j_out j = lines ?marshal (lastn (nat (BufferSize demo_tail_cfg)) (w_log w1)) @ lines ?marshal got"
      "j_result j = None \<and> length (mp @ ps) \<le> 100 \<longrightarrow> got @ feed_waiting (j_world j) (j_sub j) = mp @ ps"
      "\<forall>c. src_phase src = CoreRunning c \<and> core_result c \<noteq> None \<and> \<not> src_cancelled src \<longrightarrow>
         map change_of (c_forwarded c) = stream_meaning [] demo_stream \<and> subseq (c_forwarded c) (w_log (j_world j))
         \<and> (True \<longrightarrow> c_forwarded c = w_log (j_world j))"
    by (elim exE conjE) (rule that, (assumption | (erule mp, rule refl))+)
  obtain c where ended: "src_phase src = CoreRunning c" "core_result c \<noteq> None" "\<not> src_cancelled src" "j_result j = None"
      "feed_waiting (j_world j) (j_sub j) = []" using run unfolding r(1) by (auto split: core_phase.splits)
  have m: "map change_of (w_log (j_world j)) = stream_meaning [] demo_stream" using r(7) ended(1-3) by metis
  then have l: "length (w_log (j_world j)) = 1" unfolding demo_source_facts(8) by (metis length_map length_Cons list.size(3) One_nat_def)
  then have "length ps \<le> 100" "lastn (nat (BufferSize demo_tail_cfg)) (w_log w0) = w_log w0"
    unfolding r(3) by (simp_all add: lastn_def demo_tail_cfg_def)
  with r(2-6) ended(4,5) have "j_out j = lines ?marshal (w_log (j_world j))" by simp
  with r(1) m demo_source_facts(8) show ?thesis by (intro exI [of _ src] exI [of _ j]) simp
qed

text \<open>
  C3. From the replication stream to the screen of \<open>dbwatch tail\<close> in terminal mode (the flags select
  it), for a positive buffer size, no empty CopyData message, different message bytes of the library, and turns of the
  listener that deliver a stream of at most as many messages as the buffer holds and then end with a failing receive, the
  relations of the stream and whatever else is pushed having names. Then no schedule and no input panics. \<open>w0\<close> is the store when the mode reads the history, \<open>w1\<close> when it
  subscribes. The screen holds the newest events of \<open>w0\<close>, followed by a selection, in order, of what was pushed
  since \<open>w1\<close> (all but those that wait in its channel, up to 100 events and until it quits), if no clearing key is
  pressed, and the newest part of that otherwise; what is pushed between \<open>w0\<close> and \<open>w1\<close> is not
  shown. Once the source has ended uncancelled, and not already while it was set up, what the core forwarded means exactly the changes of
  the stream; it is in order part of what was pushed, and all of it if nobody else pushes and schema changes are not tracked.
\<close>

theorem tail_shows_stream:
  assumes "Load uni env fs = Inr cfg" and "shouldUseTUI tty (fs_string fs ''output'')" and "0 < BufferSize cfg" and "alone \<longrightarrow> \<not> TrackDDL cfg" and "wire_named (co_wire (te_core TE))"
    and "list_all (source_ok alone True) (before @ mid)" and "list_all (tail_ok alone True user_act) acts"
    and "source_turns False (before @ mid @ source_acts acts) = ts @ [tend]" and "t_recv tend = ReceiveFailed m"
    and "list_all2 (delivers (co_wire (te_core TE))) ts msgs"
    and "XLogDataByteID (co_wire (te_core TE)) \<noteq> PrimaryKeepaliveMessageByteID (co_wire (te_core TE))"
    and "length msgs \<le> nat (BufferSize cfg)"
  shows "\<exists>s src0 w0 src1 w1 src t mp ps took.
      New (BufferSize cfg) = Inr s \<and> tail_start TE cfg (new_world s) before = Inr (src0, w0)
    \<and> fold_ok (source_step TE cfg) (src0, w0) mid = Inr (src1, w1) \<and> w_log w1 = w_log w0 @ mp
    \<and> runTail uni env fs tty TE marshal before mid acts jacts = Inr (Inr (src, TuiRun t))
    \<and> w_log (t_world t) = w_log w0 @ mp @ ps
    \<and> (mid = [] \<longrightarrow> mp = [])
    \<and> tui_inv (t_model t) \<and> subseq took ps
    \<and> suffix (m_all (t_model t) @ m_pending (t_model t)) (lastn (nat (BufferSize cfg)) (w_log w0) @ took)
    \<and> ((\<forall>x. ModeSide x \<in> set acts \<longrightarrow> \<not> clearing x) \<longrightarrow>
         m_all (t_model t) @ m_pending (t_model t) = lastn (nat (BufferSize cfg)) (w_log w0) @ took)
    \<and> (\<not> t_quit t \<and> length ps \<le> 100 \<longrightarrow> took @ feed_waiting (t_world t) (t_sub t) = ps)
    \<and> (\<forall>c. src_phase src = CoreRunning c \<and> core_result c \<noteq> None \<and> \<not> src_cancelled src \<longrightarrow>
         map change_of (c_forwarded c) = stream_meaning [] msgs \<and> subseq (c_forwarded c) (w_log (t_world t))
         \<and> (alone \<longrightarrow> c_forwarded c = w_log (t_world t)))"
proof -
  let ?b = "\<forall>x. ModeSide x \<in> set acts \<longrightarrow> \<not> clearing x" and ?cap = "nat (BufferSize cfg)"
  have acts_ok: "list_all (tail_ok alone True (\<lambda>x. user_act x \<and> (?b \<longrightarrow> \<not> clearing x))) acts"
    using assms(7) by (auto simp: list_all_iff tail_ok_def split: tail_act.splits)
  obtain s where s: "New (BufferSize cfg) = Inr s" using New_positive [OF assms(3)] by blast
  from tail_tui_facts [OF assms(3-5) s assms(6) acts_ok] obtain src0 w0 src1 w1 src t pre mp ps cacts where
    f: "runTailTUI TE cfg (new_world s) before mid acts = Inr (src, t)" "mid = [] \<longrightarrow> mp = []"
      "source_inv TE cfg alone True ?cap (pre @ mp @ ps) cacts src (t_world t)" "tui_reads (lastn ?cap pre) ?b ps t"
      "turns_of cacts = ts @ [tend]"
      and st: "tail_start TE cfg (new_world s) before = Inr (src0, w0)" "fold_ok (source_step TE cfg) (src0, w0) mid = Inr (src1, w1)"
      and log: "w_log w0 = pre" "w_log w1 = pre @ mp" unfolding assms(8) by blast
  obtain keep got took where i: "tui_run_inv (lastn ?cap pre) ps keep got took t" "?b \<longrightarrow> keep"
    using f(4) by (auto simp: tui_reads_def)
  have log': "w_log (t_world t) = pre @ mp @ ps" using f(3) by (simp add: source_inv_def)
  show ?thesis
  proof (rule exI [of _ s], rule exI [of _ src0], rule exI [of _ w0], rule exI [of _ src1], rule exI [of _ w1], rule exI [of _ src],
      rule exI [of _ t], rule exI [of _ mp], rule exI [of _ ps], rule exI [of _ took], unfold log log', intro conjI allI)
    show "runTail uni env fs tty TE marshal before mid acts jacts = Inr (Inr (src, TuiRun t))"
      by (rule runTail_modes(1) [OF assms(1) s assms(2) f(1)])
    show "tui_inv (t_model t)" "suffix (m_all (t_model t) @ m_pending (t_model t)) (lastn ?cap pre @ took)"
      using i(1) by (simp_all add: tui_run_inv_def items_def)
    show "subseq took ps" using i(1) by (auto simp: tui_run_inv_def intro: subseq_order.trans prefix_imp_subseq)
    show "?b \<longrightarrow> m_all (t_model t) @ m_pending (t_model t) = lastn ?cap pre @ took"
      using i by (auto simp: tui_run_inv_def items_def)
    show "\<not> t_quit t \<and> length ps \<le> 100 \<longrightarrow> took @ feed_waiting (t_world t) (t_sub t) = ps"
      using i(1) sub.no_loss [of "t_world t" "t_sub t" ps got]
      by (auto simp: tui_run_inv_def defaultSubChanCap_def split: if_splits)
    show "src_phase src = CoreRunning c \<and> core_result c \<noteq> None \<and> \<not> src_cancelled src \<longrightarrow>
        map change_of (c_forwarded c) = stream_meaning [] msgs \<and> subseq (c_forwarded c) (pre @ mp @ ps)
        \<and> (alone \<longrightarrow> c_forwarded c = pre @ mp @ ps)" for c
      using source_stream [OF f(3) _ _ _ f(5) assms(9-12)] by blast
  qed (fact s st f(2) refl)+
qed

theorem tail_shows_stream_witness:
  "\<exists>src t. runTail (\<lambda>r. True) (\<lambda>v. []) (demo_tail ''tui'') True demo_tail_env (\<lambda>e. Inr (ev_table e))
        [SourceOpens] [] (map SourceSide demo_source @ [ModeSide TuiForward]) [] = Inr (Inr (src, TuiRun t))
     \<and> map change_of (w_log (t_world t)) = [(''INSERT'', ''public'', ''orders'', Some [(''id'', StrValue ''42'')], None)]
     \<and> m_all (t_model t) @ m_pending (t_model t) = w_log (t_world t)"
proof -
  let ?marshal = "\<lambda>e. Inr (ev_table e)" and ?acts = "map SourceSide demo_source @ [ModeSide TuiForward]"
  have sa: "source_acts ?acts = demo_source" by (simp add: demo_source_def)
  have run: "case runTail (\<lambda>r. True) (\<lambda>v. []) (demo_tail ''tui'') True demo_tail_env ?marshal [SourceOpens] [] ?acts [] of
      Inr (Inr (src, TuiRun t)) \<Rightarrow> \<not> src_cancelled src \<and> (case src_phase src of CoreRunning c \<Rightarrow> core_result c \<noteq> None | _ \<Rightarrow> False)
        \<and> \<not> t_quit t \<and> feed_waiting (t_world t) (t_sub t) = [] | _ \<Rightarrow> False"
    by code_simp
  have pos: "True \<longrightarrow> \<not> TrackDDL demo_tail_cfg" and wn: "wire_named (co_wire (te_core demo_tail_env))"
    by (simp_all add: demo_source_facts wire_named_def demo_tail_env_def demo_core_def demo_wire_def)
  have ok: "list_all (source_ok True True) ([SourceOpens] @ [])" "list_all (tail_ok True True user_act) ?acts"
    using demo_source_facts(9) [of True] by (simp_all add: source_ok_def tail_ok_def demo_source_def)
  from tail_shows_stream [where alone = True and before = "[SourceOpens]" and mid = "[]" and acts = ?acts and TE = demo_tail_env
        and marshal = ?marshal and jacts = "[]", unfolded sa, OF demo_tail_load(3,4) demo_source_facts(1) pos wn ok demo_source_facts(3-7)]
  obtain w0 :: feed_world and src t mp ps took where r: "runTail (\<lambda>r. True) (\<lambda>v. []) (demo_tail ''tui'') True demo_tail_env ?marshal [SourceOpens] [] ?acts [] = Inr (Inr (src, TuiRun t))"
      "w_log (t_world t) = w_log w0 @ mp @ ps" "mp = []"
      "(\<forall>x. ModeSide x \<in> set ?acts \<longrightarrow> \<not> clearing x) \<longrightarrow>
         m_all (t_model t) @ m_pending (t_model t) = lastn (nat (BufferSize demo_tail_cfg)) (w_log w0) @ took"
      "\<not> t_quit t \<and> length ps \<le> 100 \<longrightarrow> took @ feed_waiting (t_world t) (t_sub t) = ps"
      "\<forall>c. src_phase src = CoreRunning c \<and> core_result c \<noteq> None \<and> \<not> src_cancelled src \<longrightarrow>
         map change_of (c_forwarded c) = stream_meaning [] demo_stream \<and> subseq (c_forwarded c) (w_log (t_world t))
         \<and> (True \<longrightarrow> c_forwarded c = w_log (t_world t))"
    by (elim exE conjE) (rule that, (assumption | (erule mp, rule refl))+)
  obtain c where ended: "src_phase src = CoreRunning c" "core_result c \<noteq> None" "\<not> src_cancelled src" "\<not> t_quit t"
      "feed_waiting (t_world t) (t_sub t) = []" using run unfolding r(1) by (auto split: core_phase.splits)
  have m: "map change_of (w_log (t_world t)) = stream_meaning [] demo_stream" using r(6) ended(1-3) by metis
  then have l: "length (w_log (t_world t)) = 1" unfolding demo_source_facts(8) by (metis length_map length_Cons list.size(3) One_nat_def)
  then have "length ps \<le> 100" "lastn (nat (BufferSize demo_tail_cfg)) (w_log w0) = w_log w0"
    unfolding r(2) by (simp_all add: lastn_def demo_tail_cfg_def)
  moreover have "\<forall>x. ModeSide x \<in> set ?acts \<longrightarrow> \<not> clearing x" by (auto simp: clearing_def demo_source_def)
  ultimately have "m_all (t_model t) @ m_pending (t_model t) = w_log (t_world t)" using r(2-5) ended(4,5) by simp
  with r(1) m demo_source_facts(8) show ?thesis by (intro exI [of _ src] exI [of _ t]) simp
qed

end
