(* ===== verification/Attach_Cmd.thy ===== *)
theory Attach_Cmd
  imports Tail_Stream
begin

text \<open>
  The command \<open>attach\<close> of \<open>cmd/dbwatch/main.go\<close> from its flags to what its user sees: the goroutine that
  feeds the local store (\<open>Attach\<close>) and one of the two modes side by side, the mode as a \<open>feed_viewer\<close>,
  so that the daemon's stream is followed to the lines and to the screen.
\<close>

section \<open>The goroutine and a mode\<close>

text \<open>
  \<open>Interrupted\<close> cancels the context that both share. Pushes and the end of the source are the
  business of the client's side.
\<close>

datatype 'x attach_act = ClientSide attach_action | Interrupted | ViewerSide 'x

text \<open>What the goroutine has put into \<open>sourceErr\<close> reaches the mode.\<close>

definition attach_tells :: "('v, 'x) viewer \<Rightarrow> string option option \<Rightarrow> 'v \<Rightarrow> 'v" where
  "attach_tells V r v = (case r of Some e \<Rightarrow> if vw_source V v = None then vw_send V e v else v | None \<Rightarrow> v)"

fun attach_mode_step :: "codec \<Rightarrow> ('v, 'x) viewer \<Rightarrow> attach_state \<times> 'v \<Rightarrow> 'x attach_act \<Rightarrow> go_panic + (attach_state \<times> 'v)" where
  "attach_mode_step cd V (a, v) (ClientSide x) =
     (if x = CtxDone \<and> \<not> vw_cancelled V v then Inr (a, v)
      else and_then (attach_step cd a x) (\<lambda>a1.
        Inr (a1, attach_tells V (a_source a1) (vw_put V (vw_cancelled V v) (a_world a1) v))))"
| "attach_mode_step cd V (a, v) Interrupted = Inr (a, vw_put V True (vw_world V v) v)"
| "attach_mode_step cd V (a, v) (ViewerSide x) =
     (if \<not> vw_own V x then Inr (a, v)
      else and_then (vw_step V v x) (\<lambda>v1. Inr (a\<lparr>a_world := vw_world V v1\<rparr>, v1)))"

text \<open>
  The goroutine starts (\<open>before\<close>), the mode takes its first look at the store, the goroutine goes on
  (\<open>mid\<close>), the mode takes its second look, and both run. JSON mode subscribes first and then reads the
  history, terminal mode does it the other way round.
\<close>

definition runAttachJSON :: "codec \<Rightarrow> (event \<Rightarrow> string + string) \<Rightarrow> int \<Rightarrow> client \<Rightarrow> attach_action list
    \<Rightarrow> attach_action list \<Rightarrow> json_action attach_act list \<Rightarrow> go_panic + (attach_state \<times> json_state)" where
  "runAttachJSON cd marshal bufferSize c before mid acts =
    and_then (attach_run cd bufferSize c before) (\<lambda>a.
      let (sub, w1) = Subscribe (a_world a) in
      and_then (fold_ok (attach_step cd) (a\<lparr>a_world := w1\<rparr>) mid) (\<lambda>a1.
        fold_ok (attach_mode_step cd (json_viewer marshal ''daemon''))
          (a1, (foldl (print_event marshal) (json_init (a_world a1) sub (a_source a1)) (Snapshot (w_store (a_world a1))))
             \<lparr>j_cancelled := CtxDone \<in> set (before @ mid)\<rparr>)
          acts))"

definition runAttachTUI :: "codec \<Rightarrow> string \<Rightarrow> int \<Rightarrow> client \<Rightarrow> attach_action list
    \<Rightarrow> attach_action list \<Rightarrow> tui_action attach_act list \<Rightarrow> go_panic + (attach_state \<times> tui_state)" where
  "runAttachTUI cd target bufferSize c before mid acts =
    and_then (attach_run cd bufferSize c before) (\<lambda>a.
      let m = NewWithEvents target (Snapshot (w_store (a_world a))) in
      and_then (fold_ok (attach_step cd) a mid) (\<lambda>a1.
        let (sub, w1) = Subscribe (a_world a1) in
        fold_ok (attach_mode_step cd (tui_viewer ''daemon''))
          (a1\<lparr>a_world := w1\<rparr>, attach_tells (tui_viewer ''daemon'') (a_source a1)
             ((tui_init w1 sub m)\<lparr>t_cancelled := CtxDone \<in> set (before @ mid)\<rparr>))
          acts))"

section \<open>The command\<close>

text \<open>\<open>dial\<close>: what \<open>Dial\<close> returns for a socket.\<close>

definition runAttach :: "(nat \<Rightarrow> bool) \<Rightarrow> path_env \<Rightarrow> (string \<Rightarrow> string + client) \<Rightarrow> flag_set \<Rightarrow> bool \<Rightarrow> codec
    \<Rightarrow> (event \<Rightarrow> string + string) \<Rightarrow> attach_action list \<Rightarrow> attach_action list
    \<Rightarrow> tui_action attach_act list \<Rightarrow> json_action attach_act list
    \<Rightarrow> string + (go_panic + (attach_state \<times> mode_run))" where
  "runAttach uni pe dial fs tty cd marshal before mid tacts jacts =
    (let name = fs_string fs flagName; bufferSize = fs_int fs ''buffer''
     in case ResolveSocketPath pe name of
       Inl e \<Rightarrow> Inl e
     | Inr socketPath \<Rightarrow>
         (case dial socketPath of
            Inl e \<Rightarrow> Inl (''attach to daemon '' @ quote uni name @ '': '' @ e)
          | Inr c \<Rightarrow> Inr (
              if shouldUseTUI tty (fs_string fs ''output'')
              then and_then (runAttachTUI cd (attach_target c name) bufferSize c before mid tacts) (\<lambda>(a, t). Inr (a, TuiRun t))
              else and_then (runAttachJSON cd marshal bufferSize c before mid jacts) (\<lambda>(a, j). Inr (a, JsonRun j)))))"

section \<open>Both sides together\<close>

lemma attach_step_source: "attach_step cd a x = Inr a' \<Longrightarrow> a_source a = Some e \<Longrightarrow> a_source a' = Some e"
  by (cases x) (auto simp: attach_step_def)

fun client_acts :: "'x attach_act list \<Rightarrow> attach_action list" where
  "client_acts [] = []"
| "client_acts (ClientSide x # xs) = x # client_acts xs"
| "client_acts (Interrupted # xs) = client_acts xs"
| "client_acts (ViewerSide x # xs) = client_acts xs"

definition attach_ok :: "('x \<Rightarrow> bool) \<Rightarrow> 'x attach_act \<Rightarrow> bool" where
  "attach_ok ok x \<longleftrightarrow> (case x of ViewerSide y \<Rightarrow> ok y | _ \<Rightarrow> True)"

text \<open>What the store has been given came over the wire.\<close>

lemma attached_got: "attached history es got a \<Longrightarrow> set got \<subseteq> set es"
  by (auto simp: attached_def client_inv_def dest!: subseq_left elim!: list_emb_set)

text \<open>
  In the following the store has been fed with \<open>fed0\<close> before the mode subscribed and with \<open>ps\<close> since.
\<close>

context feed_viewer begin

definition attach_sound :: "event list \<Rightarrow> event list \<Rightarrow> event list \<Rightarrow> event list \<Rightarrow> attach_state \<times> 'v \<Rightarrow> bool" where
  "attach_sound history es fed0 ps s \<longleftrightarrow>
     attached history es (fed0 @ ps) (fst s) \<and> inv ps (snd s) \<and> vw_world V (snd s) = a_world (fst s)
     \<and> (\<forall>r. vw_source V (snd s) = Some r \<longrightarrow> a_source (fst s) = Some r)"

lemma tells:
  shows "inv ps v \<Longrightarrow> inv ps (attach_tells V r v)" and "vw_world V (attach_tells V r v) = vw_world V v"
    and "vw_source V (attach_tells V r v) = Some e \<Longrightarrow> vw_source V v = Some e \<or> r = Some e"
  using send_inv send_world by (simp_all add: attach_tells_def split: option.splits)
    (use send_source [of "the r" v e] in \<open>auto split: if_splits\<close>)

definition attach_moves :: "codec \<Rightarrow> event list \<Rightarrow> event list \<Rightarrow> event list \<Rightarrow> event list \<Rightarrow> attach_state \<times> 'v
    \<Rightarrow> 'x attach_act list \<Rightarrow> bool" where
  "attach_moves cd history es fed0 ps s xs \<longleftrightarrow>
    (\<exists>s' es' ps'. fold_ok (attach_mode_step cd V) s xs = Inr s' \<and> attach_sound history (es @ es') fed0 (ps @ ps') s'
      \<and> capacity (w_store (a_world (fst s'))) = capacity (w_store (a_world (fst s)))
      \<and> (\<forall>as. wire_part cd (fst s) (wires (client_acts xs @ as)) = es' @ wire_part cd (fst s') (wires as)))"

lemma client_side:
  assumes i: "attach_sound history es fed0 ps (a, v)"
    and n: "named \<Longrightarrow> list_all named_event (es @ wire_part cd a (wires (x # as)))"
  shows "attach_moves cd history es fed0 ps (a, v) [ClientSide x]"
proof (cases "x = CtxDone \<and> \<not> vw_cancelled V v")
  case True
  with i show ?thesis unfolding attach_moves_def
    by (intro exI [of _ "(a, v)"] exI [of _ "[]"]) simp
next
  case False
  have a: "attached history es (fed0 @ ps) a" "inv ps v" "vw_world V v = a_world a"
    using i by (simp_all add: attach_sound_def)
  from attach_step_attached [OF a(1), of cd x] obtain a1 es' ps' where
    s: "attach_step cd a x = Inr a1" "attached history (es @ es') ((fed0 @ ps) @ ps') a1"
      "fold_ok Push (a_world a) ps' = Inr (a_world a1)" "capacity (w_store (a_world a1)) = capacity (w_store (a_world a))"
      "\<forall>as. wire_part cd a (wires (x # as)) = es' @ wire_part cd a1 (wires as)" by blast
  let ?v = "vw_put V (vw_cancelled V v) (a_world a1) v" and ?w = "attach_tells V (a_source a1)"
  have "list_all named_event ps'" if named
    using n [OF that] attached_got [OF s(2)] s(5) by (auto simp: list_all_iff)
  with a(2,3) s(3) have "inv (ps @ ps') ?v" by (intro put_inv) simp_all
  then have "inv (ps @ ps') (?w ?v)" by (rule tells(1))
  moreover have "a_source a1 = Some r" if "vw_source V (?w ?v) = Some r" for r
    using tells(3) [OF that] i attach_step_source [OF s(1)] by (auto simp: put_source attach_sound_def)
  moreover have "vw_world V (?w ?v) = a_world a1" by (simp add: tells(2) put_world)
  ultimately have "attach_sound history (es @ es') fed0 (ps @ ps') (a1, ?w ?v)"
    using s(2) by (simp add: attach_sound_def)
  moreover have "fold_ok (attach_mode_step cd V) (a, v) [ClientSide x] = Inr (a1, ?w ?v)"
    using False s(1) by auto
  ultimately show ?thesis unfolding attach_moves_def using s(4,5)
    by (intro exI [of _ "(a1, ?w ?v)"] exI [of _ es'] exI [of _ ps']) simp
qed

lemma interrupt_side:
  assumes "attach_sound history es fed0 ps (a, v)"
  shows "attach_moves cd history es fed0 ps (a, v) [Interrupted]"
proof -
  have "inv (ps @ []) (vw_put V True (vw_world V v) v)"
    using assms by (intro put_inv) (simp_all add: attach_sound_def)
  then have "attach_sound history (es @ []) fed0 (ps @ []) (a, vw_put V True (vw_world V v) v)"
    using assms by (simp add: attach_sound_def put_world put_source)
  then show ?thesis unfolding attach_moves_def
    by (intro exI [of _ "(a, vw_put V True (vw_world V v) v)"] exI [of _ "[]"]) simp
qed

lemma viewer_side:
  assumes i: "attach_sound history es fed0 ps (a, v)" and ok: "ok x"
  shows "attach_moves cd history es fed0 ps (a, v) [ViewerSide x]"
proof (cases "vw_own V x")
  case False
  with i show ?thesis unfolding attach_moves_def
    by (intro exI [of _ "(a, v)"] exI [of _ "[]"]) simp
next
  case True
  have "inv ps v" using i by (simp add: attach_sound_def)
  from step_inv [OF this True ok] obtain v1 where v1: "vw_step V v x = Inr v1" "inv ps v1"
    "same_feed (vw_world V v) (vw_world V v1)" "vw_source V v1 = vw_source V v" by blast
  have "attach_sound history es fed0 ps (a\<lparr>a_world := vw_world V v1\<rparr>, v1)"
    using i v1 inv_world [OF v1(2)] by (simp add: attach_sound_def attached_def same_feed_def)
  with True v1 i show ?thesis unfolding attach_moves_def
    by (intro exI [of _ "(a\<lparr>a_world := vw_world V v1\<rparr>, v1)"] exI [of _ "[]"])
      (simp add: attach_sound_def same_feed_def wire_part_def)
qed

text \<open>Any number of steps.\<close>

lemma attach_moves_Cons:
  assumes "attach_moves cd history es fed0 ps s [x]"
    and "\<And>s' es' ps'. attach_sound history (es @ es') fed0 (ps @ ps') s'
      \<Longrightarrow> \<forall>as. wire_part cd (fst s) (wires (client_acts [x] @ as)) = es' @ wire_part cd (fst s') (wires as)
      \<Longrightarrow> attach_moves cd history (es @ es') fed0 (ps @ ps') s' xs"
  shows "attach_moves cd history es fed0 ps s (x # xs)"
proof -
  from assms(1) obtain s1 es1 ps1 where 1: "attach_mode_step cd V s x = Inr s1"
    "attach_sound history (es @ es1) fed0 (ps @ ps1) s1" "capacity (w_store (a_world (fst s1))) = capacity (w_store (a_world (fst s)))"
    "\<forall>as. wire_part cd (fst s) (wires (client_acts [x] @ as)) = es1 @ wire_part cd (fst s1) (wires as)"
    by (auto simp: attach_moves_def and_then_Inr_iff)
  from assms(2) [OF 1(2,4)] obtain s2 es2 ps2 where 2: "fold_ok (attach_mode_step cd V) s1 xs = Inr s2"
    "attach_sound history ((es @ es1) @ es2) fed0 ((ps @ ps1) @ ps2) s2"
    "capacity (w_store (a_world (fst s2))) = capacity (w_store (a_world (fst s1)))"
    "\<forall>as. wire_part cd (fst s1) (wires (client_acts xs @ as)) = es2 @ wire_part cd (fst s2) (wires as)"
    by (auto simp: attach_moves_def)
  have split: "client_acts (x # xs) @ as = client_acts [x] @ client_acts xs @ as" for as by (cases x) simp_all
  have "wire_part cd (fst s) (wires (client_acts (x # xs) @ as)) = (es1 @ es2) @ wire_part cd (fst s2) (wires as)" for as
    unfolding split using 1(4) 2(4) by (simp only: append_assoc)
  with 1 2 show ?thesis unfolding attach_moves_def
    by (intro exI [of _ s2] exI [of _ "es1 @ es2"] exI [of _ "ps1 @ ps2"]) (simp del: client_acts.simps wires_append)
qed

lemma attach_steps:
  "attach_sound history es fed0 ps s \<Longrightarrow> list_all (attach_ok ok) xs
    \<Longrightarrow> (named \<Longrightarrow> list_all named_event (es @ wire_part cd (fst s) (wires (client_acts xs))))
    \<Longrightarrow> attach_moves cd history es fed0 ps s xs"
proof (induction xs arbitrary: es ps s)
  case Nil
  then show ?case unfolding attach_moves_def
    by (intro exI [of _ s] exI [of _ "[]"]) simp
next
  case (Cons x xs)
  obtain a v where s: "s = (a, v)" by (cases s)
  note i = Cons.prems(1) [unfolded s]
  have x: "attach_ok ok x" and xs: "list_all (attach_ok ok) xs" using Cons.prems(2) by simp_all
  have "attach_moves cd history es fed0 ps (a, v) [x]"
  proof (cases x)
    case (ClientSide y)
    have "list_all named_event (es @ wire_part cd a (wires (y # client_acts xs)))" if named
      using Cons.prems(3) [OF that] by (simp add: s ClientSide)
    from client_side [OF i this] show ?thesis unfolding ClientSide by blast
  next
    case Interrupted
    from interrupt_side [OF i] show ?thesis unfolding Interrupted .
  next
    case (ViewerSide y)
    then have "ok y" using x by (simp add: attach_ok_def)
    from viewer_side [OF i this] show ?thesis unfolding ViewerSide .
  qed
  then show ?case unfolding s
  proof (rule attach_moves_Cons)
    fix s' es' ps'
    assume a: "attach_sound history (es @ es') fed0 (ps @ ps') s'"
      and w: "\<forall>as. wire_part cd (fst (a, v)) (wires (client_acts [x] @ as)) = es' @ wire_part cd (fst s') (wires as)"
    have "client_acts (x # xs) = client_acts [x] @ client_acts xs" by (cases x) simp_all
    then have "(es @ es') @ wire_part cd (fst s') (wires (client_acts xs))
        = es @ wire_part cd (fst s) (wires (client_acts (x # xs)))" using w by (simp add: s)
    with Cons.IH [OF a xs] Cons.prems(3) show "attach_moves cd history (es @ es') fed0 (ps @ ps') s' xs" by presburger
  qed
qed

end

section \<open>From the start\<close>

text \<open>The goroutine alone, up to some point.\<close>

lemma attach_starts:
  assumes "0 < bufferSize" and c: "cl_events c = make_chan eventChanCap" "cl_dropped c = 0" "\<not> cl_closed c"
  shows "\<exists>a es g. attach_run cd bufferSize c before = Inr a \<and> attached (cl_snapshot c) es g a
    \<and> capacity (w_store (a_world a)) = nat bufferSize
    \<and> (\<forall>as. seen cd (wires (before @ as)) = es @ wire_part cd a (wires as))"
proof -
  from attach_open_attached [OF assms(1-3)] obtain st0 where o: "attach_open bufferSize c = Inr st0"
    "attached (cl_snapshot c) [] [] st0" "capacity (w_store (a_world st0)) = nat bufferSize" "a_client st0 = c" by blast
  from attach_fold_pushes [OF o(2), of cd before] obtain a es g where a:
    "fold_ok (attach_step cd) st0 before = Inr a" "attached (cl_snapshot c) es g a"
    "capacity (w_store (a_world a)) = nat bufferSize"
    "\<forall>bs. wire_part cd st0 (wires (before @ bs)) = es @ wire_part cd a (wires bs)" using o(3) by auto
  moreover have "seen cd ds = wire_part cd st0 ds" for ds using o(4) c(3) by (simp add: wire_part_def)
  ultimately show ?thesis using o(1) by (intro exI [of _ a]) (auto simp: attach_run_def)
qed

lemma attach_json_run:
  assumes "0 < bufferSize" and c: "cl_events c = make_chan eventChanCap" "cl_dropped c = 0" "\<not> cl_closed c"
  shows "\<exists>a0 a1 a j g1 g2 g3. runAttachJSON cd marshal bufferSize c before mid acts = Inr (a, j)
    \<and> attach_run cd bufferSize c before = Inr a0 \<and> w_log (a_world a0) = cl_snapshot c @ g1
    \<and> fold_ok (attach_step cd) (a0\<lparr>a_world := snd (Subscribe (a_world a0))\<rparr>) mid = Inr a1
    \<and> w_log (a_world a1) = cl_snapshot c @ g1 @ g2
    \<and> js.attach_sound marshal ''daemon'' (lastn (nat bufferSize) (cl_snapshot c @ g1 @ g2))
        (cl_snapshot c) (seen cd (wires (before @ mid @ client_acts acts))) g1 (g2 @ g3) (a, j)"
proof -
  from attach_starts [OF assms, of cd before] obtain a0 es1 g1 where a0:
    "attach_run cd bufferSize c before = Inr a0" "attached (cl_snapshot c) es1 g1 a0"
    "capacity (w_store (a_world a0)) = nat bufferSize"
    "\<forall>as. seen cd (wires (before @ as)) = es1 @ wire_part cd a0 (wires as)" by blast
  have inv0: "world_inv (a_world a0)" and log0: "w_log (a_world a0) = cl_snapshot c @ g1"
    using a0(2) by (simp_all add: attached_def)
  obtain ch w1 where sub: "Subscribe (a_world a0) = (ch, w1)" by (cases "Subscribe (a_world a0)")
  note s1 = Subscribe_reads [OF inv0 sub]
  let ?a = "a0\<lparr>a_world := w1\<rparr>"
  have "attached (cl_snapshot c) es1 g1 ?a"
    using a0(2) s1 feed_reads_world [OF s1(1)] Subscribe_feed(2) [OF sub] by (simp add: attached_def same_feed_def)
  from attach_fold_pushes [OF this, of cd mid] obtain a2 es2 g2 where a2:
    "fold_ok (attach_step cd) ?a mid = Inr a2" "attached (cl_snapshot c) (es1 @ es2) (g1 @ g2) a2"
    "fold_ok Push w1 g2 = Inr (a_world a2)" "capacity (w_store (a_world a2)) = nat bufferSize"
    "\<forall>bs. wire_part cd ?a (wires (mid @ bs)) = es2 @ wire_part cd a2 (wires bs)" using a0(3) s1(3) by auto
  let ?hist = "Snapshot (w_store (a_world a2))"
  let ?j = "(foldl (print_event marshal) (json_init (a_world a2) ch (a_source a2)) ?hist)\<lparr>j_cancelled := CtxDone \<in> set (before @ mid)\<rparr>"
  have reads: "feed_reads (a_world a2) ch g2 []" using sub.pushes_reads [OF s1(1), of g2] a2(3) by auto
  have hist: "?hist = lastn (nat bufferSize) (cl_snapshot c @ g1 @ g2)"
    using a2(2,4) by (simp add: attached_def)
  have "json_inv marshal ''daemon'' ?hist g2 [] ?j"
    using reads feed_reads_world [OF reads] by (simp add: json_inv_def print_events_frame json_init_def)
  then have "js.attach_sound marshal ''daemon'' ?hist (cl_snapshot c) (es1 @ es2) g1 g2 (a2, ?j)"
    using a2(2) unfolding js.attach_sound_def
    by (auto simp: json_reads_def json_viewer_def print_events_frame json_init_def)
  moreover have "list_all (attach_ok (\<lambda>x. True)) acts" by (auto simp: list_all_iff attach_ok_def split: attach_act.split)
  ultimately have "js.attach_moves marshal ''daemon'' ?hist cd (cl_snapshot c) (es1 @ es2) g1 g2 (a2, ?j) acts"
    by (rule js.attach_steps) simp
  then obtain s es3 g3 where f: "fold_ok (attach_mode_step cd (json_viewer marshal ''daemon'')) (a2, ?j) acts = Inr s"
    "js.attach_sound marshal ''daemon'' ?hist (cl_snapshot c) ((es1 @ es2) @ es3) g1 (g2 @ g3) s"
    "\<forall>as. wire_part cd a2 (wires (client_acts acts @ as)) = es3 @ wire_part cd (fst s) (wires as)"
    unfolding js.attach_moves_def by auto
  have w: "wire_part cd ?a ds = wire_part cd a0 ds" for ds by (simp add: wire_part_def)
  have "wire_part cd a2 (wires (client_acts acts)) = es3"
    using f(3) [rule_format, of "[]"] by (simp add: wire_part_def)
  then have es: "seen cd (wires (before @ mid @ client_acts acts)) = (es1 @ es2) @ es3"
    using a0(4) a2(5) w by (simp only: append_assoc)
  obtain a j where s: "s = (a, j)" by (cases s)
  have "runAttachJSON cd marshal bufferSize c before mid acts = Inr (a, j)"
    using a0(1) sub a2(1) f(1) s by (simp add: runAttachJSON_def)
  moreover have "snd (Subscribe (a_world a0)) = w1" "w_log (a_world a2) = cl_snapshot c @ g1 @ g2"
    using sub a2(2) by (simp_all add: attached_def)
  ultimately show ?thesis using f(2) a0(1) a2(1) log0 unfolding es hist s by blast
qed

lemma attach_tui_run:
  assumes "0 < bufferSize" and c: "cl_events c = make_chan eventChanCap" "cl_dropped c = 0" "\<not> cl_closed c"
    and named: "list_all named_event (cl_snapshot c @ seen cd (wires (before @ mid @ client_acts acts)))"
    and ok: "list_all (attach_ok (\<lambda>x. user_act x \<and> (b \<longrightarrow> \<not> clearing x))) acts"
  shows "\<exists>a0 a1 a t g1 g2 g3. runAttachTUI cd target bufferSize c before mid acts = Inr (a, t)
    \<and> attach_run cd bufferSize c before = Inr a0 \<and> w_log (a_world a0) = cl_snapshot c @ g1
    \<and> fold_ok (attach_step cd) a0 mid = Inr a1 \<and> w_log (a_world a1) = cl_snapshot c @ g1 @ g2
    \<and> ts.attach_sound ''daemon'' (lastn (nat bufferSize) (cl_snapshot c @ g1)) b
        (cl_snapshot c) (seen cd (wires (before @ mid @ client_acts acts))) (g1 @ g2) g3 (a, t)"
proof -
  from attach_starts [OF assms(1-4), of cd before] obtain a0 es1 g1 where a0:
    "attach_run cd bufferSize c before = Inr a0" "attached (cl_snapshot c) es1 g1 a0"
    "capacity (w_store (a_world a0)) = nat bufferSize"
    "\<forall>as. seen cd (wires (before @ as)) = es1 @ wire_part cd a0 (wires as)" by blast
  from attach_fold_pushes [OF a0(2), of cd mid] obtain a1 es2 g2 where a1:
    "fold_ok (attach_step cd) a0 mid = Inr a1" "attached (cl_snapshot c) (es1 @ es2) (g1 @ g2) a1"
    "Push_all (a_world a0) g2 = Inr (a_world a1)" "capacity (w_store (a_world a1)) = nat bufferSize"
    "\<forall>bs. wire_part cd a0 (wires (mid @ bs)) = es2 @ wire_part cd a1 (wires bs)" using a0(3) by (auto simp: Push_all_def)
  have inv: "world_inv (a_world a0)" "world_inv (a_world a1)"
    and log: "w_log (a_world a0) = cl_snapshot c @ g1" "w_log (a_world a1) = cl_snapshot c @ g1 @ g2"
    using a0(2) a1(2) by (simp_all add: attached_def)
  obtain ch w where sub: "Subscribe (a_world a1) = (ch, w)" by (cases "Subscribe (a_world a1)")
  note s1 = Subscribe_reads [OF inv(2) sub]
  let ?hist = "Snapshot (w_store (a_world a0))" and ?V = "tui_viewer ''daemon''"
  let ?a = "a1\<lparr>a_world := w\<rparr>" and ?t = "(tui_init w ch (NewWithEvents target ?hist))\<lparr>t_cancelled := CtxDone \<in> set (before @ mid)\<rparr>"
  have es: "seen cd (wires (before @ mid @ client_acts acts)) = (es1 @ es2) @ wire_part cd a1 (wires (client_acts acts))"
    using a0(4) a1(5) by (simp only: append_assoc)
  have hist: "?hist = lastn (nat bufferSize) (cl_snapshot c @ g1)" using a0(2,3) by (simp add: attached_def)
  then have "set ?hist \<subseteq> set (cl_snapshot c) \<union> set es1"
    using attached_got [OF a0(2)] by (auto simp: lastn_def dest: in_set_dropD)
  with named have n: "list_all named_event ?hist" unfolding es by (auto simp: list_all_iff)
  have "tui_open target (a_world a0) g2 = Inr (tui_init w ch (NewWithEvents target ?hist))"
    using a1(3) sub by (simp add: tui_open_def open_tui_def Let_def)
  with tui_open_inv [OF inv(1) n, of target g2]
  have "tui_run_inv ?hist [] True [] [] (tui_init w ch (NewWithEvents target ?hist))" by auto
  then have "tui_run_inv ?hist [] True [] [] ?t" by (rule tui_run_inv_change) simp_all
  then have t: "tui_reads ?hist b [] ?t" unfolding tui_reads_def by blast
  have "attached (cl_snapshot c) (es1 @ es2) (g1 @ g2) ?a"
    using a1(2) s1 feed_reads_world [OF s1(1)] Subscribe_feed(2) [OF sub] by (simp add: attached_def same_feed_def)
  moreover have "vw_world ?V ?t = w" "vw_source ?V ?t = None" by (simp_all add: tui_viewer_def tui_init_def)
  moreover have "a_source a1 = Some r" if "vw_source ?V (attach_tells ?V (a_source a1) ?t) = Some r" for r
    using ts.tells(3) [OF that] calculation by simp
  ultimately have i: "ts.attach_sound ''daemon'' ?hist b (cl_snapshot c) (es1 @ es2) (g1 @ g2) [] (?a, attach_tells ?V (a_source a1) ?t)"
    using ts.tells(1) [OF t, of "''daemon''" "a_source a1"] ts.tells(2) [of "''daemon''"] unfolding ts.attach_sound_def by simp
  have "list_all named_event ((es1 @ es2) @ wire_part cd (fst (?a, attach_tells ?V (a_source a1) ?t)) (wires (client_acts acts)))"
    using named unfolding es by (simp add: wire_part_def)
  then have "ts.attach_moves ''daemon'' ?hist b cd (cl_snapshot c) (es1 @ es2) (g1 @ g2) [] (?a, attach_tells ?V (a_source a1) ?t) acts"
    by (rule ts.attach_steps [OF i ok])
  then obtain s es3 g3 where f: "fold_ok (attach_mode_step cd ?V) (?a, attach_tells ?V (a_source a1) ?t) acts = Inr s"
    "ts.attach_sound ''daemon'' ?hist b (cl_snapshot c) ((es1 @ es2) @ es3) (g1 @ g2) g3 s"
    "\<forall>as. wire_part cd ?a (wires (client_acts acts @ as)) = es3 @ wire_part cd (fst s) (wires as)"
    unfolding ts.attach_moves_def by auto
  have "wire_part cd a1 (wires (client_acts acts)) = es3"
    using f(3) [rule_format, of "[]"] by (simp add: wire_part_def)
  note es = es [unfolded this]
  obtain a t where s: "s = (a, t)" by (cases s)
  have "runAttachTUI cd target bufferSize c before mid acts = Inr (a, t)"
    using a0(1) a1(1) sub f(1) s by (simp add: runAttachTUI_def Let_def)
  with f(2) a0(1) a1(1) log show ?thesis unfolding es hist s by blast
qed

section \<open>What attach shows\<close>

text \<open>After the messages that were sent the stream may break off.\<close>

fun broken_off :: "decoded list \<Rightarrow> bool" where
  "broken_off [] = True"
| "broken_off (Inl e # ds) = True"
| "broken_off (Inr env # ds) = False"

fun_cases broken_off_at: "broken_off ds"

lemma seen_broken_off: "broken_off ds \<Longrightarrow> seen cd (map Inr envs @ ds) = seen cd (map Inr envs)"
  by (induction envs) (auto elim: broken_off_at split: sum.split)

text \<open>What the store was given was pushed in the daemon, all of it when none of it waits.\<close>

definition nothing_waits :: "conn \<Rightarrow> attach_state \<Rightarrow> feed_world \<Rightarrow> nat \<Rightarrow> bool" where
  "nothing_waits k a w sub \<longleftrightarrow>
     (\<forall>ch. k_sub k = Some ch \<longrightarrow> buf (w_chans (k_world k) ! ch) = []) \<and> buf (cl_events (a_client a)) = [] \<and> feed_waiting w sub = []"

lemma attached_relayed:
  assumes "fed cd ch ps evs k" and "attached history es got a" and "prefix es evs"
  shows "subseq got ps"
    and "es = evs \<Longrightarrow> \<not> k_closed k \<Longrightarrow> \<not> k_broken k \<Longrightarrow> length ps \<le> 100 \<Longrightarrow> nothing_waits k a w sub \<Longrightarrow> got = ps"
proof -
  have i: "client_inv es (a_client a, got)" using assms(2) by (simp add: attached_def)
  then have "subseq got es" by (auto simp: client_inv_def intro: subseq_left)
  also have "subseq es evs" using assms(3) by (rule prefix_imp_subseq)
  also have "subseq evs ps" using assms(1) by (auto simp: fed_def intro: subseq_left)
  finally show "subseq got ps" .
  assume a: "es = evs" "\<not> k_closed k" "\<not> k_broken k" "length ps \<le> 100" "nothing_waits k a w sub"
  then have "evs = ps" using assms(1) by (simp add: fed_def nothing_waits_def defaultSubChanCap_def)
  with a i show "got = ps" by (simp add: client_inv_def nothing_waits_def eventChanCap_def)
qed

text \<open>
  JSON mode: whatever part of the daemon's stream has arrived and however the goroutines interleave, it
  prints the history of the daemon (with what came in while it opened) and then a selection, in
  order, of the events pushed in the daemon since; it returns only with the error its connection
  ended with. Nothing is missing if the connection is sound, at most 100 events were pushed and
  none of them waits on the way.
\<close>

theorem attach_json_prints:
  assumes "world_inv w" and "handleConn cd opts w n True True between dacts = Inr k"
    and "prefix (e1 # e2 # envs) (k_sent k)" and "wires (before @ mid @ client_acts acts) = map Inr envs @ ds" and "0 < bufferSize"
    and "round_trips cd \<lparr>hello_version = o_version opts, hello_db = o_db opts\<rparr> (Snapshot (w_store w)) (pushed dacts)"
    and "broken_off ds"
  shows "\<exists>c a0 a1 a j g1 g2 g3 got. Dial uni cd None (Inr e1, Inr e2) = Inr c
    \<and> runAttachJSON cd marshal bufferSize c before mid acts = Inr (a, j)
    \<and> attach_run cd bufferSize c before = Inr a0 \<and> w_log (a_world a0) = Snapshot (w_store w) @ g1
    \<and> fold_ok (attach_step cd) (a0\<lparr>a_world := snd (Subscribe (a_world a0))\<rparr>) mid = Inr a1
    \<and> w_log (a_world a1) = Snapshot (w_store w) @ g1 @ g2 \<and> w_log (a_world a) = Snapshot (w_store w) @ g1 @ g2 @ g3
    \<and> subseq (g1 @ g2 @ g3) (pushed dacts)
    \<and> j_out j = lines marshal (lastn (nat bufferSize) (w_log (a_world a1))) @ lines marshal got
    \<and> subseq got (g2 @ g3)
    \<and> (\<forall>r. j_result j = Some r \<longrightarrow> (\<exists>err. a_source a = Some err \<and> r = wrapSourceError ''daemon'' err))
    \<and> (k_sent k = e1 # e2 # envs \<and> \<not> k_closed k \<and> \<not> k_broken k \<and> length (pushed dacts) \<le> 100
        \<and> j_result j = None \<and> nothing_waits k a (j_world j) (j_sub j) \<longrightarrow> g1 @ g2 @ g3 = pushed dacts \<and> got = g2 @ g3)"
proof -
  obtain c ch evs where c: "readHandshake uni cd (Inr e1) (Inr e2) = Inr c" "cl_snapshot c = Snapshot (w_store w)"
    "cl_events c = make_chan eventChanCap" "cl_dropped c = 0" "\<not> cl_closed c"
    "fed cd ch (pushed dacts) evs k" "prefix (seen cd (map Inr envs)) evs"
      "length (seen cd (map Inr envs)) = length (events_of envs)"
    and all: "k_sent k = e1 # e2 # envs \<longrightarrow> seen cd (map Inr envs) = evs"
    by (rule connection_facts [OF assms(1-3,6)])
  from attach_json_run [OF assms(5) c(3-5), of cd marshal before mid acts] obtain a0 a1 a j g1 g2 g3 where
    r: "runAttachJSON cd marshal bufferSize c before mid acts = Inr (a, j)"
      "js.attach_sound marshal ''daemon'' (lastn (nat bufferSize) (cl_snapshot c @ g1 @ g2))
        (cl_snapshot c) (seen cd (map Inr envs)) g1 (g2 @ g3) (a, j)"
      and a0: "attach_run cd bufferSize c before = Inr a0" "w_log (a_world a0) = cl_snapshot c @ g1"
      and a1: "fold_ok (attach_step cd) (a0\<lparr>a_world := snd (Subscribe (a_world a0))\<rparr>) mid = Inr a1" "w_log (a_world a1) = cl_snapshot c @ g1 @ g2"
    unfolding assms(4) seen_broken_off [OF assms(7)] by blast
  have at: "attached (cl_snapshot c) (seen cd (map Inr envs)) (g1 @ g2 @ g3) a" using r(2) by (simp add: js.attach_sound_def)
  obtain got where v: "json_inv marshal ''daemon'' (lastn (nat bufferSize) (cl_snapshot c @ g1 @ g2)) (g2 @ g3) got j"
    "\<forall>e. j_source j = Some e \<longrightarrow> a_source a = Some e"
    using r(2) unfolding js.attach_sound_def by (auto simp: json_reads_def json_viewer_def)
  have "g1 @ g2 @ g3 = pushed dacts \<and> got = g2 @ g3"
    if t: "k_sent k = e1 # e2 # envs" "\<not> k_closed k" "\<not> k_broken k" "length (pushed dacts) \<le> 100" "j_result j = None"
      "nothing_waits k a (j_world j) (j_sub j)"
  proof -
    have g: "g1 @ g2 @ g3 = pushed dacts" using attached_relayed(2) [OF c(6) at c(7) _ t(2-4,6)] all t(1) by blast
    have "length (g2 @ g3) \<le> 100" using t(4) unfolding g [symmetric] by simp
    with v(1) t(5,6) sub.no_loss [of "j_world j" "j_sub j" "g2 @ g3" got] have "got = g2 @ g3"
      by (simp add: json_inv_def nothing_waits_def defaultSubChanCap_def)
    with g show ?thesis by blast
  qed
  then have complete: "k_sent k = e1 # e2 # envs \<and> \<not> k_closed k \<and> \<not> k_broken k \<and> length (pushed dacts) \<le> 100
        \<and> j_result j = None \<and> nothing_waits k a (j_world j) (j_sub j) \<longrightarrow> g1 @ g2 @ g3 = pushed dacts \<and> got = g2 @ g3" by blast
  have "Dial uni cd None (Inr e1, Inr e2) = Inr c" using c(1) by (simp add: Dial_def)
  moreover have "w_log (a_world a) = cl_snapshot c @ g1 @ g2 @ g3" using at by (simp add: attached_def)
  moreover have "j_out j = lines marshal (lastn (nat bufferSize) (w_log (a_world a1))) @ lines marshal got" "subseq got (g2 @ g3)"
      "\<forall>r. j_result j = Some r \<longrightarrow> (\<exists>err. a_source a = Some err \<and> r = wrapSourceError ''daemon'' err)"
    using v unfolding a1(2) by (auto simp: json_inv_def)
  ultimately show ?thesis using r(1) a0 a1 attached_relayed(1) [OF c(6) at c(7)] complete unfolding c(2)
    by (intro exI [of _ c] exI [of _ a0] exI [of _ a1] exI [of _ a] exI [of _ j] exI [of _ g1] exI [of _ g2] exI [of _ g3] exI [of _ got] conjI)
qed

text \<open>
  Terminal mode: the same of the screen, if every event names its table; what comes between the two
  looks at the store (\<open>g2\<close>) is not shown.
\<close>

theorem attach_tui_shows:
  assumes "world_inv w" and "handleConn cd opts w n True True between dacts = Inr k"
    and "prefix (e1 # e2 # envs) (k_sent k)" and "wires (before @ mid @ client_acts acts) = map Inr envs @ ds" and "0 < bufferSize"
    and "round_trips cd \<lparr>hello_version = o_version opts, hello_db = o_db opts\<rparr> (Snapshot (w_store w)) (pushed dacts)"
    and "broken_off ds" and "list_all named_event (Snapshot (w_store w) @ pushed dacts)" and "list_all (attach_ok user_act) acts"
  shows "\<exists>c a0 a1 a t g1 g2 g3 took. Dial uni cd None (Inr e1, Inr e2) = Inr c
    \<and> runAttachTUI cd (attach_target c name) bufferSize c before mid acts = Inr (a, t)
    \<and> attach_run cd bufferSize c before = Inr a0 \<and> w_log (a_world a0) = Snapshot (w_store w) @ g1
    \<and> fold_ok (attach_step cd) a0 mid = Inr a1 \<and> w_log (a_world a1) = Snapshot (w_store w) @ g1 @ g2
    \<and> w_log (a_world a) = Snapshot (w_store w) @ g1 @ g2 @ g3
    \<and> subseq (g1 @ g2 @ g3) (pushed dacts) \<and> tui_inv (t_model t) \<and> subseq took g3
    \<and> suffix (m_all (t_model t) @ m_pending (t_model t)) (lastn (nat bufferSize) (w_log (a_world a0)) @ took)
    \<and> ((\<forall>x. ViewerSide x \<in> set acts \<longrightarrow> \<not> clearing x) \<longrightarrow>
         m_all (t_model t) @ m_pending (t_model t) = lastn (nat bufferSize) (w_log (a_world a0)) @ took)
    \<and> (k_sent k = e1 # e2 # envs \<and> \<not> k_closed k \<and> \<not> k_broken k \<and> length (pushed dacts) \<le> 100
        \<and> \<not> t_quit t \<and> nothing_waits k a (t_world t) (t_sub t) \<longrightarrow> g1 @ g2 @ g3 = pushed dacts \<and> took = g3)"
proof -
  let ?b = "\<forall>x. ViewerSide x \<in> set acts \<longrightarrow> \<not> clearing x"
  have ok: "list_all (attach_ok (\<lambda>x. user_act x \<and> (?b \<longrightarrow> \<not> clearing x))) acts"
    using assms(9) by (auto simp: list_all_iff attach_ok_def split: attach_act.splits)
  obtain c ch evs where c: "readHandshake uni cd (Inr e1) (Inr e2) = Inr c" "cl_snapshot c = Snapshot (w_store w)"
    "cl_events c = make_chan eventChanCap" "cl_dropped c = 0" "\<not> cl_closed c"
    "fed cd ch (pushed dacts) evs k" "prefix (seen cd (map Inr envs)) evs"
      "length (seen cd (map Inr envs)) = length (events_of envs)"
    and all: "k_sent k = e1 # e2 # envs \<longrightarrow> seen cd (map Inr envs) = evs"
    by (rule connection_facts [OF assms(1-3,6)])
  have ws: "seen cd (wires (before @ mid @ client_acts acts)) = seen cd (map Inr envs)"
    unfolding assms(4) by (rule seen_broken_off [OF assms(7)])
  have "subseq (seen cd (map Inr envs)) (pushed dacts)"
    using prefix_imp_subseq [OF c(7)] c(6) by (auto simp: fed_def intro: subseq_left subseq_order.trans)
  then have "set (seen cd (map Inr envs)) \<subseteq> set (pushed dacts)" by (auto elim!: list_emb_set)
  with assms(8) have named: "list_all named_event (cl_snapshot c @ seen cd (wires (before @ mid @ client_acts acts)))"
    unfolding ws c(2) by (auto simp: list_all_iff)
  from attach_tui_run [OF assms(5) c(3-5) named ok, of "attach_target c name"] obtain a0 a1 a t g1 g2 g3 where
    r: "runAttachTUI cd (attach_target c name) bufferSize c before mid acts = Inr (a, t)"
      "ts.attach_sound ''daemon'' (lastn (nat bufferSize) (cl_snapshot c @ g1)) ?b
        (cl_snapshot c) (seen cd (map Inr envs)) (g1 @ g2) g3 (a, t)"
      and a0: "attach_run cd bufferSize c before = Inr a0" "w_log (a_world a0) = cl_snapshot c @ g1"
      and a1: "fold_ok (attach_step cd) a0 mid = Inr a1" "w_log (a_world a1) = cl_snapshot c @ g1 @ g2"
    unfolding ws by blast
  have at: "attached (cl_snapshot c) (seen cd (map Inr envs)) (g1 @ g2 @ g3) a" using r(2) by (simp add: ts.attach_sound_def)
  obtain keep got took where i: "tui_run_inv (lastn (nat bufferSize) (cl_snapshot c @ g1)) g3 keep got took t" "?b \<longrightarrow> keep"
    using r(2) by (auto simp: ts.attach_sound_def tui_reads_def)
  have "g1 @ g2 @ g3 = pushed dacts \<and> took = g3"
    if t: "k_sent k = e1 # e2 # envs" "\<not> k_closed k" "\<not> k_broken k" "length (pushed dacts) \<le> 100" "\<not> t_quit t"
      "nothing_waits k a (t_world t) (t_sub t)"
  proof -
    have g: "g1 @ g2 @ g3 = pushed dacts" using attached_relayed(2) [OF c(6) at c(7) _ t(2-4,6)] all t(1) by blast
    have "length g3 \<le> 100" using t(4) unfolding g [symmetric] by simp
    with i(1) t(5,6) sub.no_loss [of "t_world t" "t_sub t" g3 got] have "took = g3"
      by (auto simp: tui_run_inv_def nothing_waits_def defaultSubChanCap_def split: if_splits)
    with g show ?thesis by blast
  qed
  then have complete: "k_sent k = e1 # e2 # envs \<and> \<not> k_closed k \<and> \<not> k_broken k \<and> length (pushed dacts) \<le> 100
        \<and> \<not> t_quit t \<and> nothing_waits k a (t_world t) (t_sub t) \<longrightarrow> g1 @ g2 @ g3 = pushed dacts \<and> took = g3" by blast
  have "Dial uni cd None (Inr e1, Inr e2) = Inr c" using c(1) by (simp add: Dial_def)
  moreover have "subseq took g3" using i(1) by (auto simp: tui_run_inv_def intro: subseq_order.trans prefix_imp_subseq)
  moreover have "w_log (a_world a) = cl_snapshot c @ g1 @ g2 @ g3" using at by (simp add: attached_def)
  moreover have "tui_inv (t_model t)"
      "suffix (m_all (t_model t) @ m_pending (t_model t)) (lastn (nat bufferSize) (w_log (a_world a0)) @ took)"
      "?b \<longrightarrow> m_all (t_model t) @ m_pending (t_model t) = lastn (nat bufferSize) (w_log (a_world a0)) @ took"
    using i unfolding a0(2) by (simp_all add: tui_run_inv_def items_def)
  ultimately show ?thesis using r(1) a0 a1 attached_relayed(1) [OF c(6) at c(7)] complete unfolding c(2)
    by (intro exI [of _ c] exI [of _ a0] exI [of _ a1] exI [of _ a] exI [of _ t] exI [of _ g1] exI [of _ g2] exI [of _ g3] exI [of _ took] conjI)
qed

text \<open>The mode that the flags choose.\<close>

lemma runAttach_modes:
  assumes "ResolveSocketPath pe (fs_string fs flagName) = Inr sock" and "dial sock = Inr c"
  shows "shouldUseTUI tty (fs_string fs ''output'')
      \<Longrightarrow> runAttachTUI cd (attach_target c (fs_string fs flagName)) (fs_int fs ''buffer'') c before mid tacts = Inr (a, t)
      \<Longrightarrow> runAttach uni pe dial fs tty cd marshal before mid tacts jacts = Inr (Inr (a, TuiRun t))"
    and "\<not> shouldUseTUI tty (fs_string fs ''output'')
      \<Longrightarrow> runAttachJSON cd marshal (fs_int fs ''buffer'') c before mid jacts = Inr (a, j)
      \<Longrightarrow> runAttach uni pe dial fs tty cd marshal before mid tacts jacts = Inr (Inr (a, JsonRun j))"
  using assms by (simp_all add: runAttach_def Let_def)

end
