(* ===== verification/Daemon_Stream.thy ===== *)
theory Daemon_Stream
  imports Attach_Cmd Daemon_Cmd
begin

text \<open>
  The daemon from its replication stream to the screen of an attached viewer: \<open>runDaemonForeground\<close>
  of \<open>cmd/dbwatch/main.go\<close> gives one store to the core and to the server of \<open>Ipc\<close>. The connection of
  a client is a third interpretation of \<open>feed_viewer\<close>.
\<close>

section \<open>The daemon and one of its clients\<close>

text \<open>
  The core goes on whatever happens to a connection, and a connection is not told of the core's end:
  the daemon's main loop is (\<open>foreground_wait\<close>). A push is not a step of the connection itself.
\<close>

definition conn_own :: "action \<Rightarrow> bool" where
  "conn_own x \<longleftrightarrow> (case x of PushEvent _ \<Rightarrow> False | _ \<Rightarrow> True)"

definition conn_viewer :: "codec \<Rightarrow> server_opts \<Rightarrow> (conn, action) viewer" where
  "conn_viewer cd opts =
    \<lparr>vw_world = k_world, vw_put = (\<lambda>c w k. k\<lparr>k_world := w\<rparr>), vw_source = (\<lambda>k. None), vw_send = (\<lambda>r k. k),
     vw_cancelled = (\<lambda>k. False), vw_own = conn_own, vw_step = conn_step cd opts\<rparr>"

text \<open>\<open>stats\<close>: the callback of the server, as \<open>daemon_stats\<close> at some moment.\<close>

definition daemon_opts :: "string \<Rightarrow> config \<Rightarrow> (store \<Rightarrow> int \<Rightarrow> stats_data) \<Rightarrow> server_opts" where
  "daemon_opts version cfg stats = \<lparr>o_version = version, o_db = DBURL cfg, o_stats = stats\<rparr>"

text \<open>
  \<open>before\<close>: what the source does before the client is accepted, \<open>mid\<close>: what it does between the
  client's history and its subscription. \<open>n\<close> clients are connected already; \<open>ok1\<close>, \<open>ok2\<close>: the outcomes
  of the two first writes.
\<close>

definition daemon_serves :: "('s, 'd) tail_env \<Rightarrow> config \<Rightarrow> codec \<Rightarrow> server_opts \<Rightarrow> int \<Rightarrow> bool \<Rightarrow> bool
    \<Rightarrow> source_act list \<Rightarrow> source_act list \<Rightarrow> action tail_act list \<Rightarrow> go_panic + (tail_source \<times> conn)" where
  "daemon_serves TE cfg cd opts n ok1 ok2 before mid acts =
    and_then (New (BufferSize cfg)) (\<lambda>s.
    and_then (tail_start TE cfg (new_world s) before) (\<lambda>(src, w).
      let (sent, k) = conn_greet cd opts w n ok1 ok2
      in and_then (fold_ok (source_step TE cfg) (src, w) mid) (\<lambda>(src1, w1).
         and_then (if sent then Inr (conn_subscribe (k\<lparr>k_world := w1\<rparr>)) else conn_return (k\<lparr>k_world := w1\<rparr>)) (\<lambda>k1.
           fold_ok (tail_step TE cfg (conn_viewer cd opts)) (src1, k1) acts))))"

section \<open>The connection keeps the contract\<close>

text \<open>
  It is in the state of a handler that was accepted over \<open>w\<close> and has seen the pushes \<open>ps\<close>; with \<open>nm\<close>
  all of them are named.
\<close>

definition conn_follows :: "codec \<Rightarrow> server_opts \<Rightarrow> feed_world \<Rightarrow> int \<Rightarrow> event list \<Rightarrow> bool \<Rightarrow> event list \<Rightarrow> conn \<Rightarrow> bool" where
  "conn_follows cd opts w n between nm ps k \<longleftrightarrow>
     world_inv w \<and> (\<exists>acts. handleConn cd opts w n True True between acts = Inr k \<and> pushed acts = ps)
     \<and> (nm \<longrightarrow> list_all named_event ps)"

lemma conn_follows_world: "conn_follows cd opts w n between nm ps k \<Longrightarrow> world_inv (k_world k)"
  using handleConn_fed [of w cd opts n between] unfolding conn_follows_def fed_def by (metis Inr_inject)

lemma conn_follows_step:
  assumes "conn_follows cd opts w n between nm ps k" and "nm \<longrightarrow> list_all named_event (pushed [x])"
  shows "\<exists>k'. conn_step cd opts k x = Inr k' \<and> conn_follows cd opts w n between nm (ps @ pushed [x]) k'"
proof -
  obtain acts where w: "world_inv w" and a: "handleConn cd opts w n True True between acts = Inr k" "pushed acts = ps"
    using assms(1) by (auto simp: conn_follows_def)
  from handleConn_fed [OF w] obtain k' where "handleConn cd opts w n True True between (acts @ [x]) = Inr k'" by blast
  then have k': "handleConn cd opts w n True True between (acts @ [x]) = Inr k'" "conn_step cd opts k x = Inr k'"
    using a(1) by (auto simp: handleConn_def fold_ok_append and_then_Inr_iff)
  have "pushed (acts @ [x]) = ps @ pushed [x]" by (simp add: pushed_append a(2))
  moreover have "nm \<longrightarrow> list_all named_event (ps @ pushed [x])" using assms by (simp add: conn_follows_def)
  ultimately show ?thesis using w k' unfolding conn_follows_def by blast
qed

lemma conn_follows_pushes:
  "conn_follows cd opts w n between nm ps k \<Longrightarrow> fold_ok Push (k_world k) es = Inr w' \<Longrightarrow> (nm \<Longrightarrow> list_all named_event es)
    \<Longrightarrow> conn_follows cd opts w n between nm (ps @ es) (k\<lparr>k_world := w'\<rparr>)"
proof (induction es arbitrary: ps k)
  case (Cons e es)
  then obtain w1 where w1: "Push (k_world k) e = Inr w1" "fold_ok Push w1 es = Inr w'" by (auto simp: and_then_Inr_iff)
  then have "conn_step cd opts k (PushEvent e) = Inr (k\<lparr>k_world := w1\<rparr>)" by (simp add: conn_step_def)
  with conn_follows_step [OF Cons.prems(1), of "PushEvent e"] Cons.prems(3)
  have "conn_follows cd opts w n between nm (ps @ [e]) (k\<lparr>k_world := w1\<rparr>)" by auto
  from Cons.IH [OF this] w1(2) Cons.prems(3) show ?case by simp
qed auto

lemma conn_follows_own:
  assumes "conn_follows cd opts w n between nm ps k" and "conn_own x"
  shows "\<exists>k'. conn_step cd opts k x = Inr k' \<and> conn_follows cd opts w n between nm ps k' \<and> same_feed (k_world k) (k_world k')"
proof -
  have x: "pushed [x] = []" using assms(2) by (cases x) (simp_all add: conn_own_def)
  from conn_follows_step [OF assms(1), of x] x obtain k' where k': "conn_step cd opts k x = Inr k'"
    "conn_follows cd opts w n between nm ps k'" by auto
  from conn_step_view [OF conn_follows_world [OF assms(1)] k'(1) x] have "same_feed (k_world k) (k_world k')"
    by (simp add: same_view_def)
  with k' show ?thesis by blast
qed

interpretation ks: feed_viewer "conn_viewer cd opts" nm "\<lambda>x. True" "conn_follows cd opts w n between nm" for cd opts w n between nm
proof (rule feed_viewer.intro, goal_cases)
  case (3 ps v es w1 c)
  then show ?case by (simp add: conn_viewer_def conn_follows_pushes)
next
  case (7 ps v)
  then show ?case by (simp add: conn_viewer_def conn_follows_world)
next
  case (8 ps v x)
  then show ?case using conn_follows_own [of cd opts w n between nm ps v x] by (simp add: conn_viewer_def)
qed (simp_all add: conn_viewer_def)

section \<open>From the start\<close>

lemma conn_greet_sent:
  "conn_greet cd opts w n True True = (sent, k) \<Longrightarrow> sent \<and> k_world k = w"
  by (auto simp: conn_greet_def send_def)

text \<open>The opening within the daemon is that of \<open>Ipc\<close>, with what the source pushes meanwhile.\<close>

lemma conn_subscribe_follows:
  assumes "world_inv w" and "conn_greet cd opts w n True True = (sent, k)" and "fold_ok Push w es = Inr w1"
  shows "conn_follows cd opts w n es nm [] (conn_subscribe (k\<lparr>k_world := w1\<rparr>))"
proof -
  have "handleConn cd opts w n True True es [] = Inr (conn_subscribe (k\<lparr>k_world := w1\<rparr>))"
    using assms(2,3) conn_greet_sent [OF assms(2)] by (simp add: handleConn_def conn_open_def Push_all_def)
  moreover have "pushed [] = []" "list_all named_event []" by simp_all
  ultimately show ?thesis using assms(1) unfolding conn_follows_def by blast
qed

lemma conn_subscribe_feed: "same_feed (k_world k) (k_world (conn_subscribe k))"
  using Subscribe_feed(1) [of "k_world k" AllowAllFilter] by (auto simp: conn_subscribe_def split: prod.splits)

lemma daemon_serves_facts:
  assumes h: "0 < BufferSize cfg" "alone \<longrightarrow> \<not> TrackDDL cfg" "nm \<longrightarrow> wire_named (co_wire (te_core TE))"
    and ok: "list_all (source_ok alone nm) (before @ mid @ source_acts acts)"
  shows "\<exists>s src0 w src1 w1 src k m ps cacts. daemon_serves TE cfg cd opts n True True before mid acts = Inr (src, k)
    \<and> New (BufferSize cfg) = Inr s \<and> tail_start TE cfg (new_world s) before = Inr (src0, w)
    \<and> fold_ok (source_step TE cfg) (src0, w) mid = Inr (src1, w1) \<and> w_log w1 = w_log w @ m
    \<and> (mid = [] \<longrightarrow> m = []) \<and> Snapshot (w_store w) = lastn (nat (BufferSize cfg)) (w_log w)
    \<and> source_inv TE cfg alone nm (nat (BufferSize cfg)) (w_log w @ m @ ps) cacts src (k_world k)
    \<and> conn_follows cd opts w n m nm ps k \<and> (nm \<longrightarrow> list_all named_event (w_log w))
    \<and> turns_of cacts = source_turns False (before @ mid @ source_acts acts)"
proof -
  let ?cap = "nat (BufferSize cfg)"
  have ok1: "list_all (source_ok alone nm) before" "list_all (source_ok alone nm) mid" using ok by simp_all
  have "list_all (source_ok alone nm) (source_acts acts)" using ok by simp
  then have ok2: "list_all (tail_ok alone nm (\<lambda>x. True)) acts"
    by (induction acts rule: source_acts.induct) (simp_all add: tail_ok_def)
  obtain s where s: "New (BufferSize cfg) = Inr s" using New_positive [OF h(1)] by blast
  from tail_start_does [OF h s ok1(1)] obtain src w pre a1 where
    1: "tail_start TE cfg (new_world s) before = Inr (src, w)" "source_inv TE cfg alone nm ?cap pre a1 src w" "nm \<longrightarrow> list_all named_event pre"
      "\<forall>ys. source_turns False (before @ ys) = turns_of a1 @ source_turns (opened src) ys" by auto
  have w: "world_inv w" "Snapshot (w_store w) = lastn ?cap pre" "w_log w = pre" using 1(2) by (simp_all add: source_inv_def)
  obtain sent k where g: "conn_greet cd opts w n True True = (sent, k)" by fastforce
  from source_steps_does [OF h 1(2) ok1(2)] obtain src1 w1 m a2 where
    2: "fold_ok (source_step TE cfg) (src, w) mid = Inr (src1, w1)"
      "source_does TE cfg alone nm ?cap pre a1 (src, w) mid (src1, w1) m a2" "mid = [] \<longrightarrow> m = []" by auto
  have d2: "source_inv TE cfg alone nm ?cap (pre @ m) (a1 @ a2) src1 w1" "fold_ok Push w m = Inr w1"
      "\<forall>ys. source_turns (opened src) (mid @ ys) = turns_of a2 @ source_turns (opened src1) ys"
    using 2(2) by (simp_all add: source_does_def)
  let ?k = "conn_subscribe (k\<lparr>k_world := w1\<rparr>)"
  have f: "conn_follows cd opts w n m nm [] ?k" by (rule conn_subscribe_follows [OF w(1) g d2(2)])
  have log1: "w_log w1 = pre @ m" using d2(1) by (simp add: source_inv_def)
  have "source_inv TE cfg alone nm ?cap (pre @ m) (a1 @ a2) src1 (k_world ?k)"
    using conn_subscribe_feed [of "k\<lparr>k_world := w1\<rparr>"] by (intro source_inv_feed [OF d2(1) _ conn_follows_world [OF f]]) simp
  with f have "ks.sound cd opts nm w n m TE cfg alone ?cap (pre @ m) [] (a1 @ a2) (src1, ?k)"
    unfolding ks.sound_def by (simp add: conn_viewer_def)
  from ks.tail_steps [OF h this ok2] obtain s' ps acts' where
    3: "fold_ok (tail_step TE cfg (conn_viewer cd opts)) (src1, ?k) acts = Inr s'"
      "ks.sound cd opts nm w n m TE cfg alone ?cap (pre @ m) ps ((a1 @ a2) @ acts') s'"
      "\<forall>ys. source_turns (opened src1) (source_acts acts @ ys) = turns_of acts' @ source_turns (opened (fst s')) ys"
    unfolding ks.advances_def by auto
  obtain src2 k2 where s': "s' = (src2, k2)" by (cases s')
  have "source_turns False (before @ mid @ source_acts acts) = turns_of ((a1 @ a2) @ acts')"
    using 1(4) d2(3) 3(3) [rule_format, of "[]"] by simp
  moreover have "daemon_serves TE cfg cd opts n True True before mid acts = Inr (src2, k2)"
    using s 1(1) g conn_greet_sent [OF g] 2(1) 3(1) s' by (simp add: daemon_serves_def)
  ultimately show ?thesis using 1(1,3) 2(1,3) 3(2) s s' w(2,3) log1 unfolding ks.sound_def
    by (intro exI [of _ s] exI [of _ src] exI [of _ w] exI [of _ src1] exI [of _ w1] exI [of _ src2] exI [of _ k2] exI [of _ m] exI [of _ ps] exI [of _ "(a1 @ a2) @ acts'"])
      (simp add: conn_viewer_def)
qed

text \<open>The daemon's part: what it pushes, what the connection is sent, and what the stream means.\<close>

lemma daemon_relays:
  assumes "0 < BufferSize cfg" and "alone \<longrightarrow> \<not> TrackDDL cfg"
    and "list_all (source_ok alone nm) (before @ mid @ source_acts acts)"
    and "source_turns False (before @ mid @ source_acts acts) = ts @ [tend]" and "t_recv tend = ReceiveFailed m"
    and "list_all2 (delivers (co_wire (te_core TE))) ts msgs"
    and "XLogDataByteID (co_wire (te_core TE)) \<noteq> PrimaryKeepaliveMessageByteID (co_wire (te_core TE))"
    and "length msgs \<le> nat (BufferSize cfg)"
    and "nm \<longrightarrow> wire_named (co_wire (te_core TE))"
  obtains s src0 w0 src1 w1 src k mp ps dacts rest
  where "daemon_serves TE cfg cd (daemon_opts version cfg stats) n True True before mid acts = Inr (src, k)" "mid = [] \<longrightarrow> mp = []"
    "New (BufferSize cfg) = Inr s" "tail_start TE cfg (new_world s) before = Inr (src0, w0)"
    "fold_ok (source_step TE cfg) (src0, w0) mid = Inr (src1, w1)" "w_log w1 = w_log w0 @ mp" "w_log (k_world k) = w_log w0 @ mp @ ps"
    "Snapshot (w_store (k_world k)) = lastn (nat (BufferSize cfg)) (w_log (k_world k))"
    "k_sent k = helloEnvelope cd \<lparr>hello_version = version, hello_db = DBURL cfg\<rparr>
        # snapshotEnvelope cd (lastn (nat (BufferSize cfg)) (w_log w0)) # rest"
    "\<forall>c. src_phase src = CoreRunning c \<and> core_result c \<noteq> None \<and> \<not> src_cancelled src \<longrightarrow>
         map change_of (c_forwarded c) = stream_meaning [] msgs \<and> subseq (c_forwarded c) (w_log (k_world k))
         \<and> (alone \<longrightarrow> c_forwarded c = w_log (k_world k))"
    "world_inv w0" "Snapshot (w_store w0) = lastn (nat (BufferSize cfg)) (w_log w0)" "pushed dacts = ps"
    "handleConn cd (daemon_opts version cfg stats) w0 n True True mp dacts = Inr k"
    "nm \<longrightarrow> list_all named_event (lastn (nat (BufferSize cfg)) (w_log w0) @ ps)"
proof -
  let ?opts = "daemon_opts version cfg stats" and ?cap = "nat (BufferSize cfg)"
  from daemon_serves_facts [OF assms(1,2,9,3), of cd ?opts n] obtain s src0 w0 src1 w1 src k mp ps as where
    f: "daemon_serves TE cfg cd ?opts n True True before mid acts = Inr (src, k)" "mid = [] \<longrightarrow> mp = []"
      "Snapshot (w_store w0) = lastn ?cap (w_log w0)" "source_inv TE cfg alone nm ?cap (w_log w0 @ mp @ ps) as src (k_world k)"
      "conn_follows cd ?opts w0 n mp nm ps k" "nm \<longrightarrow> list_all named_event (w_log w0)" "turns_of as = ts @ [tend]"
      and st: "New (BufferSize cfg) = Inr s" "tail_start TE cfg (new_world s) before = Inr (src0, w0)"
      "fold_ok (source_step TE cfg) (src0, w0) mid = Inr (src1, w1)" "w_log w1 = w_log w0 @ mp"
    unfolding assms(4) by blast
  have w: "world_inv w0" and named: "nm \<longrightarrow> list_all named_event (lastn ?cap (w_log w0) @ ps)"
    using f(5,6) by (auto simp: conn_follows_def list_all_iff lastn_def dest: in_set_dropD)
  have log: "w_log (k_world k) = w_log w0 @ mp @ ps" and shown: "Snapshot (w_store (k_world k)) = lastn ?cap (w_log (k_world k))"
    using f(4) by (simp_all add: source_inv_def)
  obtain dacts where d: "handleConn cd ?opts w0 n True True mp dacts = Inr k" "pushed dacts = ps"
    using f(5) by (auto simp: conn_follows_def)
  obtain rest where rest: "k_sent k = helloEnvelope cd \<lparr>hello_version = version, hello_db = DBURL cfg\<rparr>
      # snapshotEnvelope cd (lastn ?cap (w_log w0)) # rest"
    using handleConn_fed [OF w, of cd ?opts n mp dacts] d(1) unfolding f(3) by (auto simp: daemon_opts_def)
  have "\<forall>c. src_phase src = CoreRunning c \<and> core_result c \<noteq> None \<and> \<not> src_cancelled src \<longrightarrow>
         map change_of (c_forwarded c) = stream_meaning [] msgs \<and> subseq (c_forwarded c) (w_log (k_world k))
         \<and> (alone \<longrightarrow> c_forwarded c = w_log (k_world k))"
    using source_stream [OF f(4) _ _ _ f(7) assms(5-8)] unfolding log by blast
  with f(1,2) st log shown rest w f(3) d named show ?thesis by (intro that)
qed

section \<open>A small run\<close>

text \<open>A daemon that relays one insertion to one client.\<close>

definition demo_relay_acts :: "action tail_act list" where
  "demo_relay_acts = map SourceSide demo_source @ [ModeSide (Pump True)]"

definition demo_relay :: "codec \<Rightarrow> go_panic + (tail_source \<times> conn)" where
  "demo_relay cd = daemon_serves demo_tail_env demo_tail_cfg cd (daemon_opts ''1'' demo_tail_cfg (o_stats demo_opts)) 0 True True
     [SourceOpens] [] demo_relay_acts"

definition demo_relayed :: event where
  "demo_relayed = (case demo_relay demo_codec of Inr (src, k) \<Rightarrow> hd (Snapshot (w_store (k_world k))) | _ \<Rightarrow> zero_event)"

definition relay_codec :: codec where
  "relay_codec = demo_codec\<lparr>dec_hello := (\<lambda>_. Inr \<lparr>hello_version = ''1'', hello_db = ''u''\<rparr>),
     enc_events := (\<lambda>es. Some (if es = [] then ''[]'' else ''x'')), dec_event := (\<lambda>_. Inr demo_relayed)\<rparr>"

abbreviation relay_hello :: envelope where
  "relay_hello \<equiv> helloEnvelope relay_codec \<lparr>hello_version = ''1'', hello_db = ''u''\<rparr>"

definition relay_dial :: "string \<Rightarrow> string + client" where
  "relay_dial sock = Dial (\<lambda>_. True) relay_codec None (Inr relay_hello, Inr (snapshotEnvelope relay_codec []))"

definition demo_attach_flags :: "string \<Rightarrow> flag_set" where
  "demo_attach_flags out = read_flags (c_flags attachCmd) [(''output'', Some out), (''buffer'', Some ''3'')]"

definition demo_client :: "'x \<Rightarrow> 'x attach_act list" where
  "demo_client x = [ClientSide (Wire (Inr (eventEnvelope relay_codec demo_relayed))), ClientSide EventsReady, ViewerSide x]"

lemma demo_attach_flags_facts:
  "ResolveSocketPath demo_paths (fs_string (demo_attach_flags ''json'') flagName) = Inr ''/run/default.sock''"
  "\<not> shouldUseTUI True (fs_string (demo_attach_flags ''json'') ''output'')" "fs_int (demo_attach_flags ''json'') ''buffer'' = 3"
  "ResolveSocketPath demo_paths (fs_string (demo_attach_flags ''tui'') flagName) = Inr ''/run/default.sock''"
  "shouldUseTUI True (fs_string (demo_attach_flags ''tui'') ''output'')" "fs_int (demo_attach_flags ''tui'') ''buffer'' = 3"
  by code_simp+

lemma demo_relay_runs:
  "case demo_relay relay_codec of
     Inr (src, k) \<Rightarrow> \<not> src_cancelled src \<and> (case src_phase src of CoreRunning c \<Rightarrow> core_result c \<noteq> None | _ \<Rightarrow> False)
       \<and> k_sent k = [relay_hello, snapshotEnvelope relay_codec [], eventEnvelope relay_codec demo_relayed]
       \<and> w_log (k_world k) = [demo_relayed]
   | _ \<Rightarrow> False"
  by code_simp

lemma demo_client_prints:
  "case runAttach (\<lambda>_. True) demo_paths relay_dial (demo_attach_flags ''json'') True relay_codec (\<lambda>e. Inr (ev_table e))
       [] [] [] (demo_client EventBranch) of
     Inr (Inr (a, JsonRun j)) \<Rightarrow> j_out j = lines (\<lambda>e. Inr (ev_table e)) [demo_relayed] | _ \<Rightarrow> False"
  by code_simp

lemma demo_client_shows:
  "case runAttach (\<lambda>_. True) demo_paths relay_dial (demo_attach_flags ''tui'') True relay_codec (\<lambda>e. Inr (ev_table e))
       [] [] (demo_client TuiForward) [] of
     Inr (Inr (a, TuiRun t)) \<Rightarrow> m_all (t_model t) @ m_pending (t_model t) = [demo_relayed] | _ \<Rightarrow> False"
  by code_simp

text \<open>What the run determines of the variables of the properties.\<close>

lemma demo_relay_facts:
  assumes "demo_relay relay_codec = Inr (src, k)" and "w_log (k_world k) = w_log w0 @ ps"
    and "k_sent k = relay_hello # snapshotEnvelope relay_codec (lastn 3 (w_log w0)) # rest"
    and "\<forall>c. src_phase src = CoreRunning c \<and> core_result c \<noteq> None \<and> \<not> src_cancelled src \<longrightarrow>
         map change_of (c_forwarded c) = stream_meaning [] demo_stream \<and> subseq (c_forwarded c) (w_log (k_world k))
         \<and> (True \<longrightarrow> c_forwarded c = w_log (k_world k))"
  shows "change_of demo_relayed = (''INSERT'', ''public'', ''orders'', Some [(''id'', StrValue ''42'')], None)"
    and "prefix (relay_hello # snapshotEnvelope relay_codec [] # [eventEnvelope relay_codec demo_relayed]) (k_sent k)
      \<and> round_trips relay_codec \<lparr>hello_version = ''1'', hello_db = ''u''\<rparr> (lastn 3 (w_log w0)) ps"
proof -
  obtain c where k: "k_sent k = [relay_hello, snapshotEnvelope relay_codec [], eventEnvelope relay_codec demo_relayed]"
      "w_log (k_world k) = [demo_relayed]" "src_phase src = CoreRunning c" "core_result c \<noteq> None" "\<not> src_cancelled src"
    using demo_relay_runs unfolding assms(1) by (auto split: core_phase.splits)
  have m: "map change_of [demo_relayed] = [(''INSERT'', ''public'', ''orders'', Some [(''id'', StrValue ''42'')], None)]"
    using assms(4) k(3-5) unfolding k(2) demo_source_facts(8) by metis
  then show "change_of demo_relayed = (''INSERT'', ''public'', ''orders'', Some [(''id'', StrValue ''42'')], None)" by simp
  have "length (w_log w0) \<le> 1" using arg_cong [OF assms(2), of length] k(2) by simp
  then have short: "lastn 3 (w_log w0) = w_log w0" by (simp add: lastn_def)
  have "snapshotEnvelope relay_codec (w_log w0) = snapshotEnvelope relay_codec []" using assms(3) k(1) unfolding short by simp
  then have pre: "w_log w0 = []" by (simp add: snapshotEnvelope_def relay_codec_def mustMarshal_def split: if_splits)
  then have ps: "ps = [demo_relayed]" using assms(2) k(2) by simp
  show "prefix (relay_hello # snapshotEnvelope relay_codec [] # [eventEnvelope relay_codec demo_relayed]) (k_sent k)
      \<and> round_trips relay_codec \<lparr>hello_version = ''1'', hello_db = ''u''\<rparr> (lastn 3 (w_log w0)) ps"
    unfolding short by (simp add: pre ps k(1) round_trips_def relay_codec_def demo_codec_def)
qed

lemma demo_client_wires: "wires ([] @ [] @ client_acts (demo_client x)) = map Inr [eventEnvelope relay_codec demo_relayed] @ []"
  by (simp add: demo_client_def)

lemma demo_relay_source: "source_acts demo_relay_acts = demo_source" "True \<longrightarrow> \<not> TrackDDL demo_tail_cfg"
  "DBURL demo_tail_cfg = ''u''" "BufferSize demo_tail_cfg = 3" "wire_named (co_wire (te_core demo_tail_env))"
  by (simp_all add: demo_relay_acts_def demo_source_def demo_tail_cfg_def wire_named_def demo_tail_env_def demo_core_def demo_wire_def)

section \<open>Properties\<close>

text \<open>
  C4. From the replication stream of a daemon to the lines of a client that attaches in JSON mode, for
  positive buffer sizes of both, no empty CopyData message, different message bytes of the library, turns of the
  daemon's listener that deliver a stream of at most as many messages as its buffer holds and then end with a failing
  receive, a socket that the client can open, and successful first two writes to the client. No schedule of core, marker API, connection and client panics. \<open>w0\<close> is the daemon's store
  when it accepts the client, \<open>w1\<close> when it subscribes it: the daemon's store shows the newest of what was pushed, and
  the client is sent the newest events of \<open>w0\<close>. If the client reads a prefix of what was sent, and
  the JSON encoding gives back these values, its own store is filled with that history and with a
  selection, in order, of what was pushed since \<open>w1\<close>; it prints the newest of what its store held when it looked
  (\<open>a1\<close>) and then a selection, in order, of what that store received since it subscribed (\<open>a0\<close>), and returns only
  with the error of its connection. Nothing is lost if the connection is sound and read to its end, at most
  100 events came, none waits on the way and the client has not returned. Once the core has ended
  uncancelled, and not already while it was set up, what it forwarded means exactly the changes of the stream; it is in
  order part of what was pushed, and all of it if nobody else pushes and schema changes are not tracked.
\<close>

theorem attach_prints_stream:
  assumes "0 < BufferSize cfg" and "alone \<longrightarrow> \<not> TrackDDL cfg"
    and "list_all (source_ok alone False) (before @ mid @ source_acts acts)"
    and "source_turns False (before @ mid @ source_acts acts) = ts @ [tend]" and "t_recv tend = ReceiveFailed m"
    and "list_all2 (delivers (co_wire (te_core TE))) ts msgs"
    and "XLogDataByteID (co_wire (te_core TE)) \<noteq> PrimaryKeepaliveMessageByteID (co_wire (te_core TE))"
    and "length msgs \<le> nat (BufferSize cfg)"
    and "ResolveSocketPath pe (fs_string fs flagName) = Inr sock" and "dial sock = Dial uni cd None (Inr e1, Inr e2)"
    and "\<not> shouldUseTUI tty (fs_string fs ''output'')" and "0 < fs_int fs ''buffer''"
    and "wires (cbefore @ cmid @ client_acts cacts) = map Inr envs @ ds" and "broken_off ds"
  shows "\<exists>s src0 w0 src1 w1 src k mp ps rest.
      New (BufferSize cfg) = Inr s \<and> tail_start TE cfg (new_world s) before = Inr (src0, w0)
    \<and> fold_ok (source_step TE cfg) (src0, w0) mid = Inr (src1, w1) \<and> w_log w1 = w_log w0 @ mp
    \<and> daemon_serves TE cfg cd (daemon_opts version cfg stats) n True True before mid acts = Inr (src, k)
    \<and> w_log (k_world k) = w_log w0 @ mp @ ps
    \<and> (mid = [] \<longrightarrow> mp = [])
    \<and> Snapshot (w_store (k_world k)) = lastn (nat (BufferSize cfg)) (w_log (k_world k))
    \<and> k_sent k = helloEnvelope cd \<lparr>hello_version = version, hello_db = DBURL cfg\<rparr>
        # snapshotEnvelope cd (lastn (nat (BufferSize cfg)) (w_log w0)) # rest
    \<and> (prefix (e1 # e2 # envs) (k_sent k)
        \<and> round_trips cd \<lparr>hello_version = version, hello_db = DBURL cfg\<rparr> (lastn (nat (BufferSize cfg)) (w_log w0)) ps \<longrightarrow>
       (\<exists>cl a0 a1 a j g1 g2 g3 got. dial sock = Inr cl
          \<and> runAttach uni pe dial fs tty cd marshal cbefore cmid tacts cacts = Inr (Inr (a, JsonRun j))
          \<and> attach_run cd (fs_int fs ''buffer'') cl cbefore = Inr a0
          \<and> w_log (a_world a0) = lastn (nat (BufferSize cfg)) (w_log w0) @ g1
          \<and> fold_ok (attach_step cd) (a0\<lparr>a_world := snd (Subscribe (a_world a0))\<rparr>) cmid = Inr a1
          \<and> w_log (a_world a1) = lastn (nat (BufferSize cfg)) (w_log w0) @ g1 @ g2
          \<and> w_log (a_world a) = lastn (nat (BufferSize cfg)) (w_log w0) @ g1 @ g2 @ g3
          \<and> subseq (g1 @ g2 @ g3) ps
          \<and> j_out j = lines marshal (lastn (nat (fs_int fs ''buffer'')) (w_log (a_world a1))) @ lines marshal got
          \<and> subseq got (g2 @ g3)
          \<and> (\<forall>r. j_result j = Some r \<longrightarrow> (\<exists>err. a_source a = Some err \<and> r = wrapSourceError ''daemon'' err))
          \<and> (k_sent k = e1 # e2 # envs \<and> \<not> k_closed k \<and> \<not> k_broken k \<and> length ps \<le> 100 \<and> j_result j = None
              \<and> nothing_waits k a (j_world j) (j_sub j) \<longrightarrow> g1 @ g2 @ g3 = ps \<and> got = g2 @ g3)))
    \<and> (\<forall>c. src_phase src = CoreRunning c \<and> core_result c \<noteq> None \<and> \<not> src_cancelled src \<longrightarrow>
         map change_of (c_forwarded c) = stream_meaning [] msgs \<and> subseq (c_forwarded c) (w_log (k_world k))
         \<and> (alone \<longrightarrow> c_forwarded c = w_log (k_world k)))"
proof (rule daemon_relays [OF assms(1-8), of cd version stats n], blast)
  fix s src0 w0 src1 w1 src k mp ps dacts rest
  assume f: "daemon_serves TE cfg cd (daemon_opts version cfg stats) n True True before mid acts = Inr (src, k)" "mid = [] \<longrightarrow> mp = []"
    "New (BufferSize cfg) = Inr s" "tail_start TE cfg (new_world s) before = Inr (src0, w0)"
    "fold_ok (source_step TE cfg) (src0, w0) mid = Inr (src1, w1)" "w_log w1 = w_log w0 @ mp" "w_log (k_world k) = w_log w0 @ mp @ ps"
    "Snapshot (w_store (k_world k)) = lastn (nat (BufferSize cfg)) (w_log (k_world k))"
    "k_sent k = helloEnvelope cd \<lparr>hello_version = version, hello_db = DBURL cfg\<rparr>
        # snapshotEnvelope cd (lastn (nat (BufferSize cfg)) (w_log w0)) # rest"
    "\<forall>c. src_phase src = CoreRunning c \<and> core_result c \<noteq> None \<and> \<not> src_cancelled src \<longrightarrow>
         map change_of (c_forwarded c) = stream_meaning [] msgs \<and> subseq (c_forwarded c) (w_log (k_world k))
         \<and> (alone \<longrightarrow> c_forwarded c = w_log (k_world k))"
    and w: "world_inv w0" "Snapshot (w_store w0) = lastn (nat (BufferSize cfg)) (w_log w0)" and ps: "pushed dacts = ps"
    and d: "handleConn cd (daemon_opts version cfg stats) w0 n True True mp dacts = Inr k"
  have h: "\<lparr>hello_version = o_version (daemon_opts version cfg stats), hello_db = o_db (daemon_opts version cfg stats)\<rparr>
      = \<lparr>hello_version = version, hello_db = DBURL cfg\<rparr>" by (simp add: daemon_opts_def)
  have client: "prefix (e1 # e2 # envs) (k_sent k)
        \<and> round_trips cd \<lparr>hello_version = version, hello_db = DBURL cfg\<rparr> (lastn (nat (BufferSize cfg)) (w_log w0)) ps \<longrightarrow>
       (\<exists>cl a0 a1 a j g1 g2 g3 got. dial sock = Inr cl
          \<and> runAttach uni pe dial fs tty cd marshal cbefore cmid tacts cacts = Inr (Inr (a, JsonRun j))
          \<and> attach_run cd (fs_int fs ''buffer'') cl cbefore = Inr a0
          \<and> w_log (a_world a0) = lastn (nat (BufferSize cfg)) (w_log w0) @ g1
          \<and> fold_ok (attach_step cd) (a0\<lparr>a_world := snd (Subscribe (a_world a0))\<rparr>) cmid = Inr a1
          \<and> w_log (a_world a1) = lastn (nat (BufferSize cfg)) (w_log w0) @ g1 @ g2
          \<and> w_log (a_world a) = lastn (nat (BufferSize cfg)) (w_log w0) @ g1 @ g2 @ g3
          \<and> subseq (g1 @ g2 @ g3) ps
          \<and> j_out j = lines marshal (lastn (nat (fs_int fs ''buffer'')) (w_log (a_world a1))) @ lines marshal got
          \<and> subseq got (g2 @ g3)
          \<and> (\<forall>r. j_result j = Some r \<longrightarrow> (\<exists>err. a_source a = Some err \<and> r = wrapSourceError ''daemon'' err))
          \<and> (k_sent k = e1 # e2 # envs \<and> \<not> k_closed k \<and> \<not> k_broken k \<and> length ps \<le> 100 \<and> j_result j = None
              \<and> nothing_waits k a (j_world j) (j_sub j) \<longrightarrow> g1 @ g2 @ g3 = ps \<and> got = g2 @ g3))"
  proof
    assume "prefix (e1 # e2 # envs) (k_sent k)
        \<and> round_trips cd \<lparr>hello_version = version, hello_db = DBURL cfg\<rparr> (lastn (nat (BufferSize cfg)) (w_log w0)) ps"
    then have p: "prefix (e1 # e2 # envs) (k_sent k)"
      "round_trips cd \<lparr>hello_version = o_version (daemon_opts version cfg stats), hello_db = o_db (daemon_opts version cfg stats)\<rparr>
         (Snapshot (w_store w0)) (pushed dacts)" unfolding h w(2) ps by simp_all
    show "(\<exists>cl a0 a1 a j g1 g2 g3 got. dial sock = Inr cl
          \<and> runAttach uni pe dial fs tty cd marshal cbefore cmid tacts cacts = Inr (Inr (a, JsonRun j))
          \<and> attach_run cd (fs_int fs ''buffer'') cl cbefore = Inr a0
          \<and> w_log (a_world a0) = lastn (nat (BufferSize cfg)) (w_log w0) @ g1
          \<and> fold_ok (attach_step cd) (a0\<lparr>a_world := snd (Subscribe (a_world a0))\<rparr>) cmid = Inr a1
          \<and> w_log (a_world a1) = lastn (nat (BufferSize cfg)) (w_log w0) @ g1 @ g2
          \<and> w_log (a_world a) = lastn (nat (BufferSize cfg)) (w_log w0) @ g1 @ g2 @ g3
          \<and> subseq (g1 @ g2 @ g3) ps
          \<and> j_out j = lines marshal (lastn (nat (fs_int fs ''buffer'')) (w_log (a_world a1))) @ lines marshal got
          \<and> subseq got (g2 @ g3)
          \<and> (\<forall>r. j_result j = Some r \<longrightarrow> (\<exists>err. a_source a = Some err \<and> r = wrapSourceError ''daemon'' err))
          \<and> (k_sent k = e1 # e2 # envs \<and> \<not> k_closed k \<and> \<not> k_broken k \<and> length ps \<le> 100 \<and> j_result j = None
              \<and> nothing_waits k a (j_world j) (j_sub j) \<longrightarrow> g1 @ g2 @ g3 = ps \<and> got = g2 @ g3))"
      using attach_json_prints [OF w(1) d p(1) assms(13,12) p(2) assms(14), of uni marshal]
      unfolding h w(2) ps assms(10) [symmetric] by (elim exE conjE) (rule exI conjI | assumption | erule runAttach_modes(2) [OF assms(9) _ assms(11)])+
  qed
  show ?thesis
    by (rule exI [of _ s], rule exI [of _ src0], rule exI [of _ w0], rule exI [of _ src1], rule exI [of _ w1], rule exI [of _ src],
      rule exI [of _ k], rule exI [of _ mp], rule exI [of _ ps], rule exI [of _ rest], intro conjI)
      (rule f(3), rule f(4), rule f(5), rule f(6), rule f(1), rule f(7), rule f(2), rule f(8), rule f(9), rule client, rule f(10))
qed

theorem attach_prints_stream_witness:
  "\<exists>src k a j. demo_relay relay_codec = Inr (src, k)
    \<and> runAttach (\<lambda>_. True) demo_paths relay_dial (demo_attach_flags ''json'') True relay_codec (\<lambda>e. Inr (ev_table e))
        [] [] [] (demo_client EventBranch) = Inr (Inr (a, JsonRun j))
    \<and> change_of demo_relayed = (''INSERT'', ''public'', ''orders'', Some [(''id'', StrValue ''42'')], None)
    \<and> j_out j = lines (\<lambda>e. Inr (ev_table e)) [demo_relayed]"
proof -
  let ?m = "\<lambda>e. Inr (ev_table e)"
  have pos: "0 < fs_int (demo_attach_flags ''json'') ''buffer''" "broken_off []" by (simp_all add: demo_attach_flags_facts)
  from attach_prints_stream [where alone = True and before = "[SourceOpens]" and mid = "[]" and acts = demo_relay_acts
      and TE = demo_tail_env and cfg = demo_tail_cfg and version = "''1''" and stats = "o_stats demo_opts" and n = 0 and marshal = ?m and tacts = "[]" and cacts = "demo_client EventBranch" and dial = relay_dial
      and ?e1.0 = relay_hello and ?e2.0 = "snapshotEnvelope relay_codec []" and uni = "\<lambda>_. True" and cd = relay_codec,
      unfolded demo_relay_source(1), OF demo_source_facts(1) demo_relay_source(2) demo_source_facts(9,3-7) demo_attach_flags_facts(1) relay_dial_def demo_attach_flags_facts(2) pos(1) demo_client_wires pos(2),
      folded demo_relay_def]
  obtain w0 :: feed_world and src k mp ps rest where r: "demo_relay relay_codec = Inr (src, k)" "mp = []"
      "w_log (k_world k) = w_log w0 @ mp @ ps"
      "k_sent k = relay_hello # snapshotEnvelope relay_codec (lastn 3 (w_log w0)) # rest"
      "prefix (relay_hello # snapshotEnvelope relay_codec [] # [eventEnvelope relay_codec demo_relayed]) (k_sent k)
        \<and> round_trips relay_codec \<lparr>hello_version = ''1'', hello_db = ''u''\<rparr> (lastn 3 (w_log w0)) ps \<longrightarrow>
       (\<exists>a j. runAttach (\<lambda>_. True) demo_paths relay_dial (demo_attach_flags ''json'') True relay_codec ?m [] []
          [] (demo_client EventBranch) = Inr (Inr (a, JsonRun j)))"
      "\<forall>c. src_phase src = CoreRunning c \<and> core_result c \<noteq> None \<and> \<not> src_cancelled src \<longrightarrow>
         map change_of (c_forwarded c) = stream_meaning [] demo_stream \<and> subseq (c_forwarded c) (w_log (k_world k))
         \<and> (True \<longrightarrow> c_forwarded c = w_log (k_world k))"
    unfolding demo_relay_source(3,4) nat_numeral
    by (elim exE conjE)
      (rule that, assumption, (erule mp, rule refl), assumption, assumption,
        (erule imp_forward, assumption, elim exE conjE, intro exI, assumption), assumption)
  have "w_log (k_world k) = w_log w0 @ ps" using r(2,3) by simp
  note facts = demo_relay_facts [OF r(1) this r(4,6)]
  obtain a j where c: "runAttach (\<lambda>_. True) demo_paths relay_dial (demo_attach_flags ''json'') True relay_codec ?m [] []
      [] (demo_client EventBranch) = Inr (Inr (a, JsonRun j))"
    using r(5) facts(2) by blast
  then have "j_out j = lines ?m [demo_relayed]" using demo_client_prints by simp
  with r(1-3) facts(1) c show ?thesis by auto
qed

text \<open>
  C5. From the replication stream of a daemon to the screen of a client that attaches in terminal
  mode, for positive buffer sizes of both, no empty CopyData message, different message bytes of the library, turns of
  the daemon's listener that deliver a stream of at most as many messages as its buffer holds and then end with a failing
  receive, a socket that the client can open, and successful first two writes to the client, the relations of the
  stream and whatever else is pushed having names. No schedule and no input panics. \<open>w0\<close> is the daemon's
  store when it accepts the client, \<open>w1\<close> when it subscribes it: the daemon's store shows the newest of what was pushed,
  and the client is sent the newest events of \<open>w0\<close>. If the client reads a prefix of what was sent and the JSON encoding gives back these
  values, its own store is filled with the history it was sent and with a selection, in order, of what was
  pushed in the daemon since \<open>w1\<close>; the screen holds the newest of what that store held when the mode read it (\<open>a0\<close>), followed by a
  selection, in order, of what it received since the mode subscribed (\<open>a1\<close>), if no clearing key is
  pressed, and the newest part of that otherwise. On a sound connection that is read to its end, with
  at most 100 events and none on its way and before the mode quits, only what came between \<open>a0\<close> and \<open>a1\<close> is
  missing. Once the core has ended uncancelled, and not already while it was set up, what it forwarded means exactly the
  changes of the stream; it is in order part of what was pushed, and all of it if nobody else pushes and schema changes
  are not tracked.
\<close>

theorem attach_shows_stream:
  assumes "0 < BufferSize cfg" and "alone \<longrightarrow> \<not> TrackDDL cfg"
    and "list_all (source_ok alone True) (before @ mid @ source_acts acts)"
    and "source_turns False (before @ mid @ source_acts acts) = ts @ [tend]" and "t_recv tend = ReceiveFailed m"
    and "list_all2 (delivers (co_wire (te_core TE))) ts msgs"
    and "XLogDataByteID (co_wire (te_core TE)) \<noteq> PrimaryKeepaliveMessageByteID (co_wire (te_core TE))"
    and "length msgs \<le> nat (BufferSize cfg)"
    and "wire_named (co_wire (te_core TE))"
    and "ResolveSocketPath pe (fs_string fs flagName) = Inr sock" and "dial sock = Dial uni cd None (Inr e1, Inr e2)"
    and "shouldUseTUI tty (fs_string fs ''output'')" and "0 < fs_int fs ''buffer''"
    and "wires (cbefore @ cmid @ client_acts cacts) = map Inr envs @ ds" and "broken_off ds"
    and "list_all (attach_ok user_act) cacts"
  shows "\<exists>s src0 w0 src1 w1 src k mp ps rest.
      New (BufferSize cfg) = Inr s \<and> tail_start TE cfg (new_world s) before = Inr (src0, w0)
    \<and> fold_ok (source_step TE cfg) (src0, w0) mid = Inr (src1, w1) \<and> w_log w1 = w_log w0 @ mp
    \<and> daemon_serves TE cfg cd (daemon_opts version cfg stats) n True True before mid acts = Inr (src, k)
    \<and> w_log (k_world k) = w_log w0 @ mp @ ps
    \<and> (mid = [] \<longrightarrow> mp = [])
    \<and> Snapshot (w_store (k_world k)) = lastn (nat (BufferSize cfg)) (w_log (k_world k))
    \<and> k_sent k = helloEnvelope cd \<lparr>hello_version = version, hello_db = DBURL cfg\<rparr>
        # snapshotEnvelope cd (lastn (nat (BufferSize cfg)) (w_log w0)) # rest
    \<and> (prefix (e1 # e2 # envs) (k_sent k)
        \<and> round_trips cd \<lparr>hello_version = version, hello_db = DBURL cfg\<rparr> (lastn (nat (BufferSize cfg)) (w_log w0)) ps \<longrightarrow>
       (\<exists>cl a0 a1 a t g1 g2 g3 took. dial sock = Inr cl
          \<and> runAttach uni pe dial fs tty cd marshal cbefore cmid cacts jacts = Inr (Inr (a, TuiRun t))
          \<and> attach_run cd (fs_int fs ''buffer'') cl cbefore = Inr a0
          \<and> w_log (a_world a0) = lastn (nat (BufferSize cfg)) (w_log w0) @ g1
          \<and> fold_ok (attach_step cd) a0 cmid = Inr a1
          \<and> w_log (a_world a1) = lastn (nat (BufferSize cfg)) (w_log w0) @ g1 @ g2
          \<and> w_log (a_world a) = lastn (nat (BufferSize cfg)) (w_log w0) @ g1 @ g2 @ g3
          \<and> subseq (g1 @ g2 @ g3) ps \<and> tui_inv (t_model t) \<and> subseq took g3
          \<and> suffix (m_all (t_model t) @ m_pending (t_model t)) (lastn (nat (fs_int fs ''buffer'')) (w_log (a_world a0)) @ took)
          \<and> ((\<forall>x. ViewerSide x \<in> set cacts \<longrightarrow> \<not> clearing x) \<longrightarrow>
               m_all (t_model t) @ m_pending (t_model t) = lastn (nat (fs_int fs ''buffer'')) (w_log (a_world a0)) @ took)
          \<and> (k_sent k = e1 # e2 # envs \<and> \<not> k_closed k \<and> \<not> k_broken k \<and> length ps \<le> 100 \<and> \<not> t_quit t
              \<and> nothing_waits k a (t_world t) (t_sub t) \<longrightarrow> g1 @ g2 @ g3 = ps \<and> took = g3)))
    \<and> (\<forall>c. src_phase src = CoreRunning c \<and> core_result c \<noteq> None \<and> \<not> src_cancelled src \<longrightarrow>
         map change_of (c_forwarded c) = stream_meaning [] msgs \<and> subseq (c_forwarded c) (w_log (k_world k))
         \<and> (alone \<longrightarrow> c_forwarded c = w_log (k_world k)))"
proof (rule daemon_relays [OF assms(1-8), of cd version stats n], use assms(9) in blast)
  fix s src0 w0 src1 w1 src k mp ps dacts rest
  assume f: "daemon_serves TE cfg cd (daemon_opts version cfg stats) n True True before mid acts = Inr (src, k)" "mid = [] \<longrightarrow> mp = []"
    "New (BufferSize cfg) = Inr s" "tail_start TE cfg (new_world s) before = Inr (src0, w0)"
    "fold_ok (source_step TE cfg) (src0, w0) mid = Inr (src1, w1)" "w_log w1 = w_log w0 @ mp" "w_log (k_world k) = w_log w0 @ mp @ ps"
    "Snapshot (w_store (k_world k)) = lastn (nat (BufferSize cfg)) (w_log (k_world k))"
    "k_sent k = helloEnvelope cd \<lparr>hello_version = version, hello_db = DBURL cfg\<rparr>
        # snapshotEnvelope cd (lastn (nat (BufferSize cfg)) (w_log w0)) # rest"
    "\<forall>c. src_phase src = CoreRunning c \<and> core_result c \<noteq> None \<and> \<not> src_cancelled src \<longrightarrow>
         map change_of (c_forwarded c) = stream_meaning [] msgs \<and> subseq (c_forwarded c) (w_log (k_world k))
         \<and> (alone \<longrightarrow> c_forwarded c = w_log (k_world k))"
    and w: "world_inv w0" "Snapshot (w_store w0) = lastn (nat (BufferSize cfg)) (w_log w0)" and ps: "pushed dacts = ps"
    and d: "handleConn cd (daemon_opts version cfg stats) w0 n True True mp dacts = Inr k"
    and named: "True \<longrightarrow> list_all named_event (lastn (nat (BufferSize cfg)) (w_log w0) @ ps)"
  have h: "\<lparr>hello_version = o_version (daemon_opts version cfg stats), hello_db = o_db (daemon_opts version cfg stats)\<rparr>
      = \<lparr>hello_version = version, hello_db = DBURL cfg\<rparr>" by (simp add: daemon_opts_def)
  have named': "list_all named_event (Snapshot (w_store w0) @ pushed dacts)" using named by (simp add: w(2) ps)
  have client: "prefix (e1 # e2 # envs) (k_sent k)
        \<and> round_trips cd \<lparr>hello_version = version, hello_db = DBURL cfg\<rparr> (lastn (nat (BufferSize cfg)) (w_log w0)) ps \<longrightarrow>
       (\<exists>cl a0 a1 a t g1 g2 g3 took. dial sock = Inr cl
          \<and> runAttach uni pe dial fs tty cd marshal cbefore cmid cacts jacts = Inr (Inr (a, TuiRun t))
          \<and> attach_run cd (fs_int fs ''buffer'') cl cbefore = Inr a0
          \<and> w_log (a_world a0) = lastn (nat (BufferSize cfg)) (w_log w0) @ g1
          \<and> fold_ok (attach_step cd) a0 cmid = Inr a1
          \<and> w_log (a_world a1) = lastn (nat (BufferSize cfg)) (w_log w0) @ g1 @ g2
          \<and> w_log (a_world a) = lastn (nat (BufferSize cfg)) (w_log w0) @ g1 @ g2 @ g3
          \<and> subseq (g1 @ g2 @ g3) ps \<and> tui_inv (t_model t) \<and> subseq took g3
          \<and> suffix (m_all (t_model t) @ m_pending (t_model t)) (lastn (nat (fs_int fs ''buffer'')) (w_log (a_world a0)) @ took)
          \<and> ((\<forall>x. ViewerSide x \<in> set cacts \<longrightarrow> \<not> clearing x) \<longrightarrow>
               m_all (t_model t) @ m_pending (t_model t) = lastn (nat (fs_int fs ''buffer'')) (w_log (a_world a0)) @ took)
          \<and> (k_sent k = e1 # e2 # envs \<and> \<not> k_closed k \<and> \<not> k_broken k \<and> length ps \<le> 100 \<and> \<not> t_quit t
              \<and> nothing_waits k a (t_world t) (t_sub t) \<longrightarrow> g1 @ g2 @ g3 = ps \<and> took = g3))"
  proof
    assume "prefix (e1 # e2 # envs) (k_sent k)
        \<and> round_trips cd \<lparr>hello_version = version, hello_db = DBURL cfg\<rparr> (lastn (nat (BufferSize cfg)) (w_log w0)) ps"
    then have p: "prefix (e1 # e2 # envs) (k_sent k)"
      "round_trips cd \<lparr>hello_version = o_version (daemon_opts version cfg stats), hello_db = o_db (daemon_opts version cfg stats)\<rparr>
         (Snapshot (w_store w0)) (pushed dacts)" unfolding h w(2) ps by simp_all
    show "(\<exists>cl a0 a1 a t g1 g2 g3 took. dial sock = Inr cl
          \<and> runAttach uni pe dial fs tty cd marshal cbefore cmid cacts jacts = Inr (Inr (a, TuiRun t))
          \<and> attach_run cd (fs_int fs ''buffer'') cl cbefore = Inr a0
          \<and> w_log (a_world a0) = lastn (nat (BufferSize cfg)) (w_log w0) @ g1
          \<and> fold_ok (attach_step cd) a0 cmid = Inr a1
          \<and> w_log (a_world a1) = lastn (nat (BufferSize cfg)) (w_log w0) @ g1 @ g2
          \<and> w_log (a_world a) = lastn (nat (BufferSize cfg)) (w_log w0) @ g1 @ g2 @ g3
          \<and> subseq (g1 @ g2 @ g3) ps \<and> tui_inv (t_model t) \<and> subseq took g3
          \<and> suffix (m_all (t_model t) @ m_pending (t_model t)) (lastn (nat (fs_int fs ''buffer'')) (w_log (a_world a0)) @ took)
          \<and> ((\<forall>x. ViewerSide x \<in> set cacts \<longrightarrow> \<not> clearing x) \<longrightarrow>
               m_all (t_model t) @ m_pending (t_model t) = lastn (nat (fs_int fs ''buffer'')) (w_log (a_world a0)) @ took)
          \<and> (k_sent k = e1 # e2 # envs \<and> \<not> k_closed k \<and> \<not> k_broken k \<and> length ps \<le> 100 \<and> \<not> t_quit t
              \<and> nothing_waits k a (t_world t) (t_sub t) \<longrightarrow> g1 @ g2 @ g3 = ps \<and> took = g3))"
      using attach_tui_shows [OF w(1) d p(1) assms(14,13) p(2) assms(15) named' assms(16), of uni "fs_string fs flagName"]
      unfolding h w(2) ps assms(11) [symmetric] by (elim exE conjE) (rule exI conjI | assumption | erule runAttach_modes(1) [OF assms(10) _ assms(12)])+
  qed
  show ?thesis
    by (rule exI [of _ s], rule exI [of _ src0], rule exI [of _ w0], rule exI [of _ src1], rule exI [of _ w1], rule exI [of _ src],
      rule exI [of _ k], rule exI [of _ mp], rule exI [of _ ps], rule exI [of _ rest], intro conjI)
      (rule f(3), rule f(4), rule f(5), rule f(6), rule f(1), rule f(7), rule f(2), rule f(8), rule f(9), rule client, rule f(10))
qed

theorem attach_shows_stream_witness:
  "\<exists>src k a t. demo_relay relay_codec = Inr (src, k)
    \<and> runAttach (\<lambda>_. True) demo_paths relay_dial (demo_attach_flags ''tui'') True relay_codec (\<lambda>e. Inr (ev_table e))
        [] [] (demo_client TuiForward) [] = Inr (Inr (a, TuiRun t))
    \<and> change_of demo_relayed = (''INSERT'', ''public'', ''orders'', Some [(''id'', StrValue ''42'')], None)
    \<and> m_all (t_model t) @ m_pending (t_model t) = [demo_relayed]"
proof -
  let ?m = "\<lambda>e. Inr (ev_table e)"
  have pos: "0 < fs_int (demo_attach_flags ''tui'') ''buffer''" "broken_off []" by (simp_all add: demo_attach_flags_facts)
  have ok: "list_all (attach_ok user_act) (demo_client TuiForward)" by (simp add: demo_client_def attach_ok_def)
  from attach_shows_stream [where alone = True and before = "[SourceOpens]" and mid = "[]" and acts = demo_relay_acts
      and TE = demo_tail_env and cfg = demo_tail_cfg and version = "''1''" and stats = "o_stats demo_opts" and n = 0 and marshal = ?m and jacts = "[]" and cacts = "demo_client TuiForward" and dial = relay_dial
      and ?e1.0 = relay_hello and ?e2.0 = "snapshotEnvelope relay_codec []" and uni = "\<lambda>_. True" and cd = relay_codec,
      unfolded demo_relay_source(1), OF demo_source_facts(1) demo_relay_source(2) demo_source_facts(9,3-7) demo_relay_source(5) demo_attach_flags_facts(4) relay_dial_def demo_attach_flags_facts(5) pos(1) demo_client_wires pos(2) ok,
      folded demo_relay_def]
  obtain w0 :: feed_world and src k mp ps rest where r: "demo_relay relay_codec = Inr (src, k)" "mp = []"
      "w_log (k_world k) = w_log w0 @ mp @ ps"
      "k_sent k = relay_hello # snapshotEnvelope relay_codec (lastn 3 (w_log w0)) # rest"
      "prefix (relay_hello # snapshotEnvelope relay_codec [] # [eventEnvelope relay_codec demo_relayed]) (k_sent k)
        \<and> round_trips relay_codec \<lparr>hello_version = ''1'', hello_db = ''u''\<rparr> (lastn 3 (w_log w0)) ps \<longrightarrow>
       (\<exists>a t. runAttach (\<lambda>_. True) demo_paths relay_dial (demo_attach_flags ''tui'') True relay_codec ?m [] []
          (demo_client TuiForward) [] = Inr (Inr (a, TuiRun t)))"
      "\<forall>c. src_phase src = CoreRunning c \<and> core_result c \<noteq> None \<and> \<not> src_cancelled src \<longrightarrow>
         map change_of (c_forwarded c) = stream_meaning [] demo_stream \<and> subseq (c_forwarded c) (w_log (k_world k))
         \<and> (True \<longrightarrow> c_forwarded c = w_log (k_world k))"
    unfolding demo_relay_source(3,4) nat_numeral
    by (elim exE conjE)
      (rule that, assumption, (erule mp, rule refl), assumption, assumption,
        (erule imp_forward, assumption, elim exE conjE, intro exI, assumption), assumption)
  have "w_log (k_world k) = w_log w0 @ ps" using r(2,3) by simp
  note facts = demo_relay_facts [OF r(1) this r(4,6)]
  obtain a t where c: "runAttach (\<lambda>_. True) demo_paths relay_dial (demo_attach_flags ''tui'') True relay_codec ?m [] []
      (demo_client TuiForward) [] = Inr (Inr (a, TuiRun t))"
    using r(5) facts(2) by blast
  then have "m_all (t_model t) @ m_pending (t_model t) = [demo_relayed]" using demo_client_shows by simp
  with r(1-3) facts(1) c show ?thesis by auto
qed

end
