(* ===== verification/Spec2Isabelle.thy ===== *)
theory Spec2Isabelle
  imports Listener Report Capturer Storage Marker_Api Config Tail_Modes Attach
    Daemon_Cmd Snapshot_Cmd Core_Run Tui_View Tail_Stream Daemon_Stream
begin

text \<open>
  A model of dbwatch, a viewer of the changes of a Postgres database, and the theorems that
  make it correct. Go sources are under \<open>internal/\<close> and \<open>cmd/dbwatch/\<close>; definitions keep
  their names.

  \<^bold>\<open>The program.\<close> A replication listener reads the write-ahead log of the server
  (\<open>listener\<close>), decodes it to events and puts them into a channel; the core copies them into
  the store (\<open>store\<close>), a ring buffer that fans events out to subscribers. Markers and log lines
  enter the same store through a small HTTP API (\<open>markerapi\<close>). A viewer is either the terminal
  interface (\<open>tui\<close>) or a printer of JSON lines (\<open>cmd/dbwatch/main.go\<close>), in the process of
  the listener or attached to a daemon over a socket (\<open>ipc\<close>, \<open>daemon\<close>). Apart from that,
  \<open>snapshot\<close> captures the structure and the statistics of a database and compares two such
  captures, which \<open>storage\<close> keeps in a SQLite table.

  \<^bold>\<open>Theories.\<close>
  \<^item> \<open>Prelude\<close>: theorem collections, Go's run-time panics, sequencing of fallible steps,
    maps as association lists, lemmas on lists.
  \<^item> \<open>Go_Strings\<close>, \<open>Go_Url\<close>, \<open>Go_Path\<close>, \<open>Go_Chan\<close>: what the source uses of the packages strings,
    strconv, fmt, unicode/utf8 and time, of url.Values, of path/filepath, and buffered channels
    with \<open>select\<close>/\<open>default\<close>.
  \<^item> \<open>Event\<close>, \<open>Feed_Store\<close>: \<open>store/event.go\<close> and \<open>store/store.go\<close>. The state is the store
    with the heap of its subscriber channels; as every method holds the mutex, it is one step,
    and \<open>reachable\<close> interleaves the steps of any number of goroutines. The history variable
    \<open>w_log\<close> records every push; no operation reads it, and the properties from end to end speak
    of what was pushed through it. The locale \<open>pusher\<close> is
    the contract that clients of the store rely on. \<open>Reader\<close> adds the one of a reader: the locale
    \<open>subscription\<close> says what a goroutine gets that receives from one subscriber channel.
  \<^item> \<open>Schema_Cache\<close>, \<open>Decoder\<close>, \<open>Listener_Errors\<close>, \<open>Listener\<close>: \<open>listener/\<close>. The wire format
    (pglogrepl, pgconn) is the argument record \<open>pglogrepl\<close>; a \<open>turn\<close> is what one round of the
    replication loop meets. The loop is checked against \<open>stream_meaning\<close>, a specification
    without cache or channel. \<open>Listener_Start\<close>: the steps before the loop, over the answers of
    the server.
  \<^item> \<open>Snapshot_Types\<close>, \<open>Comparator\<close>, \<open>Report\<close>: \<open>snapshot/types.go\<close>, \<open>comparator.go\<close>,
    \<open>report.go\<close>. \<open>same_schema\<close>, \<open>breaks_table\<close> and \<open>nulls_dropped\<close> say what a report is to
    contain.
  \<^item> \<open>Capturer\<close>: \<open>snapshot/capturer.go\<close> over a connection given by its five queries.
  \<^item> \<open>Storage\<close>: \<open>storage/db.go\<close> over the rows of its table. The locale \<open>snapshot_repo\<close> is the
    contract of a repository, a map from labels to snapshots.
  \<^item> \<open>Ddl_Sql\<close>, \<open>Ddl_Watcher\<close>, \<open>Ddl_Tools\<close>: \<open>ddlwatcher/\<close> with its SQL text, over a connection that
    executes statements, and \<open>cmd/dbwatch/ddltools.go\<close>. \<open>script_statements\<close> reads the texts of the scripts as
    the statements on functions and event triggers they consist of, and \<open>run_statements\<close> runs
    them as Postgres documents them; this is what the properties assume of the server.
  \<^item> \<open>Core_Run\<close>: \<open>core/\<close>. \<open>Run\<close> is a step function on the state that its goroutines share; a run
    is any list of their steps.
  \<^item> \<open>Marker_Api\<close>: \<open>markerapi/\<close>, a client of the locale \<open>pusher\<close>.
  \<^item> \<open>Tui_Filter\<close>, \<open>Tui_App\<close>: \<open>tui/filter.go\<close> and the state machine of \<open>tui/app.go\<close>.
  \<^item> \<open>Tui_Styles\<close>, \<open>Tui_View\<close>: what the viewer draws: \<open>tui/styles.go\<close>, \<open>feed.go\<close>, \<open>detail.go\<close> and
    \<open>View\<close> of \<open>app.go\<close>, over the argument record \<open>lipgloss\<close>.
  \<^item> \<open>Config\<close>: \<open>config/config.go\<close> and the command line of a detached daemon.
  \<^item> \<open>Ipc\<close>, \<open>Attach\<close>: \<open>ipc/\<close>, the protocol of the daemon's socket. A connection is a record
    that every step of its goroutines updates, over the store of the daemon; \<open>Attach\<close> puts the
    client and its local store behind it. \<open>Serving\<close>: the accept loop, \<open>Dial\<close>, and the marker
    server from its start to its end.
  \<^item> \<open>Daemon\<close>, \<open>Daemon_Cmd\<close>: PID files, signals and paths of \<open>daemon/\<close> and \<open>ipc/socket_path.go\<close>, over files as a map; the daemon commands.
  \<^item> \<open>Snapshot_Cmd\<close>: \<open>cmd/dbwatch/snapshot.go\<close> over data files on disk.
  \<^item> \<open>Cli\<close>: the tree of commands with their flags, and what a command line gives to them.
  \<^item> \<open>Tail_Modes\<close>, \<open>Run_Modes\<close>, \<open>Tail_Cmd\<close>: how \<open>cmd/dbwatch/main.go\<close> connects a store to its
    viewers: what happens while one opens, the two modes as step functions from their start to
    their return, and the set-up of \<open>tail\<close> around them.
  \<^item> \<open>Tail_Source\<close>, \<open>Tail_Stream\<close>: the core as the source of \<open>tail\<close> next to the others that push, and
    this source with a mode over one store and one context. The locale \<open>feed_viewer\<close> is the contract
    of a mode towards its source, and both modes interpret it.
  \<^item> \<open>Attach_Cmd\<close>: \<open>attach\<close>, the goroutine of \<open>Attach\<close> next to a mode, for any \<open>feed_viewer\<close>.
    \<open>Daemon_Stream\<close>: the daemon, its core as the source and the connection of a client as a third
    interpretation, with the client and its viewer behind it.

  \<^bold>\<open>Conventions.\<close> A Go string is a list of bytes. A map is an association list without
  repeated keys, a nil map that the code tells from an empty one is \<open>None\<close>. A panic is \<open>Inl\<close>
  of \<open>go_panic\<close>, an error \<open>Inl\<close> of its text or of a type of its own. Identifiers, log
  positions and counters that wrap are words of their width; lengths, row counts and
  nanoseconds, which stay far from their bounds, are integers. Time, randomness, the network
  and libraries outside of the repository are arguments. No definition needs fuel: loops that
  wait for the world run over the list of what the world does, and the properties quantify
  over all such lists.

  \<^bold>\<open>What the theorems show.\<close> The replication loop implements the meaning of the stream,
  acknowledges nothing it has not received, numbers events in order and panics only on an
  empty message (\<open>Listener\<close>); with the core around it the store holds what the stream means, and
  the core returns (\<open>Core_Run\<close>); and with a mode behind it \<open>tail\<close> prints or shows just that, from
  its flags on and under every schedule (\<open>Tail_Stream\<close>), as does the client of a daemon
  (\<open>Daemon_Stream\<close>). The store returns the newest events, delivers to every
  subscriber a subsequence in order and never panics, under any interleaving (\<open>Feed_Store\<close>).
  The terminal viewer keeps its cursors in range and loses nothing but by an explicit clear
  (\<open>Tui_App\<close>), its window shows the newest lines (\<open>Tui_View\<close>), and whatever the goroutines and the
  user do, both modes show the history and then a selection in order of what is pushed, complete
  for up to as many events as a channel holds (\<open>Run_Modes\<close>). A daemon streams in order to every
  client (\<open>Ipc\<close>), whose local store mirrors it (\<open>Attach\<close>), so that \<open>attach\<close> prints or shows what the daemon
  was given (\<open>Attach_Cmd\<close>); its server ends when it is closed and only then (\<open>Serving\<close>). At most one
  daemon runs per name, stopping ends and leaves only files whose removal is refused (\<open>Daemon\<close>, \<open>Daemon_Cmd\<close>), and a
  detached child has the configuration of its parent (\<open>Cli\<close>). The API lets only well-formed items
  in (\<open>Marker_Api\<close>). A report is empty exactly for equal schemas and counts exactly the breaking
  changes (\<open>Comparator\<close>, \<open>Report\<close>). A capture is complete and consistent (\<open>Capturer\<close>), the
  repository is a map (\<open>Storage\<close>), and a command that fails writes nothing (\<open>Snapshot_Cmd\<close>). Some
  theorems show where the code falls short of its comments: events lost or doubled while a viewer
  opens, an error that the terminal mode hides, the end of isolation when a connection breaks,
  limits in bytes that are announced in characters, a cursor that moves without a visible event or
  off the screen, hints for the wrong class of error, triggers lost by a failed installation, the beginning of a
  line that \<open>daemon logs --follow\<close> drops. Two of them contradict \<open>TESTING.md\<close>: it expects an exit code other
  than 0 on a lost connection, also in terminal mode, and a message of \<open>daemon start\<close> about a stale socket.

  \<^bold>\<open>Conditions.\<close> The theorems from end to end need a positive buffer size (with 0 the first push
  panics), no empty CopyData message (it panics), message bytes of the library that differ, named relations for the
  terminal mode (an unnamed change can panic), and up to 100 events, the capacity of a subscriber's
  channel, for completeness. Each property lists its own.

  \<^bold>\<open>Not modelled.\<close> Libraries and the system are arguments or hypotheses and not definitions: how
  cobra splits a command line, the program loop of bubbletea and the layout of lipgloss, how net/url
  cuts a URL into parts, encoding/json, net/http, pgx, pgconn and pglogrepl, the engine of SQLite,
  sockets, files and signals. Of the repository itself these are left out: \<open>Event.JSON\<close>, one call of
  encoding/json; the process attributes in \<open>detach_unix.go\<close>; the fields and format of debug output.
\<close>

section \<open>The copies of one function\<close>

text \<open>
  C27. The connection string of a regular connection: from a URL that can be parsed, the parameter
  \<open>replication\<close> is removed and every other parameter keeps its values in their order, doing it
  twice is doing it once, and the four copies of this function in the repository agree.
\<close>

theorem strip_removes_replication:
  assumes "url_Parse L dbURL = Inr u"
    and "url_Parse L (url_String L (without_param ''replication'' u)) = Inr (without_param ''replication'' u)"
  shows "\<exists>u'. url_Parse L (ddlStripReplication L dbURL) = Inr u' \<and> url_rest u' = url_rest u
    \<and> (\<forall>k. values_get (url_Query u') k = (if k = ''replication'' then [] else values_get (url_Query u) k))
    \<and> ddlStripReplication L (ddlStripReplication L dbURL) = ddlStripReplication L dbURL
    \<and> stripReplicationParam L dbURL = ddlStripReplication L dbURL
    \<and> ddl_stripReplicationParam L dbURL = ddlStripReplication L dbURL
    \<and> stripReplication L dbURL = ddlStripReplication L dbURL"
  using assms by (simp add: ddlStripReplication_def ddl_stripReplicationParam_def stripReplicationParam_def
      stripReplication_def without_param_get without_param_idem)

definition demo_url_lib :: url_lib where
  "demo_url_lib = \<lparr>url_Parse = (\<lambda>s. Inr \<lparr>RawQuery = takeWhile (\<lambda>c. c \<noteq> CHR ''#'') s, url_rest = dropWhile (\<lambda>c. c \<noteq> CHR ''#'') s\<rparr>),
     url_String = (\<lambda>u. RawQuery u @ url_rest u)\<rparr>"

theorem strip_removes_replication_witness:
  "ddlStripReplication demo_url_lib ''replication=database&a=%41&b+c=1#x'' = ''a=A&b+c=1#x''
    \<and> (\<exists>u'. url_Parse demo_url_lib (ddlStripReplication demo_url_lib ''replication=database&a=%41&b+c=1#x'') = Inr u'
        \<and> values_get (url_Query u') ''replication'' = [])"
proof -
  let ?s = "''replication=database&a=%41&b+c=1#x''"
  let ?u = "\<lparr>RawQuery = ''replication=database&a=%41&b+c=1'', url_rest = ''#x''\<rparr>"
  have p: "url_Parse demo_url_lib ?s = Inr ?u" by code_simp
  have q: "url_Parse demo_url_lib (url_String demo_url_lib (without_param ''replication'' ?u)) = Inr (without_param ''replication'' ?u)"
    by code_simp
  have "ddlStripReplication demo_url_lib ?s = ''a=A&b+c=1#x''" by code_simp
  with strip_removes_replication [OF p q] show ?thesis by auto
qed

end
